(* ===== verification/Prelude.thy ===== *)
theory Prelude
  imports Main "HOL-Library.Multiset" "HOL-Library.Word"
begin

text \<open>
  Shared vocabulary of the development.

  \<^item> Go's fixed-width integers are \<open>int\<close> values with the wrap-around written out:
    \<open>i32\<close> and \<open>i64\<close> are the two's complement reductions of \<open>int32\<close> and
    \<open>int64\<close> (and of \<open>int\<close>, which is 64 bits wide on the targets the program is
    built for), related to the word library by \<open>i32_word\<close> and \<open>i64_word\<close>.
    \<open>quot\<close> is Go's integer division, which truncates towards zero.
  \<^item> A call that can fail for reasons outside the program (Postgres or Redis unreachable, the
    random source failing) is decided by a \<open>faults\<close> oracle: each such call of the source has
    a label, the message the source logs or wraps on that branch, and \<open>ft lbl\<close> says whether
    it fails in the run at hand.  Theorems quantify over all oracles.
  \<^item> \<open>resp\<close> is what a HTTP handler writes: status code, whether \<open>Retry-After\<close> is
    set, and the body (nothing, the \<open>{"error": msg}\<close> object every error helper of the source
    writes, or a success value).
  \<^item> Strings and byte slices are both \<open>string\<close>: a Go string is a sequence of bytes.
\<close>

named_theorems branches \<open>equations of handlers and loops, one per branch\<close>
named_theorems inv_simps \<open>unfolding of component invariants\<close>

subsection \<open>Machine integers\<close>

definition i32 :: "int \<Rightarrow> int" where
  "i32 x = (x + 2 ^ 31) mod 2 ^ 32 - 2 ^ 31"

definition i64 :: "int \<Rightarrow> int" where
  "i64 x = (x + 2 ^ 63) mod 2 ^ 64 - 2 ^ 63"

definition in_i32 :: "int \<Rightarrow> bool" where
  "in_i32 x \<longleftrightarrow> - (2 ^ 31) \<le> x \<and> x < 2 ^ 31"

definition in_i64 :: "int \<Rightarrow> bool" where
  "in_i64 x \<longleftrightarrow> - (2 ^ 63) \<le> x \<and> x < 2 ^ 63"

definition quot :: "int \<Rightarrow> int \<Rightarrow> int" where
  "quot a b = sgn a * sgn b * (\<bar>a\<bar> div \<bar>b\<bar>)"

lemma i32_in [simp]: "in_i32 (i32 x)"
proof -
  have "0 \<le> (x + 2 ^ 31) mod 2 ^ 32" and "(x + 2 ^ 31) mod 2 ^ 32 < (2::int) ^ 32"
    by (rule pos_mod_sign, simp) (rule pos_mod_bound, simp)
  then show ?thesis by (simp add: i32_def in_i32_def)
qed

lemma i64_in [simp]: "in_i64 (i64 x)"
proof -
  have "0 \<le> (x + 2 ^ 63) mod 2 ^ 64" and "(x + 2 ^ 63) mod 2 ^ 64 < (2::int) ^ 64"
    by (rule pos_mod_sign, simp) (rule pos_mod_bound, simp)
  then show ?thesis by (simp add: i64_def in_i64_def)
qed

lemma i32_id [simp]: "in_i32 x \<Longrightarrow> i32 x = x"
  by (simp add: i32_def in_i32_def)

lemma i64_id [simp]: "in_i64 x \<Longrightarrow> i64 x = x"
  by (simp add: i64_def in_i64_def)

lemma i32_word: "i32 x = sint (word_of_int x :: 32 word)"
  by (simp add: i32_def sint_sbintrunc' signed_take_bit_eq_take_bit_shift take_bit_eq_mod)

lemma i64_word: "i64 x = sint (word_of_int x :: 64 word)"
  by (simp add: i64_def sint_sbintrunc' signed_take_bit_eq_take_bit_shift take_bit_eq_mod)

lemma i64_cong: "i64 x = x + 2 ^ 64 * (- ((x + 2 ^ 63) div 2 ^ 64))"
  unfolding i64_def using mult_div_mod_eq [of "2 ^ 64" "x + 2 ^ 63"] by linarith

lemma i64_shift: "i64 (x - 2 ^ 64) = i64 x"
proof -
  have "x - 2 ^ 64 + 2 ^ 63 = (x + 2 ^ 63) - (2 ^ 64 :: int)" by simp
  then show ?thesis unfolding i64_def by (metis minus_mod_self2)
qed

lemma quot_nonneg: "0 \<le> a \<Longrightarrow> 0 < b \<Longrightarrow> quot a b = a div b"
  by (cases "a = 0") (simp_all add: quot_def)

subsection \<open>Faults, errors and HTTP responses\<close>

type_synonym faults = "string \<Rightarrow> bool"

datatype 'a body = NoBody | ErrorBody string | OkBody 'a

record 'a resp =
  status :: nat
  retry_after :: bool
  rbody :: "'a body"

definition reply :: "nat \<Rightarrow> 'a body \<Rightarrow> 'a resp" where
  "reply st b = \<lparr>status = st, retry_after = False, rbody = b\<rparr>"

definition err_reply :: "nat \<Rightarrow> string \<Rightarrow> 'a resp" where
  "err_reply st msg = reply st (ErrorBody msg)"

definition busy_reply :: "string \<Rightarrow> 'a resp" where
  "busy_reply msg = \<lparr>status = 429, retry_after = True, rbody = ErrorBody msg\<rparr>"

lemma reply_simps [simp]:
  "status (reply st b) = st" "rbody (reply st b) = b" "\<not> retry_after (reply st b)"
  by (simp_all add: reply_def)

lemma err_reply_simps [simp]:
  "status (err_reply st m) = st" "rbody (err_reply st m) = ErrorBody m"
  "\<not> retry_after (err_reply st m)"
  by (simp_all add: err_reply_def)

lemma busy_reply_simps [simp]:
  "status (busy_reply m) = 429" "rbody (busy_reply m) = ErrorBody m" "retry_after (busy_reply m)"
  by (simp_all add: busy_reply_def)

subsection \<open>Lists and multisets\<close>

lemma sum_mset_list_update:
  "i < length xs \<Longrightarrow>
   (\<Sum>x\<leftarrow>xs[i := v]. f x) + f (xs ! i) = (\<Sum>x\<leftarrow>xs. f x) + (f v :: 'a multiset)"
proof (induction xs arbitrary: i)
  case Nil
  then show ?case by simp
next
  case (Cons x xs)
  then show ?case by (cases i) (auto simp: ac_simps)
qed

lemma sum_nat_list_update:
  "i < length xs \<Longrightarrow>
   (\<Sum>x\<leftarrow>xs[i := v]. f x) + f (xs ! i) = (\<Sum>x\<leftarrow>xs. f x) + (f v :: nat)"
proof (induction xs arbitrary: i)
  case Nil
  then show ?case by simp
next
  case (Cons x xs)
  then show ?case by (cases i) (auto simp: ac_simps)
qed

lemma sum_list_empty: "(\<And>x. x \<in> set xs \<Longrightarrow> f x = {#}) \<Longrightarrow> (\<Sum>x\<leftarrow>xs. f x) = {#}"
  by (induction xs) auto

lemma set_list_updateD: "x \<in> set (xs[i := v]) \<Longrightarrow> x = v \<or> x \<in> set xs"
  by (metis insert_iff set_update_subset_insert subsetD)

lemma concat_map_if: "concat (map (\<lambda>x. if P x then [f x] else []) xs) = map f (filter P xs)"
  by (induction xs) auto

lemma find_keyed:
  "List.find (\<lambda>q. fst q = s) (map (\<lambda>x. (x, g x)) (filter P xs)) = (if s \<in> set xs \<and> P s then Some (s, g s) else None)"
  by (induction xs) auto

lemma find_unique: "distinct (map f xs) \<Longrightarrow> x \<in> set xs \<Longrightarrow> List.find (\<lambda>q. f q = f x) xs = Some x"
  by (induction xs) (auto simp: image_iff)

lemma filter_take_keyed:
  "distinct (map f xs) \<Longrightarrow> filter (\<lambda>x. f x \<in> set (take n (map f (filter P xs)))) xs = take n (filter P xs)"
proof (induction xs arbitrary: n)
  case (Cons x xs)
  then have d: "distinct (map f xs)" "f x \<notin> set (map f xs)" by auto
  have later: "f x \<notin> set (take k (map f (filter P xs)))" for k
  proof
    assume "f x \<in> set (take k (map f (filter P xs)))"
    then have "f x \<in> set (map f (filter P xs))" by (rule in_set_takeD)
    then show False using d(2) by auto
  qed
  show ?case
  proof (cases "P x")
    case True
    show ?thesis
    proof (cases n)
      case (Suc k)
      have "filter (\<lambda>y. f y = f x \<or> f y \<in> set (take k (map f (filter P xs)))) xs
          = filter (\<lambda>y. f y \<in> set (take k (map f (filter P xs)))) xs"
        using d(2) by (intro filter_cong) (auto simp: image_iff)
      with True Suc Cons.IH [OF d(1), of k] show ?thesis by simp
    qed simp
  next
    case False
    with Cons.IH [OF d(1), of n] later [of n] show ?thesis by simp
  qed
qed simp

end
