(* ===== verification/Worker.thy ===== *)
theory Worker
  imports Prelude
begin

text \<open>
  The in-process worker pool, \<^verbatim>\<open>internal/worker/worker.go\<close>.

  A pool is a buffered channel, a closed flag and one local batch per worker goroutine.  The
  goroutines, the callers of \<open>Enqueue\<close> and the caller of \<open>Shutdown\<close> interleave, so
  the pool is a step relation \<open>pool_step\<close>: one rule per atomic action (an enqueue under the
  read lock, one iteration of a worker's \<open>select\<close>, the guarded close).  The field
  \<open>flushes\<close> records the calls of \<open>flushFn\<close> in order, and \<open>accepted\<close> is a
  history variable: the payloads for which \<open>Enqueue\<close> returned nil.

  The lemmas show that no payload is lost or duplicated, that batches and the buffer keep their
  bounds, that a closed pool always drains and that a returning \<open>Shutdown\<close> has flushed
  everything that was ever accepted.
\<close>

subsection \<open>State and operations\<close>

datatype worker_error = ErrChannelFull

record Config =
  WorkerCount :: int
  BatchSize :: int
  FlushIntervalMs :: int
  ChannelCap :: int

datatype 'p goroutine = Running "'p list" | Exited

record 'p Pool =
  ch :: "'p list"
  closed :: bool
  workers :: "'p goroutine list"
  flushes :: "'p list list"
  accepted :: "'p list"

text \<open>
  \<open>New\<close> panics (\<open>None\<close>) for a negative channel capacity; a started worker panics for
  a negative batch capacity and for a ticker interval that is not positive, the interval being
  \<open>time.Duration(FlushIntervalMs) * time.Millisecond\<close> in 64-bit arithmetic.
\<close>

definition New :: "Config \<Rightarrow> 'p Pool option" where
  "New cfg =
     (if ChannelCap cfg < 0 then None
      else if 0 < WorkerCount cfg
              \<and> (BatchSize cfg < 0 \<or> i64 (FlushIntervalMs cfg * 1000000) \<le> 0) then None
      else Some \<lparr>ch = [], closed = False,
                 workers = replicate (nat (WorkerCount cfg)) (Running []),
                 flushes = [], accepted = []\<rparr>)"

text \<open>\<open>Enqueue\<close> on a buffered channel: the \<open>select\<close> with a default never blocks.\<close>

definition Enqueue :: "Config \<Rightarrow> 'p \<Rightarrow> 'p Pool \<Rightarrow> worker_error option \<times> 'p Pool" where
  "Enqueue cfg payload p =
     (if closed p then (Some ErrChannelFull, p)
      else if int (length (ch p)) < ChannelCap cfg
           then (None, p\<lparr>ch := ch p @ [payload], accepted := accepted p @ [payload]\<rparr>)
      else (Some ErrChannelFull, p))"

text \<open>The critical section of \<open>Shutdown\<close> runs once; \<open>Shutdown\<close> returns when every
  worker has called \<open>wg.Done\<close>.\<close>

definition Shutdown :: "'p Pool \<Rightarrow> 'p Pool" where
  "Shutdown p = (if closed p then p else p\<lparr>closed := True\<rparr>)"

definition Shutdown_returned :: "'p Pool \<Rightarrow> bool" where
  "Shutdown_returned p \<longleftrightarrow> closed p \<and> (\<forall>w \<in> set (workers p). w = Exited)"

definition doFlush :: "'p list \<Rightarrow> 'p Pool \<Rightarrow> 'p Pool" where
  "doFlush batch p = p\<lparr>flushes := flushes p @ [batch]\<rparr>"

text \<open>The three outcomes of one iteration of \<open>run\<close> for worker \<open>i\<close> with the local
  batch \<open>batch\<close>: an item was received, the channel is closed and drained, the ticker fired.\<close>

definition run_item :: "Config \<Rightarrow> nat \<Rightarrow> 'p list \<Rightarrow> 'p \<Rightarrow> 'p Pool \<Rightarrow> 'p Pool" where
  "run_item cfg i batch item p =
     (let batch' = batch @ [item] in
      if BatchSize cfg \<le> int (length batch')
      then (doFlush batch' p)\<lparr>workers := (workers p)[i := Running []]\<rparr>
      else p\<lparr>workers := (workers p)[i := Running batch']\<rparr>)"

definition run_closed :: "nat \<Rightarrow> 'p list \<Rightarrow> 'p Pool \<Rightarrow> 'p Pool" where
  "run_closed i batch p =
     (if 0 < length batch then doFlush batch p else p)\<lparr>workers := (workers p)[i := Exited]\<rparr>"

definition run_tick :: "nat \<Rightarrow> 'p list \<Rightarrow> 'p Pool \<Rightarrow> 'p Pool" where
  "run_tick i batch p =
     (if 0 < length batch
      then (doFlush batch p)\<lparr>workers := (workers p)[i := Running []]\<rparr> else p)"

text \<open>
  All interleavings.  Rule \<open>handoff\<close> is the send on an unbuffered channel
  (\<open>ChannelCap = 0\<close>), which succeeds exactly when a worker is waiting in its \<open>select\<close>
  and gives it the item directly.
\<close>

inductive pool_step :: "Config \<Rightarrow> 'p Pool \<Rightarrow> 'p Pool \<Rightarrow> bool" for cfg where
  enqueue: "pool_step cfg p (snd (Enqueue cfg x p))"
| handoff: "ChannelCap cfg = 0 \<Longrightarrow> \<not> closed p \<Longrightarrow> i < length (workers p) \<Longrightarrow>
    workers p ! i = Running b \<Longrightarrow>
    pool_step cfg p (run_item cfg i b x (p\<lparr>accepted := accepted p @ [x]\<rparr>))"
| shutdown: "pool_step cfg p (Shutdown p)"
| receive: "i < length (workers p) \<Longrightarrow> workers p ! i = Running b \<Longrightarrow> ch p = x # xs \<Longrightarrow>
    pool_step cfg p (run_item cfg i b x (p\<lparr>ch := xs\<rparr>))"
| drained: "i < length (workers p) \<Longrightarrow> workers p ! i = Running b \<Longrightarrow> ch p = [] \<Longrightarrow> closed p \<Longrightarrow>
    pool_step cfg p (run_closed i b p)"
| tick: "i < length (workers p) \<Longrightarrow> workers p ! i = Running b \<Longrightarrow>
    pool_step cfg p (run_tick i b p)"

inductive pool_reach :: "Config \<Rightarrow> 'p Pool \<Rightarrow> bool" for cfg where
  reach_new: "New cfg = Some p \<Longrightarrow> pool_reach cfg p"
| reach_step: "pool_reach cfg p \<Longrightarrow> pool_step cfg p q \<Longrightarrow> pool_reach cfg q"

fun local_batch :: "'p goroutine \<Rightarrow> 'p list" where
  "local_batch (Running b) = b"
| "local_batch Exited = []"

lemmas worker_ops = run_item_def run_closed_def run_tick_def doFlush_def Let_def

subsection \<open>The invariant\<close>

definition held :: "'p Pool \<Rightarrow> 'p multiset" where
  "held p = mset (ch p) + (\<Sum>w\<leftarrow>workers p. mset (local_batch w)) + (\<Sum>b\<leftarrow>flushes p. mset b)"

definition max_batch :: "Config \<Rightarrow> int" where
  "max_batch cfg = max 1 (BatchSize cfg)"

definition pool_inv :: "Config \<Rightarrow> 'p Pool \<Rightarrow> bool" where
  "pool_inv cfg p \<longleftrightarrow>
     held p = mset (accepted p)
   \<and> int (length (ch p)) \<le> ChannelCap cfg
   \<and> (\<forall>w \<in> set (workers p). int (length (local_batch w)) < max_batch cfg)
   \<and> (\<forall>b \<in> set (flushes p). b \<noteq> [] \<and> int (length b) \<le> max_batch cfg)
   \<and> (Exited \<in> set (workers p) \<longrightarrow> closed p \<and> ch p = [])
   \<and> length (workers p) = nat (WorkerCount cfg)"

lemma sum_list_replicate_empty [simp]: "sum_list (replicate n {#}) = {#}"
  by (induction n) auto

lemma pool_inv_new: "New cfg = Some p \<Longrightarrow> pool_inv cfg p"
  by (auto simp: New_def pool_inv_def held_def max_batch_def split: if_splits)

lemma held_update:
  assumes "i < length ws" and "ws ! i = Running b"
  shows "(\<Sum>w\<leftarrow>ws[i := v]. mset (local_batch w)) + mset b
       = (\<Sum>w\<leftarrow>ws. mset (local_batch w)) + mset (local_batch v)"
  using sum_mset_list_update [OF assms(1), of "mset \<circ> local_batch" v] assms(2) by simp

lemma running_batch_bound:
  assumes "pool_inv cfg p" and "i < length (workers p)" and "workers p ! i = Running b"
  shows "int (length b) < max_batch cfg"
  using assms nth_mem [OF assms(2)] unfolding pool_inv_def by fastforce

lemma held_run_item:
  assumes "i < length (workers p)" and "workers p ! i = Running b"
  shows "held (run_item cfg i b x p) = add_mset x (held p)"
  using held_update [OF assms, of "Running []"] held_update [OF assms, of "Running (b @ [x])"]
  by (auto simp: held_def worker_ops ac_simps)

lemma held_run_closed:
  assumes "i < length (workers p)" and "workers p ! i = Running b"
  shows "held (run_closed i b p) = held p"
  using held_update [OF assms, of Exited] by (auto simp: held_def worker_ops ac_simps)

lemma held_run_tick:
  assumes "i < length (workers p)" and "workers p ! i = Running b"
  shows "held (run_tick i b p) = held p"
  using held_update [OF assms, of "Running []"] by (auto simp: held_def worker_ops ac_simps)

lemma pool_inv_run_item:
  assumes inv: "pool_inv cfg p" and i: "i < length (workers p)" "workers p ! i = Running b"
    and q: "add_mset x (held q) = mset (accepted q)" "length (ch q) \<le> length (ch p)" "workers q = workers p" "flushes q = flushes p"
      "closed q = closed p" "ch p = [] \<longrightarrow> ch q = []"
  shows "pool_inv cfg (run_item cfg i b x q)"
proof -
  have b: "int (length b) < max_batch cfg" by (rule running_batch_bound [OF inv i])
  have "held (run_item cfg i b x q) = mset (accepted (run_item cfg i b x q))"
    using held_run_item [of i q b cfg x] i q(1,3) by (auto simp: worker_ops)
  moreover have "1 \<le> max_batch cfg" and "BatchSize cfg \<le> max_batch cfg"
    by (simp_all add: max_batch_def)
  ultimately show ?thesis using inv b q i
    unfolding pool_inv_def
    by (auto simp: worker_ops max_batch_def dest!: set_list_updateD)
qed

lemma pool_inv_step: "pool_step cfg p q \<Longrightarrow> pool_inv cfg p \<Longrightarrow> pool_inv cfg q"
proof (induction rule: pool_step.induct)
  case (enqueue p x)
  then show ?case by (auto simp: Enqueue_def pool_inv_def held_def)
next
  case (handoff p i b x)
  then show ?case
    by (intro pool_inv_run_item [of cfg p]) (auto simp: pool_inv_def held_def)
next
  case (shutdown p)
  then show ?case by (auto simp: Shutdown_def pool_inv_def held_def)
next
  case (receive i p b x xs)
  then show ?case
    by (intro pool_inv_run_item [of cfg p]) (auto simp: pool_inv_def held_def)
next
  case (drained i p b)
  note b = running_batch_bound [OF drained.prems drained.hyps(1,2)]
  from drained b held_run_closed [OF drained.hyps(1,2)] show ?case
    by (auto simp: pool_inv_def worker_ops max_batch_def dest!: set_list_updateD)
next
  case (tick i p b)
  note b = running_batch_bound [OF tick.prems tick.hyps]
  from tick b held_run_tick [OF tick.hyps] show ?case
    by (auto simp: pool_inv_def worker_ops max_batch_def dest!: set_list_updateD)
qed

lemma pool_reach_inv: "pool_reach cfg p \<Longrightarrow> pool_inv cfg p"
  by (induction rule: pool_reach.induct) (auto intro: pool_inv_new pool_inv_step)

subsection \<open>Draining after \<open>Shutdown\<close>\<close>

fun goroutine_work :: "'p goroutine \<Rightarrow> nat" where
  "goroutine_work (Running b) = (if b = [] then 1 else 2)"
| "goroutine_work Exited = 0"

definition drain_work :: "'p Pool \<Rightarrow> nat" where
  "drain_work p = 2 * length (ch p) + (\<Sum>w\<leftarrow>workers p. goroutine_work w)"

lemma drain_work_update:
  assumes "i < length ws" and "ws ! i = Running b"
  shows "(\<Sum>w\<leftarrow>ws[i := v]. goroutine_work w) + goroutine_work (Running b)
       = (\<Sum>w\<leftarrow>ws. goroutine_work w) + goroutine_work v"
  using sum_nat_list_update [OF assms(1), of goroutine_work v] assms(2) by simp

lemma drain_work_run_item:
  assumes "i < length (workers p)" and "workers p ! i = Running b"
  shows "drain_work (run_item cfg i b x p) \<le> Suc (drain_work p)"
  using drain_work_update [OF assms, of "Running []"]
    drain_work_update [OF assms, of "Running (b @ [x])"]
  by (auto simp: drain_work_def worker_ops split: if_splits)

lemma drain_work_run_closed:
  assumes "i < length (workers p)" and "workers p ! i = Running b"
  shows "drain_work (run_closed i b p) < drain_work p"
  using drain_work_update [OF assms, of Exited]
  by (auto simp: drain_work_def worker_ops split: if_splits)

lemma drain_work_run_tick:
  assumes "i < length (workers p)" and "workers p ! i = Running b"
  shows "run_tick i b p = p \<or> drain_work (run_tick i b p) < drain_work p"
  using drain_work_update [OF assms, of "Running []"]
  by (auto simp: drain_work_def worker_ops split: if_splits)

lemma closed_step:
  assumes "pool_step cfg p q" and "closed p"
  shows "closed q \<and> accepted q = accepted p \<and> (q = p \<or> drain_work q < drain_work p)"
  using assms
proof (induction rule: pool_step.induct)
  case (receive i p b x xs)
  have "drain_work (run_item cfg i b x (p\<lparr>ch := xs\<rparr>)) < drain_work p"
    using drain_work_run_item [of i "p\<lparr>ch := xs\<rparr>" b cfg x] receive
    by (auto simp: drain_work_def)
  with receive show ?case by (auto simp: worker_ops)
next
  case (drained i p b)
  with drain_work_run_closed [of i p b] show ?case by (auto simp: worker_ops)
next
  case (tick i p b)
  with drain_work_run_tick [of i p b] show ?case by (auto simp: worker_ops)
qed (auto simp: Enqueue_def Shutdown_def)

lemma closed_progress:
  assumes "closed p" and "\<not> Shutdown_returned p"
  shows "\<exists>q. pool_step cfg p q \<and> drain_work q < drain_work p"
proof -
  obtain i where i: "i < length (workers p)" "workers p ! i \<noteq> Exited"
    using assms by (auto simp: Shutdown_returned_def in_set_conv_nth)
  then obtain b where b: "workers p ! i = Running b" by (cases "workers p ! i") auto
  show ?thesis
  proof (cases "ch p")
    case Nil
    with i(1) b assms(1) show ?thesis
      by (meson drain_work_run_closed pool_step.drained)
  next
    case (Cons x xs)
    have "drain_work (run_item cfg i b x (p\<lparr>ch := xs\<rparr>)) < drain_work p"
      using drain_work_run_item [of i "p\<lparr>ch := xs\<rparr>" b cfg x] i b Cons
      by (auto simp: drain_work_def)
    moreover have "pool_step cfg p (run_item cfg i b x (p\<lparr>ch := xs\<rparr>))"
      using i(1) b Cons by (rule pool_step.receive)
    ultimately show ?thesis by blast
  qed
qed

lemma closed_drains:
  assumes "closed p"
  shows "\<exists>q. (pool_step cfg)\<^sup>*\<^sup>* p q \<and> Shutdown_returned q \<and> accepted q = accepted p"
  using assms
proof (induction "drain_work p" arbitrary: p rule: less_induct)
  case less
  show ?case
  proof (cases "Shutdown_returned p")
    case True
    then show ?thesis by blast
  next
    case False
    with less.prems obtain q where q: "pool_step cfg p q" "drain_work q < drain_work p"
      using closed_progress by blast
    then have "closed q" "accepted q = accepted p"
      using closed_step less.prems by auto
    with less.hyps [OF q(2)] obtain r where
      "(pool_step cfg)\<^sup>*\<^sup>* q r" "Shutdown_returned r" "accepted r = accepted p" by auto
    with q(1) show ?thesis by (meson converse_rtranclp_into_rtranclp)
  qed
qed

lemma returned_flushed:
  assumes inv: "pool_inv cfg p" and "0 < WorkerCount cfg" and "Shutdown_returned p"
  shows "mset (concat (flushes p)) = mset (accepted p)"
proof -
  from assms have all: "\<forall>w \<in> set (workers p). w = Exited" and "workers p \<noteq> []"
    by (auto simp: Shutdown_returned_def pool_inv_def)
  then have "ch p = []" using inv by (cases "workers p") (auto simp: pool_inv_def)
  moreover have "(\<Sum>w\<leftarrow>workers p. mset (local_batch w)) = {#}"
    using all by (auto intro!: sum_list_empty)
  moreover have "(\<Sum>b\<leftarrow>flushes p. mset b) = mset (concat (flushes p))"
    by (simp add: mset_concat)
  ultimately show ?thesis using inv by (simp add: pool_inv_def held_def)
qed

lemma pool_reach_steps: "(pool_step cfg)\<^sup>*\<^sup>* p q \<Longrightarrow> pool_reach cfg p \<Longrightarrow> pool_reach cfg q"
  by (induction rule: rtranclp_induct) (auto intro: reach_step)

subsection \<open>One worker: order is preserved\<close>

definition pipeline :: "'p Pool \<Rightarrow> 'p list" where
  "pipeline p = concat (flushes p) @ concat (map local_batch (workers p)) @ ch p"

lemma pipeline_step:
  assumes "pool_step cfg p q" and "pool_inv cfg p" and "length (workers p) = 1"
    and "pipeline p = accepted p"
  shows "pipeline q = accepted q"
  using assms
proof (induction rule: pool_step.induct)
  case (enqueue p x)
  then show ?case by (auto simp: Enqueue_def pipeline_def)
next
  case (shutdown p)
  then show ?case by (auto simp: Shutdown_def pipeline_def)
next
  case (handoff p i b x)
  then have "ch p = []" by (auto simp: pool_inv_def)
  with handoff show ?case
    by (auto simp: pipeline_def worker_ops length_Suc_conv)
next
  case (receive i p b x xs)
  then show ?case by (auto simp: pipeline_def worker_ops length_Suc_conv)
next
  case (drained i p b)
  then show ?case by (auto simp: pipeline_def worker_ops length_Suc_conv)
next
  case (tick i p b)
  then show ?case by (auto simp: pipeline_def worker_ops length_Suc_conv)
qed

lemma pool_reach_pipeline:
  assumes "pool_reach cfg p" and "WorkerCount cfg = 1"
  shows "pipeline p = accepted p"
  using assms
proof (induction rule: pool_reach.induct)
  case (reach_new p)
  then show ?case by (auto simp: New_def pipeline_def split: if_splits)
next
  case (reach_step p q)
  moreover have "pool_inv cfg p" using reach_step.hyps(1) by (rule pool_reach_inv)
  moreover from this reach_step.prems have "length (workers p) = 1" by (simp add: pool_inv_def)
  ultimately show ?case by (blast intro: pipeline_step)
qed

subsection \<open>The interface the HTTP handlers rely on\<close>

text \<open>
  \<open>handler.EnqueueFn\<close>: a call either fails and changes nothing the pipeline will ever
  flush, or succeeds and takes over exactly the given payload.
\<close>

locale enqueue_fn =
  fixes enq :: "'p \<Rightarrow> 's \<Rightarrow> worker_error option \<times> 's"
    and taken :: "'s \<Rightarrow> 'p list"
  assumes enq_ok: "enq x s = (None, s') \<Longrightarrow> taken s' = taken s @ [x]"
    and enq_err: "enq x s = (Some e, s') \<Longrightarrow> s' = s"
begin

lemma taken_iff: "taken (snd (enq x s)) = taken s @ [x] \<longleftrightarrow> fst (enq x s) = None"
proof (cases "enq x s")
  case (Pair r s')
  then show ?thesis by (cases r) (auto dest: enq_ok enq_err)
qed

end

interpretation pool_enq: enqueue_fn "Enqueue cfg" accepted for cfg
  by unfold_locales (auto simp: Enqueue_def split: if_splits)

subsection \<open>Properties\<close>

definition sample_cfg :: Config where
  "sample_cfg = \<lparr>WorkerCount = 1, BatchSize = 2, FlushIntervalMs = 100, ChannelCap = 8\<rparr>"

definition sample_pool :: "nat Pool" where
  "sample_pool = \<lparr>ch = [7], closed = False, workers = [Running []], flushes = [], accepted = [7]\<rparr>"

lemma sample_pool_reach: "pool_reach sample_cfg sample_pool"
proof -
  let ?p = "\<lparr>ch = [], closed = False, workers = [Running []], flushes = [], accepted = []\<rparr> :: nat Pool"
  have "New sample_cfg = Some ?p" by (simp add: New_def sample_cfg_def i64_def)
  then have "pool_reach sample_cfg (snd (Enqueue sample_cfg 7 ?p))"
    by (meson pool_reach.intros pool_step.enqueue)
  then show ?thesis by (simp add: Enqueue_def sample_cfg_def sample_pool_def)
qed

text \<open>(C3) Nothing is lost and nothing is duplicated: in every reachable state of the pool, under
  every interleaving of enqueuers, workers, ticks and shutdown, the accepted payloads are, as a
  multiset, exactly those in the channel, in the workers' local batches and in the flushed
  batches; and once \<open>Shutdown\<close> has returned they have all been flushed.\<close>
theorem pool_conservation:
  assumes "pool_reach cfg p"
  shows "mset (accepted p)
           = mset (ch p) + (\<Sum>w\<leftarrow>workers p. mset (local_batch w)) + (\<Sum>b\<leftarrow>flushes p. mset b)
         \<and> (0 < WorkerCount cfg \<and> Shutdown_returned p
              \<longrightarrow> mset (concat (flushes p)) = mset (accepted p))"
  using pool_reach_inv [OF assms] returned_flushed by (auto simp: pool_inv_def held_def)

theorem pool_conservation_witness:
  "mset (accepted sample_pool)
     = mset (ch sample_pool) + (\<Sum>w\<leftarrow>workers sample_pool. mset (local_batch w))
       + (\<Sum>b\<leftarrow>flushes sample_pool. mset b)"
  using pool_conservation [OF sample_pool_reach] by blast

text \<open>A closed pool always drains: from every reachable state in which \<open>Shutdown\<close> has
  closed the channel, every step that changes the state makes the remaining work smaller (so no
  schedule can go on for ever), some such step is possible until \<open>Shutdown\<close> returns, and
  there is a run after which it has returned and every accepted payload has been flushed.\<close>
theorem shutdown_drains:
  assumes "pool_reach cfg p" and "closed p" and "0 < WorkerCount cfg"
  shows "(\<forall>q. pool_step cfg p q \<and> q \<noteq> p \<longrightarrow> drain_work q < drain_work p)
       \<and> (Shutdown_returned p \<or> (\<exists>q. pool_step cfg p q \<and> drain_work q < drain_work p))
       \<and> (\<exists>q. (pool_step cfg)\<^sup>*\<^sup>* p q \<and> Shutdown_returned q
               \<and> mset (concat (flushes q)) = mset (accepted p))"
proof -
  obtain q where q: "(pool_step cfg)\<^sup>*\<^sup>* p q" "Shutdown_returned q" "accepted q = accepted p"
    using closed_drains [OF assms(2)] by blast
  then have "mset (concat (flushes q)) = mset (accepted p)"
    using returned_flushed [OF pool_reach_inv [OF pool_reach_steps [OF q(1) assms(1)]] assms(3)] by simp
  with q show ?thesis using closed_step closed_progress assms(2) by blast
qed

theorem shutdown_drains_witness:
  "\<exists>q. (pool_step sample_cfg)\<^sup>*\<^sup>* (Shutdown sample_pool) q \<and> Shutdown_returned q
      \<and> mset (concat (flushes q)) = {#7#}"
proof -
  have "pool_reach sample_cfg (Shutdown sample_pool)"
    using sample_pool_reach pool_step.shutdown by (rule reach_step)
  from shutdown_drains [OF this] show ?thesis
    by (simp add: Shutdown_def sample_pool_def sample_cfg_def)
qed

text \<open>Bounds: in every reachable state the channel holds at most \<open>ChannelCap\<close> payloads,
  every call of \<open>flushFn\<close> gets a non-empty batch of at most \<open>max 1 BatchSize\<close>
  payloads, and a batch a worker still accumulates is smaller than that.\<close>
theorem pool_bounds:
  assumes "pool_reach cfg p"
  shows "int (length (ch p)) \<le> ChannelCap cfg
       \<and> (\<forall>b \<in> set (flushes p). b \<noteq> [] \<and> int (length b) \<le> max 1 (BatchSize cfg))
       \<and> (\<forall>w \<in> set (workers p). int (length (local_batch w)) < max 1 (BatchSize cfg))"
  using pool_reach_inv [OF assms] by (simp add: pool_inv_def max_batch_def)

theorem pool_bounds_witness:
  "int (length (ch sample_pool)) \<le> ChannelCap sample_cfg"
  using pool_bounds [OF sample_pool_reach] by blast

text \<open>With a single worker the pool is a FIFO pipeline: the flushed batches, then the local
  batch, then the channel spell out the accepted payloads in the order they were accepted.\<close>
theorem single_worker_fifo:
  assumes "pool_reach cfg p" and "WorkerCount cfg = 1"
  shows "concat (flushes p) @ concat (map local_batch (workers p)) @ ch p = accepted p"
  using pool_reach_pipeline [OF assms] by (simp add: pipeline_def)

theorem single_worker_fifo_witness:
  "concat (flushes sample_pool) @ concat (map local_batch (workers sample_pool)) @ ch sample_pool
     = accepted sample_pool"
  using single_worker_fifo [OF sample_pool_reach] by (simp add: sample_cfg_def)

end
