(* ===== verification/GoFloat.thy ===== *)
theory GoFloat
  imports Complex_Main Prelude
begin

text \<open>
  Floating point, as Go's \<open>float64\<close> and \<open>float32\<close>: a finite float is a rational, and
  every arithmetic operation is the exact rational operation followed by IEEE 754 rounding to
  nearest, ties to even (\<open>f64\<close>, \<open>f32\<close>, with subnormals).  Infinities and NaN are not
  modelled: JSON cannot carry them, and the results about the program assume inputs for which no
  operation overflows only in the sense that an overflowing value keeps its rounded magnitude
  instead of becoming infinite.  Fused multiply-add, which Go allows on some architectures, is
  not used (it is not on amd64).

  The locale \<open>rounding\<close> is what the program's reasoning relies on (rounding is monotone,
  idempotent and odd); both formats are interpreted on it.
\<close>

subsection \<open>Exponents\<close>

function blen :: "int \<Rightarrow> nat" where
  "blen n = (if n \<le> 0 then 0 else Suc (blen (n div 2)))"
  by pat_completeness auto
termination
  by (relation "measure nat") auto

declare blen.simps [simp del]

lemma blen_bounds: "0 < n \<Longrightarrow> 2 ^ (blen n - 1) \<le> n \<and> n < 2 ^ blen n"
proof (induction n rule: blen.induct)
  case (1 n)
  show ?case
  proof (cases "n div 2 \<le> 0")
    case True
    with 1 have "n = 1" by simp
    then show ?thesis by (simp add: blen.simps)
  next
    case False
    with 1 have IH: "2 ^ (blen (n div 2) - 1) \<le> n div 2 \<and> n div 2 < 2 ^ blen (n div 2)" by simp
    from False have "0 < blen (n div 2)" by (subst blen.simps) simp
    then obtain k where k: "blen (n div 2) = Suc k" by (cases "blen (n div 2)") auto
    from 1 have "blen n = Suc (Suc k)" by (subst blen.simps) (simp add: k)
    moreover from IH k have "2 ^ k \<le> n div 2" "n div 2 < 2 * 2 ^ k" by simp_all
    then have "2 * 2 ^ k \<le> n" "n < 4 * 2 ^ k" by linarith+
    ultimately show ?thesis by simp
  qed
qed

definition expo :: "rat \<Rightarrow> int" where
  "expo x =
     (let (n, d) = quotient_of x; k = int (blen n) - int (blen d)
      in if 2 powi k \<le> x then k else k - 1)"

lemma powi_nat: "0 \<le> k \<Longrightarrow> (2::rat) powi k = of_int (2 ^ nat k)"
  by (simp add: power_int_def)

lemma powi_pos [simp]: "0 < (2::rat) powi k"
  by simp

lemma powi_less: "j < k \<Longrightarrow> (2::rat) powi j < 2 powi k"
  by (rule power_int_strict_increasing) simp_all

lemma powi_le: "j \<le> k \<Longrightarrow> (2::rat) powi j \<le> 2 powi k"
  by (rule power_int_increasing) simp_all

lemma powi_add: "(2::rat) powi (j + k) = 2 powi j * 2 powi k"
  by (rule power_int_add) simp

lemma powi_div: "(2::rat) powi j / 2 powi k = 2 powi (j - k)"
  by (simp add: power_int_diff)

lemma expo_bounds:
  assumes "0 < x"
  shows "2 powi expo x \<le> x \<and> x < 2 powi (expo x + 1)"
proof -
  obtain n d where nd: "quotient_of x = (n, d)" by (cases "quotient_of x")
  have d: "0 < d" and x: "x = of_int n / of_int d"
    using quotient_of_denom_pos [OF nd] quotient_of_div [OF nd] by auto
  with assms have n: "0 < n" by (simp add: zero_less_divide_iff)
  let ?a = "blen n" and ?b = "blen d"
  have bn: "2 ^ (?a - 1) \<le> n" "n < 2 ^ ?a" and bd: "2 ^ (?b - 1) \<le> d" "d < 2 ^ ?b"
    using blen_bounds [of n] blen_bounds [of d] n d by auto
  have pos: "0 < ?a" "0 < ?b" using bn(2) bd(2) n d by (auto intro!: gr0I)
  have pw: "(2::rat) powi (int k) = of_int (2 ^ k)" for k :: nat by (simp add: power_int_def)
  have n1: "2 powi (int ?a - 1) \<le> (of_int n :: rat)"
    using bn(1) pw [of "?a - 1"] pos by (simp only: of_int_le_iff of_nat_diff) (simp add: of_nat_diff)
  have n2: "(of_int n :: rat) < 2 powi int ?a"
    unfolding pw using bn(2) by (simp only: of_int_less_iff)
  have d1: "2 powi (int ?b - 1) \<le> (of_int d :: rat)"
    using bd(1) pw [of "?b - 1"] pos by (simp only: of_int_le_iff of_nat_diff) (simp add: of_nat_diff)
  have d2: "(of_int d :: rat) < 2 powi int ?b"
    unfolding pw using bd(2) by (simp only: of_int_less_iff)
  have dpos: "(0::rat) < of_int d" using d by simp
  let ?k = "int ?a - int ?b"
  have "(2::rat) powi (?k - 1) * of_int d \<le> 2 powi (?k - 1) * 2 powi int ?b"
    using d2 by (intro mult_left_mono) auto
  also have "\<dots> = 2 powi (int ?a - 1)" unfolding powi_add [symmetric] by simp
  also note n1
  finally have lo: "2 powi (?k - 1) \<le> x" using dpos by (simp add: x field_simps)
  have "(of_int n :: rat) < 2 powi int ?a" by (rule n2)
  also have "\<dots> = 2 powi (?k + 1) * 2 powi (int ?b - 1)" unfolding powi_add [symmetric] by simp
  also have "\<dots> \<le> 2 powi (?k + 1) * of_int d" using d1 by (intro mult_left_mono) auto
  finally have hi: "x < 2 powi (?k + 1)" using dpos by (simp add: x field_simps)
  from lo hi show ?thesis by (simp add: expo_def nd Let_def not_le)
qed

lemma expo_less: "0 < x \<Longrightarrow> x < 2 powi k \<Longrightarrow> expo x < k"
  using expo_bounds [of x] powi_le [of k "expo x"] by (meson leI not_le order_trans)

lemma expo_ge: "0 < x \<Longrightarrow> 2 powi k \<le> x \<Longrightarrow> k \<le> expo x"
  using expo_bounds [of x] powi_le [of "expo x + 1" k]
  by (metis add1_zle_eq leI not_le order_trans)

lemma expo_mono: "0 < x \<Longrightarrow> x \<le> y \<Longrightarrow> expo x \<le> expo y"
  using expo_bounds [of x] by (intro expo_ge) auto

subsection \<open>Rounding to the nearest integer, ties to even\<close>

definition rne :: "rat \<Rightarrow> int" where
  "rne x = (let f = \<lfloor>x\<rfloor>; d = x - of_int f in
            if d < 1 / 2 then f else if 1 / 2 < d then f + 1 else if even f then f else f + 1)"

lemma rne_of_int [simp]: "rne (of_int n) = n"
  by (simp add: rne_def)

lemma rne_bounds: "\<lfloor>x\<rfloor> \<le> rne x \<and> rne x \<le> \<lfloor>x\<rfloor> + 1"
  by (simp add: rne_def Let_def)

lemma rne_mono: "x \<le> y \<Longrightarrow> rne x \<le> rne y"
proof (cases "\<lfloor>x\<rfloor> = \<lfloor>y\<rfloor>")
  case True
  assume "x \<le> y"
  with True show ?thesis by (auto simp: rne_def Let_def)
next
  case False
  assume "x \<le> y"
  with False have "\<lfloor>x\<rfloor> + 1 \<le> \<lfloor>y\<rfloor>" using floor_mono [of x y] by linarith
  then show ?thesis using rne_bounds [of x] rne_bounds [of y] by linarith
qed

lemma rne_minus: "rne (- x) = - rne x"
proof (cases "x = of_int \<lfloor>x\<rfloor>")
  case True
  then show ?thesis by (metis of_int_minus rne_of_int)
next
  case False
  then have fl: "\<lfloor>- x\<rfloor> = - \<lfloor>x\<rfloor> - 1"
    by (simp add: floor_minus ceiling_altdef)
  show ?thesis unfolding rne_def Let_def fl by auto
qed

subsection \<open>Rounding to a floating point format\<close>

definition fround :: "int \<Rightarrow> int \<Rightarrow> rat \<Rightarrow> rat" where
  "fround p emin x =
     (if x = 0 then 0
      else let e = max (expo \<bar>x\<bar> - (p - 1)) emin in of_int (rne (x / 2 powi e)) * 2 powi e)"

definition f64 :: "rat \<Rightarrow> rat" where
  "f64 = fround 53 (- 1074)"

definition f32 :: "rat \<Rightarrow> rat" where
  "f32 = fround 24 (- 149)"

lemma fround_minus: "fround p emin (- x) = - fround p emin x"
  by (simp add: fround_def Let_def rne_minus)

lemma fround_exact:
  assumes "1 \<le> p" and "emin \<le> e" and "\<bar>of_int m\<bar> \<le> (2::rat) powi p"
  shows "fround p emin (of_int m * 2 powi e) = of_int m * 2 powi e"
proof (cases "m = 0")
  case False
  let ?y = "of_int m * (2::rat) powi e"
  let ?k = "max (expo \<bar>?y\<bar> - (p - 1)) emin"
  have y: "0 < \<bar>?y\<bar>" using False by simp
  have "\<exists>n. ?y / 2 powi ?k = of_int n"
  proof (cases "?k \<le> e")
    case True
    then have "?y / 2 powi ?k = of_int (m * 2 ^ nat (e - ?k))"
      using powi_div [of e ?k] powi_nat [of "e - ?k"] by (simp add: field_simps)
    then show ?thesis by blast
  next
    case nle: False
    have "\<bar>of_int m\<bar> * 2 powi e \<le> (2::rat) powi p * 2 powi e"
      by (rule mult_right_mono) (use assms(3) in auto)
    then have le: "\<bar>?y\<bar> \<le> 2 powi (p + e)" by (simp add: abs_mult powi_add)
    from nle assms(2) have "e + p \<le> expo \<bar>?y\<bar>" by linarith
    then have "2 powi (p + e) \<le> \<bar>?y\<bar>"
      using expo_bounds [OF y] powi_le [of "e + p" "expo \<bar>?y\<bar>"] by (simp add: add.commute)
    with le have eq: "\<bar>?y\<bar> = 2 powi (p + e)" by (rule antisym)
    then have "\<not> p + e < expo \<bar>?y\<bar>"
      using expo_bounds [OF y] powi_less [of "p + e" "expo \<bar>?y\<bar>"] by linarith
    with \<open>e + p \<le> expo \<bar>?y\<bar>\<close> have "expo \<bar>?y\<bar> = p + e" by linarith
    with nle assms(2) have k: "?k = e + 1" by linarith
    have "\<bar>of_int m\<bar> * 2 powi e = (2::rat) powi p * 2 powi e"
      using eq by (simp add: abs_mult powi_add)
    then have "\<bar>of_int m\<bar> = (2::rat) powi p" by simp
    also have "\<dots> = of_int (2 ^ nat p)" using powi_nat [of p] assms(1) by linarith
    finally have "\<bar>m\<bar> = 2 ^ nat p" by (metis of_int_abs of_int_eq_iff)
    moreover have "nat p = Suc (nat (p - 1))" using assms(1) by linarith
    ultimately have "even \<bar>m\<bar>" by simp
    then obtain j where j: "m = 2 * j" by auto
    have "?y / 2 powi ?k = of_int j" by (subst k) (simp add: j powi_add)
    then show ?thesis by blast
  qed
  then obtain n where "?y / 2 powi ?k = of_int n" by blast
  then have "of_int (rne (?y / 2 powi ?k)) * 2 powi ?k = ?y / 2 powi ?k * 2 powi ?k"
    by (simp only: rne_of_int)
  also have "\<dots> = ?y" by (rule nonzero_divide_eq_eq [THEN iffD1]) simp_all
  finally have "of_int (rne (?y / 2 powi ?k)) * 2 powi ?k = ?y" .
  with False show ?thesis by (simp add: fround_def Let_def)
qed (simp add: fround_def)

lemma scale_mono:
  "x \<le> y \<Longrightarrow> of_int (rne (x / 2 powi e)) * (2::rat) powi e \<le> of_int (rne (y / 2 powi e)) * 2 powi e"
  by (intro mult_right_mono) (simp_all add: rne_mono divide_right_mono)

lemma scale_power:
  assumes "e \<le> k"
  shows "of_int (rne (2 powi k / 2 powi e)) * (2::rat) powi e = 2 powi k"
proof -
  have eq: "(2::rat) powi k / 2 powi e = of_int (2 ^ nat (k - e))"
    using assms powi_div [of k e] powi_nat [of "k - e"] by simp
  have "of_int (rne (2 powi k / 2 powi e)) * (2::rat) powi e = 2 powi k / 2 powi e * 2 powi e"
    unfolding eq rne_of_int by simp
  then show ?thesis by simp
qed

lemma fround_pos:
  "0 < x \<Longrightarrow> fround p emin x
     = of_int (rne (x / 2 powi max (expo x - (p - 1)) emin)) * 2 powi max (expo x - (p - 1)) emin"
  by (simp add: fround_def Let_def)

lemma fround_nonneg: "0 \<le> x \<Longrightarrow> 0 \<le> fround p emin x"
  using scale_mono [of 0 x "max (expo x - (p - 1)) emin"] fround_pos [of x p emin] rne_of_int [of 0]
  by (cases "x = 0") (simp_all add: fround_def)

lemma fround_pos_mono:
  assumes p: "1 \<le> p" and x: "0 < x" and xy: "x \<le> y"
  shows "fround p emin x \<le> fround p emin y"
proof -
  define ex where "ex = max (expo x - (p - 1)) emin"
  define ey where "ey = max (expo y - (p - 1)) emin"
  have y: "0 < y" using x xy by linarith
  have ee: "expo x \<le> expo y" by (rule expo_mono [OF x xy])
  have fx: "fround p emin x = of_int (rne (x / 2 powi ex)) * 2 powi ex"
    and fy: "fround p emin y = of_int (rne (y / 2 powi ey)) * 2 powi ey"
    using fround_pos [OF x] fround_pos [OF y] by (simp_all add: ex_def ey_def)
  show ?thesis
  proof (cases "ex = ey")
    case True
    then show ?thesis unfolding fx fy using scale_mono [OF xy, of ey] by simp
  next
    case False
    with ee have lt: "ex < ey" and lx: "expo x < expo y" by (auto simp: ex_def ey_def)
    then have "ey \<le> expo y" "ex \<le> expo y" using p by (auto simp: ex_def ey_def)
    note B = scale_power [OF this(1)] scale_power [OF this(2)]
    have "x \<le> 2 powi expo y" "2 powi expo y \<le> y"
      using expo_bounds [OF x] expo_bounds [OF y] powi_le [of "expo x + 1" "expo y"] lx by auto
    then have "fround p emin x \<le> 2 powi expo y" "2 powi expo y \<le> fround p emin y"
      unfolding fx fy using scale_mono [of x "2 powi expo y" ex] scale_mono [of "2 powi expo y" y ey] B
      by simp_all
    then show ?thesis by (rule order_trans)
  qed
qed

lemma fround_mono:
  assumes "1 \<le> p" and "x \<le> y"
  shows "fround p emin x \<le> fround p emin y"
proof -
  consider "0 < x" | "x \<le> 0" "0 \<le> y" | "y < 0" by linarith
  then show ?thesis
  proof cases
    case 1
    then show ?thesis using assms by (intro fround_pos_mono)
  next
    case 2
    then have "0 \<le> fround p emin (- x)" "0 \<le> fround p emin y" by (simp_all add: fround_nonneg)
    then show ?thesis by (simp add: fround_minus)
  next
    case 3
    then have "fround p emin (- y) \<le> fround p emin (- x)"
      using assms by (intro fround_pos_mono) auto
    then show ?thesis by (simp add: fround_minus)
  qed
qed

lemma fround_idem:
  assumes p: "1 \<le> p"
  shows "fround p emin (fround p emin x) = fround p emin x"
proof -
  have pos: "fround p emin (fround p emin z) = fround p emin z" if z: "0 < z" for z
  proof -
    define e where "e = max (expo z - (p - 1)) emin"
    have fz: "fround p emin z = of_int (rne (z / 2 powi e)) * 2 powi e"
      using fround_pos [OF z] by (simp add: e_def)
    have "expo z + 1 \<le> p + e" by (simp add: e_def)
    then have "z / 2 powi e \<le> 2 powi (p + e) / 2 powi e"
      using expo_bounds [OF z] powi_le [of "expo z + 1" "p + e"]
      by (intro divide_right_mono) auto
    also have "\<dots> = of_int (2 ^ nat p)" using powi_nat [of p] p by (simp add: powi_add)
    finally have "rne (z / 2 powi e) \<le> 2 ^ nat p" using rne_mono rne_of_int by metis
    moreover have "0 \<le> rne (z / 2 powi e)" using rne_mono [of 0 "z / 2 powi e"] z rne_of_int [of 0] by simp
    ultimately have "\<bar>of_int (rne (z / 2 powi e))\<bar> \<le> (of_int (2 ^ nat p) :: rat)"
      by (simp only: of_int_abs [symmetric] of_int_le_iff abs_of_nonneg)
    then have "\<bar>of_int (rne (z / 2 powi e))\<bar> \<le> (2::rat) powi p" using powi_nat [of p] p by simp
    then show ?thesis unfolding fz using p by (intro fround_exact) (simp_all add: e_def)
  qed
  consider "0 < x" | "x = 0" | "0 < - x" by linarith
  then show ?thesis
  proof cases
    case 3
    then show ?thesis using pos [of "- x"] by (simp add: fround_minus)
  qed (simp_all add: pos, simp_all add: fround_def)
qed

subsection \<open>The interface of rounding\<close>

locale rounding =
  fixes rnd :: "rat \<Rightarrow> rat"
  assumes mono: "x \<le> y \<Longrightarrow> rnd x \<le> rnd y"
    and idem: "rnd (rnd x) = rnd x"
    and odd: "rnd (- x) = - rnd x"
begin

lemma zero [simp]: "rnd 0 = 0"
  using odd [of 0] by simp

lemma ge: "rnd c = c \<Longrightarrow> c \<le> x \<Longrightarrow> c \<le> rnd x"
  using mono [of c x] by simp

lemma le: "rnd c = c \<Longrightarrow> x \<le> c \<Longrightarrow> rnd x \<le> c"
  using mono [of x c] by simp

lemma nonneg: "0 \<le> x \<Longrightarrow> 0 \<le> rnd x"
  using ge [of 0 x] by simp

lemma nonpos: "x \<le> 0 \<Longrightarrow> rnd x \<le> 0"
  using le [of 0 x] by simp

end

interpretation f64: rounding f64
  by unfold_locales (simp_all add: f64_def fround_mono fround_idem fround_minus)

interpretation f32: rounding f32
  by unfold_locales (simp_all add: f32_def fround_mono fround_idem fround_minus)

lemma f64_int [simp]: "\<bar>n\<bar> \<le> 2 ^ 53 \<Longrightarrow> f64 (of_int n) = of_int n"
  using fround_exact [of 53 "- 1074" 0 n] by (simp add: f64_def power_int_def flip: of_int_abs)

lemma f64_numeral [simp]: "numeral n \<le> (2::int) ^ 53 \<Longrightarrow> f64 (numeral n) = numeral n"
  using f64_int [of "numeral n"] by simp

lemma f64_one [simp]: "f64 1 = 1"
  using f64_int [of 1] by simp

subsection \<open>Conversions\<close>

text \<open>
  \<open>int(f)\<close> and \<open>int32(f)\<close> truncate towards zero; out of range the result is
  implementation-specific in Go, and the value amd64 produces is the most negative integer.
  \<open>fmt_f1\<close> is the text of \<open>%.1f\<close>: the exact value rounded to one decimal, ties to
  even.
\<close>

definition ftrunc :: "rat \<Rightarrow> int" where
  "ftrunc x = (if 0 \<le> x then \<lfloor>x\<rfloor> else - \<lfloor>- x\<rfloor>)"

definition go_int :: "rat \<Rightarrow> int" where
  "go_int x = (if in_i64 (ftrunc x) then ftrunc x else - (2 ^ 63))"

definition go_int32 :: "rat \<Rightarrow> int" where
  "go_int32 x = (if in_i32 (ftrunc x) then ftrunc x else - (2 ^ 31))"

lemma go_int32_in [simp]: "in_i32 (go_int32 x)"
  by (simp add: go_int32_def in_i32_def)

lemma go_int_in [simp]: "in_i64 (go_int x)"
  by (simp add: go_int_def in_i64_def)

end
