(* ===== verification/Model.thy ===== *)
theory Model
  imports GoFloat
begin

text \<open>
  The data model, \<^verbatim>\<open>internal/model\<close>: the statistics snapshot and the ingest payload
  with the fields of the source, and JSON values as \<open>encoding/json\<close> decodes them into
  \<open>interface{}\<close> (every number is a \<open>float64\<close>).  \<open>JTime\<close> stands for a RFC 3339
  text by the instant it denotes.  Instants are nanoseconds since the Unix epoch.
\<close>

type_synonym instant = int

datatype jval =
    JNull | JBool bool | JNum rat | JInt int | JStr string | JTime instant
  | JArr "jval list" | JObj "(string \<times> jval) list"

record ICECandidateType =
  Local :: string
  Remote :: string
  Protocol :: string

record StatSnapshot =
  TS :: int
  EvConnectionID :: string
  RTTMs :: rat
  JitterMs :: rat
  PacketLossRate :: rat
  BitrateInKbps :: rat
  BitrateOutKbps :: rat
  PacketRateIn :: rat
  PacketRateOut :: rat
  AvailableBandwidthKbps :: rat
  NACKCountDelta :: int
  PLICountDelta :: int
  FIRCountDelta :: int
  RetransmittedPacketsDelta :: int
  TargetBitrateKbps :: rat
  AudioLevel :: rat
  LocalAudioLevel :: rat
  ConcealmentRatio :: rat
  FPS :: rat
  FrameWidth :: int
  FrameHeight :: int
  SendFPS :: rat
  SendFrameWidth :: int
  SendFrameHeight :: int
  FreezeCount :: int
  FreezeDurationMs :: rat
  FrameDropRate :: rat
  QualityLimitReason :: string
  IceCandidate :: "ICECandidateType option"

record IngestPayload =
  AppID :: string
  UserID :: string
  Source :: string
  ConferenceID :: string
  SessionID :: string
  ConnectionID :: string
  Events :: "StatSnapshot list"

text \<open>A snapshot with every field zero, as Go initialises one before decoding.\<close>

definition zero_snapshot :: StatSnapshot where
  "zero_snapshot =
     \<lparr>TS = 0, EvConnectionID = [], RTTMs = 0, JitterMs = 0, PacketLossRate = 0,
      BitrateInKbps = 0, BitrateOutKbps = 0, PacketRateIn = 0, PacketRateOut = 0,
      AvailableBandwidthKbps = 0, NACKCountDelta = 0, PLICountDelta = 0, FIRCountDelta = 0,
      RetransmittedPacketsDelta = 0, TargetBitrateKbps = 0, AudioLevel = 0, LocalAudioLevel = 0,
      ConcealmentRatio = 0, FPS = 0, FrameWidth = 0, FrameHeight = 0, SendFPS = 0,
      SendFrameWidth = 0, SendFrameHeight = 0, FreezeCount = 0, FreezeDurationMs = 0,
      FrameDropRate = 0, QualityLimitReason = [], IceCandidate = None\<rparr>"

end
