(* ===== verification/Database.thy ===== *)
theory Database
  imports Model
begin

text \<open>
  The part of the Postgres schema (\<^verbatim>\<open>migrations/*.up.sql\<close>) that the ingest side
  reads and writes, and the SQL idiom its upserts share.

  A table is a list of rows in insertion order; a \<open>bigserial\<close> column takes its values from
  the counter kept beside the table (values a sequence skips are not modelled).  External ids of
  sessions and connections are always set: the ingest path is the only writer of those tables.  The
  partitions of \<open>connection_stats\<close> are kept with the range of instants they accept, and
  so are those that were detached from it and not dropped.

  \<open>upsert\<close> is the statement
  \<^verbatim>\<open>WITH ins AS (INSERT .. ON CONFLICT DO NOTHING RETURNING id) SELECT id FROM ins UNION ALL
  SELECT id FROM t WHERE key = .. LIMIT 1\<close>.  It takes the table as its snapshot shows it and the
  table as it is committed: the conflict is decided on the latter, the second \<open>SELECT\<close> reads
  the former, and no row at all (\<open>None\<close>) is what pgx reports as \<open>ErrNoRows\<close>.
\<close>

subsection \<open>Rows\<close>

record app_row =
  app_id :: int
  app_org_id :: int
  retention_days :: int
  observation_config :: "jval option"
  server_api_key :: "string option"
  server_api_secret_enc :: "string option"
  app_name :: string
  app_api_key_hash :: string
  app_created_at :: instant
  app_server_key_created_at :: "instant option"

record conference_row =
  conf_id :: int
  conf_app_id :: int
  conf_external_id :: string
  conf_started_at :: instant
  conf_ended_at :: "instant option"
  conf_participant_count :: int

record participant_row =
  part_id :: int
  part_conference_id :: int
  part_user_id :: string
  part_joined_at :: instant
  part_display_name :: string
  part_left_at :: "instant option"

record session_row =
  sess_id :: int
  sess_participant_id :: int
  sess_external_id :: string
  sess_browser :: string
  sess_os :: string
  sess_country :: string
  sess_city :: string
  sess_network_type :: string

record connection_row =
  conn_id :: int
  conn_session_id :: int
  conn_external_id :: string
  conn_started_at :: instant
  conn_peer_id :: string
  conn_ended_at :: "instant option"
  conn_ice_state :: string
  conn_codec_audio :: string
  conn_codec_video :: string

record stats_row =
  cs_connection_id :: int
  cs_ts :: instant
  cs_source :: string
  cs_packets_lost_rate :: rat
  cs_jitter_ms :: rat
  cs_rtt_ms :: rat
  cs_bitrate_in_kbps :: int
  cs_bitrate_out_kbps :: int
  cs_ewma_packets_lost_rate :: rat
  cs_ewma_jitter_ms :: rat
  cs_ewma_rtt_ms :: rat
  cs_ewma_bitrate_in_kbps :: rat
  cs_ewma_bitrate_out_kbps :: rat
  cs_fps :: int
  cs_frame_width :: int
  cs_frame_height :: int
  cs_audio_level :: rat
  cs_concealment_ratio :: rat

record event_row =
  ev_id :: int
  ev_connection_id :: "int option"
  ev_session_id :: "int option"
  ev_ts :: instant
  ev_event_type :: string
  ev_payload :: jval

record quality_row =
  q_session_id :: int
  q_emos :: rat
  q_outcome :: string
  q_computed_at :: instant

record partition_row =
  relname :: string
  range_from :: instant
  range_to :: instant

record database =
  apps :: "app_row list"
  conferences :: "conference_row list"
  participants :: "participant_row list"
  sessions :: "session_row list"
  connections :: "connection_row list"
  connection_stats :: "stats_row list"
  events :: "event_row list"
  session_quality :: "quality_row list"
  partitions :: "partition_row list"
  detached :: "partition_row list"
  next_conf :: int
  next_part :: int
  next_sess :: int
  next_conn :: int
  next_event :: int

subsection \<open>The upsert statement\<close>

definition upsert ::
  "('r \<Rightarrow> 'k) \<Rightarrow> ('r \<Rightarrow> int) \<Rightarrow> 'k \<Rightarrow> (int \<Rightarrow> 'r) \<Rightarrow> int \<Rightarrow> 'r list \<Rightarrow> 'r list
     \<Rightarrow> (int \<times> bool \<times> int \<times> 'r list) option" where
  "upsert key rid k mk nxt snapshot rows =
     (if List.find (\<lambda>r. key r = k) rows = None
      then Some (nxt, True, nxt + 1, rows @ [mk nxt])
      else case List.find (\<lambda>r. key r = k) snapshot of
             Some r \<Rightarrow> Some (rid r, False, nxt, rows)
           | None \<Rightarrow> None)"

text \<open>A table with a unique key and a serial id.\<close>

definition table_ok :: "('r \<Rightarrow> 'k) \<Rightarrow> ('r \<Rightarrow> int) \<Rightarrow> int \<Rightarrow> 'r list \<Rightarrow> bool" where
  "table_ok key rid nxt rows \<longleftrightarrow>
     distinct (map key rows) \<and> distinct (map rid rows) \<and> (\<forall>r \<in> set rows. rid r < nxt)"

lemma find_NoneD: "List.find P xs = None \<Longrightarrow> x \<in> set xs \<Longrightarrow> \<not> P x"
  by (auto simp: find_None_iff)

lemma find_SomeD: "List.find P xs = Some x \<Longrightarrow> x \<in> set xs \<and> P x"
  by (auto simp: find_Some_iff)

text \<open>When the snapshot is current the statement always returns a row, whose key is the
  requested one; the table keeps its keys and only grows.\<close>

lemma upsert_current:
  assumes "table_ok key rid nxt rows" and "\<And>i. key (mk i) = k" and "\<And>i. rid (mk i) = i"
  shows "\<exists>i isnew nxt' rows'. upsert key rid k mk nxt rows rows = Some (i, isnew, nxt', rows')
     \<and> table_ok key rid nxt' rows' \<and> set rows \<subseteq> set rows'
     \<and> (\<exists>r \<in> set rows'. key r = k \<and> rid r = i) \<and> nxt \<le> nxt'
     \<and> (\<forall>r \<in> set rows'. r \<in> set rows \<or> (isnew \<and> r = mk i))"
proof (cases "List.find (\<lambda>r. key r = k) rows")
  case None
  then have "\<forall>r \<in> set rows. key r \<noteq> k" by (auto dest: find_NoneD)
  then have "table_ok key rid (nxt + 1) (rows @ [mk nxt])"
    using assms by (auto simp: table_ok_def image_iff)
  moreover have "upsert key rid k mk nxt rows rows = Some (nxt, True, nxt + 1, rows @ [mk nxt])"
    using None by (simp add: upsert_def)
  ultimately show ?thesis
    using assms(2,3) by (intro exI [of _ nxt] exI [of _ True] exI [of _ "nxt + 1"]
        exI [of _ "rows @ [mk nxt]"]) auto
next
  case (Some r)
  with assms show ?thesis using find_SomeD [OF Some] by (auto simp: upsert_def)
qed

lemma upsert_SomeD:
  assumes "upsert key rid k mk nxt rows rows = Some (i, isnew, nxt', rows')"
    and "table_ok key rid nxt rows" and "\<And>i. key (mk i) = k" and "\<And>i. rid (mk i) = i"
  shows "table_ok key rid nxt' rows'" "set rows \<subseteq> set rows'" "\<exists>r \<in> set rows'. key r = k \<and> rid r = i"
    "r \<in> set rows' \<Longrightarrow> r \<in> set rows \<or> r = mk i"
  using upsert_current [of key rid nxt rows mk k] assms by auto

lemma upsert_again:
  assumes "table_ok key rid nxt rows" and "r \<in> set rows"
  shows "upsert key rid (key r) mk nxt rows rows = Some (rid r, False, nxt, rows)"
proof -
  have "List.find (\<lambda>r'. key r' = key r) rows \<noteq> None" using assms(2) by (auto simp: find_None_iff)
  then obtain r' where r': "List.find (\<lambda>r'. key r' = key r) rows = Some r'" by auto
  then have "r' \<in> set rows" "key r' = key r" by (auto dest: find_SomeD)
  then have "r' = r" using assms by (auto simp: table_ok_def distinct_map dest: inj_onD)
  with r' show ?thesis by (simp add: upsert_def)
qed

lemma upsert_stale_snapshot:
  assumes "r \<in> set rows" and "key r = k" and "\<forall>s \<in> set snapshot. key s \<noteq> k"
  shows "upsert key rid k mk nxt snapshot rows = None"
proof -
  have "List.find (\<lambda>r. key r = k) rows \<noteq> None" using assms(1,2) by (auto simp: find_None_iff)
  moreover have "List.find (\<lambda>r. key r = k) snapshot = None" using assms(3) by (auto simp: find_None_iff)
  ultimately show ?thesis by (simp add: upsert_def)
qed

subsection \<open>Integrity of the hierarchy\<close>

text \<open>Unique keys, serial ids and foreign keys from conferences down to statistics.\<close>

definition db_ok :: "database \<Rightarrow> bool" where
  "db_ok d \<longleftrightarrow>
     distinct (map app_id (apps d))
   \<and> table_ok (\<lambda>c. (conf_app_id c, conf_external_id c)) conf_id (next_conf d) (conferences d)
   \<and> table_ok (\<lambda>p. (part_conference_id p, part_user_id p)) part_id (next_part d) (participants d)
   \<and> table_ok sess_external_id sess_id (next_sess d) (sessions d)
   \<and> table_ok conn_external_id conn_id (next_conn d) (connections d)
   \<and> conf_app_id ` set (conferences d) \<subseteq> app_id ` set (apps d)
   \<and> part_conference_id ` set (participants d) \<subseteq> conf_id ` set (conferences d)
   \<and> sess_participant_id ` set (sessions d) \<subseteq> part_id ` set (participants d)
   \<and> conn_session_id ` set (connections d) \<subseteq> sess_id ` set (sessions d)
   \<and> cs_connection_id ` set (connection_stats d) \<subseteq> conn_id ` set (connections d)"

definition accepts :: "partition_row list \<Rightarrow> instant \<Rightarrow> bool" where
  "accepts ps t \<longleftrightarrow> (\<exists>p \<in> set ps. range_from p \<le> t \<and> t < range_to p)"

definition empty_db :: database where
  "empty_db = \<lparr>apps = [], conferences = [], participants = [], sessions = [], connections = [],
     connection_stats = [], events = [], session_quality = [], partitions = [], detached = [],
     next_conf = 1, next_part = 1, next_sess = 1, next_conn = 1, next_event = 1\<rparr>"

lemma db_ok_empty: "db_ok (empty_db\<lparr>apps := as, partitions := ps\<rparr>) \<longleftrightarrow> distinct (map app_id as)"
  by (simp add: db_ok_def empty_db_def table_ok_def)

subsection \<open>Values on the wire\<close>

text \<open>A \<open>text\<close> value must not hold a NUL byte; \<open>timestamptz\<close> keeps microseconds.\<close>

definition pg_text :: "string \<Rightarrow> bool" where
  "pg_text s \<longleftrightarrow> CHR 0x00 \<notin> set s"

definition pg_time :: "instant \<Rightarrow> instant" where
  "pg_time t = t div 1000 * 1000"

subsection \<open>Growth\<close>

text \<open>\<open>covers d d'\<close>: every entity row of \<open>d\<close> is in \<open>d'\<close>.  \<open>grows\<close>: what the
  upserts of a flush may do to a database, add rows to the four entity tables.\<close>

definition covers :: "database \<Rightarrow> database \<Rightarrow> bool" where
  "covers d d' \<longleftrightarrow>
     apps d' = apps d
   \<and> set (conferences d) \<subseteq> set (conferences d') \<and> set (participants d) \<subseteq> set (participants d')
   \<and> set (sessions d) \<subseteq> set (sessions d') \<and> set (connections d) \<subseteq> set (connections d')"

definition grows :: "database \<Rightarrow> database \<Rightarrow> bool" where
  "grows d d' \<longleftrightarrow>
     covers d d' \<and> partitions d' = partitions d \<and> connection_stats d' = connection_stats d
   \<and> events d' = events d \<and> session_quality d' = session_quality d \<and> next_event d' = next_event d"

lemma covers_refl [simp]: "covers d d"
  by (simp add: covers_def)

lemma covers_trans: "covers d d' \<Longrightarrow> covers d' d'' \<Longrightarrow> covers d d''"
  by (auto simp: covers_def)

lemma grows_covers: "grows d d' \<Longrightarrow> covers d d'"
  by (simp add: grows_def)

lemma grows_refl [simp]: "grows d d"
  by (simp add: grows_def covers_def)

lemma grows_trans: "grows d d' \<Longrightarrow> grows d' d'' \<Longrightarrow> grows d d''"
  by (auto simp: grows_def intro: covers_trans)

definition conf_in :: "int \<times> string \<Rightarrow> int \<Rightarrow> database \<Rightarrow> bool" where
  "conf_in k i d \<longleftrightarrow> (\<exists>c \<in> set (conferences d). (conf_app_id c, conf_external_id c) = k \<and> conf_id c = i)"

definition part_in :: "int \<times> string \<Rightarrow> int \<Rightarrow> database \<Rightarrow> bool" where
  "part_in k i d \<longleftrightarrow> (\<exists>p \<in> set (participants d). (part_conference_id p, part_user_id p) = k \<and> part_id p = i)"

definition sess_in :: "string \<Rightarrow> int \<Rightarrow> database \<Rightarrow> bool" where
  "sess_in k i d \<longleftrightarrow> (\<exists>s \<in> set (sessions d). sess_external_id s = k \<and> sess_id s = i)"

definition conn_in :: "string \<Rightarrow> int \<Rightarrow> database \<Rightarrow> bool" where
  "conn_in k i d \<longleftrightarrow> (\<exists>c \<in> set (connections d). conn_external_id c = k \<and> conn_id c = i)"

lemmas row_in_defs = conf_in_def part_in_def sess_in_def conn_in_def

lemma row_in_mono:
  assumes "covers d d'"
  shows "conf_in k i d \<Longrightarrow> conf_in k i d'" "part_in k i d \<Longrightarrow> part_in k i d'"
    "sess_in k' i d \<Longrightarrow> sess_in k' i d'" "conn_in k' i d \<Longrightarrow> conn_in k' i d'"
  using assms by (auto simp: row_in_defs covers_def)

end
