(* ===== verification/GoStd.thy ===== *)
theory GoStd
  imports Prelude
begin

text \<open>
  The parts of Go's standard library the program's own logic depends on, written out as
  executable functions: decimal formatting and parsing (\<open>strconv.FormatInt\<close>,
  \<open>strconv.ParseInt\<close> with base 10 and 64 bits, \<open>strconv.Atoi\<close>), hexadecimal and
  base64 coding (\<open>encoding/hex\<close>, \<open>encoding/base64\<close>), and the string helpers
  \<open>strings.HasPrefix\<close>, \<open>TrimPrefix\<close>, \<open>Split\<close>, \<open>Join\<close> and
  \<open>Fields\<close>.  The program only tests whether these calls return an error, so an error is
  \<open>None\<close>.  The lemmas are the round trips and the character ranges other theories use.
\<close>

subsection \<open>Decimal numbers\<close>

definition digit_char :: "nat \<Rightarrow> char" where
  "digit_char d = char_of (48 + d)"

definition is_digit :: "char \<Rightarrow> bool" where
  "is_digit c \<longleftrightarrow> 48 \<le> (of_char c :: nat) \<and> (of_char c :: nat) \<le> 57"

fun dec_nat :: "nat \<Rightarrow> string" where
  "dec_nat n = (if n < 10 then [digit_char n] else dec_nat (n div 10) @ [digit_char (n mod 10)])"

declare dec_nat.simps [simp del]

definition FormatInt :: "int \<Rightarrow> string" where
  "FormatInt n = (if n < 0 then CHR ''-'' # dec_nat (nat (- n)) else dec_nat (nat n))"

fun digits_val :: "nat \<Rightarrow> string \<Rightarrow> nat option" where
  "digits_val acc [] = Some acc"
| "digits_val acc (c # cs) =
     (if is_digit c then digits_val (acc * 10 + (of_char c - 48)) cs else None)"

definition in_range :: "int \<Rightarrow> int option" where
  "in_range n = (if in_i64 n then Some n else None)"

definition ParseInt :: "string \<Rightarrow> int option" where
  "ParseInt s =
     (case s of
        [] \<Rightarrow> None
      | c # cs \<Rightarrow>
          if c = CHR ''-'' \<or> c = CHR ''+'' then
            (if cs = [] then None
             else case digits_val 0 cs of
                    None \<Rightarrow> None
                  | Some n \<Rightarrow> in_range (if c = CHR ''-'' then - int n else int n))
          else case digits_val 0 s of None \<Rightarrow> None | Some n \<Rightarrow> in_range (int n))"

definition Atoi :: "string \<Rightarrow> int option" where
  "Atoi s = ParseInt s"

lemma of_char_digit [simp]: "d < 10 \<Longrightarrow> (of_char (digit_char d) :: nat) = 48 + d"
  by (simp add: digit_char_def)

lemma is_digit_digit [simp]: "d < 10 \<Longrightarrow> is_digit (digit_char d)"
  by (simp add: is_digit_def)

lemma dec_nat_nonempty [simp]: "dec_nat n \<noteq> []"
  by (subst dec_nat.simps) simp

lemma dec_nat_digits: "c \<in> set (dec_nat n) \<Longrightarrow> is_digit c"
proof (induction n rule: dec_nat.induct)
  case (1 n)
  then show ?case by (subst (asm) dec_nat.simps) (auto split: if_splits)
qed

lemma digits_val_append:
  "digits_val acc (xs @ ys) = (case digits_val acc xs of None \<Rightarrow> None | Some m \<Rightarrow> digits_val m ys)"
  by (induction xs arbitrary: acc) auto

lemma digits_val_dec_nat: "digits_val 0 (dec_nat n) = Some n"
proof (induction n rule: dec_nat.induct)
  case (1 n)
  show ?case
  proof (cases "n < 10")
    case True
    then show ?thesis by (subst dec_nat.simps) simp
  next
    case False
    with 1 show ?thesis by (subst dec_nat.simps) (simp add: digits_val_append)
  qed
qed

lemma dec_nat_inject: "dec_nat m = dec_nat n \<Longrightarrow> m = n"
  by (metis digits_val_dec_nat option.inject)

lemma minus_not_digit [simp]: "\<not> is_digit (CHR ''-'')"
  by (simp add: is_digit_def)

lemma plus_not_digit [simp]: "\<not> is_digit (CHR ''+'')"
  by (simp add: is_digit_def)

lemma FormatInt_nonempty [simp]: "FormatInt n \<noteq> []"
  by (simp add: FormatInt_def)

lemma FormatInt_chars: "c \<in> set (FormatInt n) \<Longrightarrow> is_digit c \<or> c = CHR ''-''"
  by (auto simp: FormatInt_def dest: dec_nat_digits split: if_splits)

lemma FormatInt_no_newline [simp]: "CHR 0x0A \<notin> set (FormatInt n)"
  using FormatInt_chars [of "CHR 0x0A" n] by (auto simp: is_digit_def)

lemma FormatInt_no_colon [simp]: "CHR '':'' \<notin> set (FormatInt n)"
  using FormatInt_chars [of "CHR '':''" n] by (auto simp: is_digit_def)

lemma ParseInt_FormatInt [simp]: "in_i64 n \<Longrightarrow> ParseInt (FormatInt n) = Some n"
proof -
  assume n: "in_i64 n"
  show ?thesis
  proof (cases "n < 0")
    case True
    with n show ?thesis by (simp add: FormatInt_def ParseInt_def digits_val_dec_nat in_range_def)
  next
    case False
    obtain c cs where d: "dec_nat (nat n) = c # cs" by (cases "dec_nat (nat n)") auto
    then have "is_digit c" using dec_nat_digits [of c "nat n"] by simp
    then have "c \<noteq> CHR ''-''" and "c \<noteq> CHR ''+''" by auto
    with False n d show ?thesis
      using digits_val_dec_nat [of "nat n"] by (simp add: FormatInt_def ParseInt_def in_range_def)
  qed
qed

lemma FormatInt_inject [simp]: "FormatInt m = FormatInt n \<longleftrightarrow> m = n"
proof
  have *: "FormatInt a \<noteq> FormatInt b" if "a < 0" "\<not> b < 0" for a b
  proof
    assume "FormatInt a = FormatInt b"
    then have "CHR ''-'' \<in> set (dec_nat (nat b))"
      using that by (auto simp: FormatInt_def) (metis list.set_intros(1))
    then show False using dec_nat_digits by fastforce
  qed
  assume eq: "FormatInt m = FormatInt n"
  consider "m < 0" "n < 0" | "\<not> m < 0" "\<not> n < 0" using * [of m n] * [of n m] eq by fastforce
  then show "m = n"
    using eq by cases (auto simp: FormatInt_def dest: dec_nat_inject)
qed simp

lemma digits_val_Some_digits: "digits_val acc s = Some n \<Longrightarrow> c \<in> set s \<Longrightarrow> is_digit c"
  by (induction s arbitrary: acc) (auto split: if_splits)

lemma ParseInt_chars:
  "ParseInt s = Some n \<Longrightarrow> c \<in> set s \<Longrightarrow> is_digit c \<or> c = CHR ''-'' \<or> c = CHR ''+''"
  by (auto simp: ParseInt_def dest: digits_val_Some_digits split: list.splits if_splits option.splits)

lemma ParseInt_in: "ParseInt s = Some n \<Longrightarrow> in_i64 n"
  by (auto simp: ParseInt_def in_range_def split: list.splits if_splits option.splits)

lemma ParseInt_no_colon: "ParseInt s = Some n \<Longrightarrow> CHR '':'' \<notin> set s"
  using ParseInt_chars [of s n "CHR '':''"] by (auto simp: is_digit_def)

subsection \<open>Hexadecimal\<close>

definition hex_digit :: "nat \<Rightarrow> char" where
  "hex_digit d = char_of (if d < 10 then 48 + d else 87 + d)"

definition hex_val :: "char \<Rightarrow> nat option" where
  "hex_val c =
     (let n = (of_char c :: nat) in
      if 48 \<le> n \<and> n \<le> 57 then Some (n - 48)
      else if 97 \<le> n \<and> n \<le> 102 then Some (n - 87)
      else if 65 \<le> n \<and> n \<le> 70 then Some (n - 55)
      else None)"

fun hex_EncodeToString :: "string \<Rightarrow> string" where
  "hex_EncodeToString [] = []"
| "hex_EncodeToString (b # bs) =
     hex_digit (of_char b div 16) # hex_digit (of_char b mod 16) # hex_EncodeToString bs"

fun hex_DecodeString :: "string \<Rightarrow> string option" where
  "hex_DecodeString [] = Some []"
| "hex_DecodeString [c] = None"
| "hex_DecodeString (c # d # cs) =
     (case (hex_val c, hex_val d, hex_DecodeString cs) of
        (Some h, Some l, Some bs) \<Rightarrow> Some (char_of (16 * h + l) # bs)
      | _ \<Rightarrow> None)"

lemma of_char_lt [simp]: "(of_char c :: nat) < 256"
  by (metis nat_of_char_less_256)

lemma hex_val_digit [simp]: "d < 16 \<Longrightarrow> hex_val (hex_digit d) = Some d"
  by (auto simp: hex_val_def hex_digit_def Let_def)

lemma hex_DecodeString_Encode [simp]: "hex_DecodeString (hex_EncodeToString s) = Some s"
proof (induction s)
  case (Cons b s)
  have "(of_char b :: nat) div 16 < 16" using of_char_lt [of b] by linarith
  with Cons show ?case by simp
qed simp

lemma length_hex [simp]: "length (hex_EncodeToString s) = 2 * length s"
  by (induction s) auto

lemma hex_EncodeToString_inject [simp]:
  "hex_EncodeToString s = hex_EncodeToString t \<longleftrightarrow> s = t"
  by (metis hex_DecodeString_Encode option.inject)

lemma hex_chars: "c \<in> set (hex_EncodeToString s) \<Longrightarrow> hex_val c \<noteq> None"
proof (induction s)
  case (Cons b s)
  have "(of_char b :: nat) div 16 < 16" using of_char_lt [of b] by linarith
  with Cons show ?case by auto
qed simp

lemma hex_no_newline [simp]: "CHR 0x0A \<notin> set (hex_EncodeToString s)"
  using hex_chars [of "CHR 0x0A" s] by (auto simp: hex_val_def)

subsection \<open>Base64\<close>

text \<open>
  An encoding is its 64-character alphabet; both encodings the program uses are padded.  As in Go,
  the decoder skips carriage returns and line feeds and does not check the unused bits of the last
  group.
\<close>

definition StdAlphabet :: string where
  "StdAlphabet = ''ABCDEFGHIJKLMNOPQRSTUVWXYZabcdefghijklmnopqrstuvwxyz0123456789+/''"

definition URLAlphabet :: string where
  "URLAlphabet = ''ABCDEFGHIJKLMNOPQRSTUVWXYZabcdefghijklmnopqrstuvwxyz0123456789-_''"

fun index_from :: "nat \<Rightarrow> char \<Rightarrow> string \<Rightarrow> nat option" where
  "index_from i c [] = None"
| "index_from i c (x # xs) = (if x = c then Some i else index_from (Suc i) c xs)"

definition b64_val :: "string \<Rightarrow> char \<Rightarrow> nat option" where
  "b64_val al c = index_from 0 c al"

fun b64_encode :: "string \<Rightarrow> string \<Rightarrow> string" where
  "b64_encode al [] = []"
| "b64_encode al [a] =
     [al ! (of_char a div 4), al ! (of_char a mod 4 * 16), CHR ''='', CHR ''='']"
| "b64_encode al [a, b] =
     [al ! (of_char a div 4), al ! (of_char a mod 4 * 16 + of_char b div 16),
      al ! (of_char b mod 16 * 4), CHR ''='']"
| "b64_encode al (a # b # c # r) =
     al ! (of_char a div 4) # al ! (of_char a mod 4 * 16 + of_char b div 16)
     # al ! (of_char b mod 16 * 4 + of_char c div 64) # al ! (of_char c mod 64) # b64_encode al r"

fun b64_groups :: "string \<Rightarrow> string \<Rightarrow> string option" where
  "b64_groups al [] = Some []"
| "b64_groups al (w # x # y # z # r) =
     (case (b64_val al w, b64_val al x) of
        (Some p, Some q) \<Rightarrow>
          if y = CHR ''='' then
            (if z = CHR ''='' \<and> r = [] then Some [char_of (p * 4 + q div 16)] else None)
          else (case b64_val al y of
            None \<Rightarrow> None
          | Some s \<Rightarrow>
              if z = CHR ''='' then
                (if r = [] then Some [char_of (p * 4 + q div 16), char_of (q mod 16 * 16 + s div 4)]
                 else None)
              else (case (b64_val al z, b64_groups al r) of
                (Some t, Some bs) \<Rightarrow>
                  Some (char_of (p * 4 + q div 16) # char_of (q mod 16 * 16 + s div 4)
                        # char_of (s mod 4 * 64 + t) # bs)
              | _ \<Rightarrow> None))
      | _ \<Rightarrow> None)"
| "b64_groups al _ = None"

definition b64_decode :: "string \<Rightarrow> string \<Rightarrow> string option" where
  "b64_decode al s = b64_groups al (filter (\<lambda>c. c \<noteq> CHR 0x0A \<and> c \<noteq> CHR 0x0D) s)"

definition alphabet :: "string \<Rightarrow> bool" where
  "alphabet al \<longleftrightarrow> length al = 64 \<and> distinct al
     \<and> list_all (\<lambda>c. c \<noteq> CHR ''='' \<and> c \<noteq> CHR 0x0A \<and> c \<noteq> CHR 0x0D) al"

lemma StdAlphabet_alphabet [simp]: "alphabet StdAlphabet"
  by (simp add: alphabet_def StdAlphabet_def)

lemma URLAlphabet_alphabet [simp]: "alphabet URLAlphabet"
  by (simp add: alphabet_def URLAlphabet_def)

lemma index_from_nth: "distinct xs \<Longrightarrow> i < length xs \<Longrightarrow> index_from k (xs ! i) xs = Some (k + i)"
  by (induction xs arbitrary: i k) (auto simp: nth_Cons split: nat.splits)

lemma b64_val_nth [simp]: "alphabet al \<Longrightarrow> i < 64 \<Longrightarrow> b64_val al (al ! i) = Some i"
  by (simp add: b64_val_def index_from_nth alphabet_def)

lemma alphabet_nth [simp]:
  assumes "alphabet al" and "i < 64"
  shows "al ! i \<noteq> CHR ''=''" "al ! i \<noteq> CHR 0x0A" "al ! i \<noteq> CHR 0x0D"
  using assms by (auto simp: alphabet_def list_all_length)

lemma byte_split [simp]:
  "(of_char c :: nat) div 4 < 64" "(of_char c :: nat) mod 4 * 16 < 64"
  "(of_char a :: nat) mod 4 * 16 + of_char b div 16 < 64"
  "(of_char b :: nat) mod 16 * 4 < 64" "(of_char b :: nat) mod 16 * 4 + of_char c div 64 < 64"
  using of_char_lt [of c] of_char_lt [of b] by linarith+

lemma byte_join:
  fixes a b c :: nat
  assumes "b < 256" and "c < 256"
  shows "a div 4 * 4 + (a mod 4 * 16 + b div 16) div 16 = a"
    "(a mod 4 * 16 + b div 16) mod 16 * 16 + (b mod 16 * 4 + c div 64) div 4 = b"
    "(b mod 16 * 4 + c div 64) mod 4 * 64 + c mod 64 = c"
proof -
  have b: "b div 16 < 16" and c: "c div 64 < 4" using assms by linarith+
  from b show "a div 4 * 4 + (a mod 4 * 16 + b div 16) div 16 = a" by simp
  have "(a mod 4 * 16 + b div 16) mod 16 = b div 16" using b by simp
  moreover have "(b mod 16 * 4 + c div 64) div 4 = b mod 16" using c by simp
  ultimately show "(a mod 4 * 16 + b div 16) mod 16 * 16 + (b mod 16 * 4 + c div 64) div 4 = b" by simp
  have "(b mod 16 * 4 + c div 64) mod 4 = c div 64" using c by (simp add: mod_add_eq)
  then show "(b mod 16 * 4 + c div 64) mod 4 * 64 + c mod 64 = c" by simp
qed

lemma b64_groups_encode: "alphabet al \<Longrightarrow> b64_groups al (b64_encode al s) = Some s"
proof (induction al s rule: b64_encode.induct)
  case (2 al a)
  then show ?case using byte_join(1) [where a = "of_char a" and b = 0 and c = 0] by simp
next
  case (3 al a b)
  then show ?case
    using byte_join(1) [where a = "of_char a" and b = "of_char b" and c = 0]
      byte_join(2) [where a = "of_char a" and b = "of_char b" and c = 0] by simp
next
  case (4 al a b c r)
  then show ?case 
    using byte_join(1,2) [where a = "of_char a" and b = "of_char b" and c = "of_char c"]
      byte_join(3) [where b = "of_char b" and c = "of_char c"] by simp
qed simp

lemma b64_encode_no_newline:
  "alphabet al \<Longrightarrow> filter (\<lambda>c. c \<noteq> CHR 0x0A \<and> c \<noteq> CHR 0x0D) (b64_encode al s) = b64_encode al s"
  by (induction al s rule: b64_encode.induct) simp_all

lemma b64_decode_encode [simp]: "alphabet al \<Longrightarrow> b64_decode al (b64_encode al s) = Some s"
  by (simp add: b64_decode_def b64_encode_no_newline b64_groups_encode)

subsection \<open>Strings\<close>

definition HasPrefix :: "string \<Rightarrow> string \<Rightarrow> bool" where
  "HasPrefix s p \<longleftrightarrow> take (length p) s = p"

definition TrimPrefix :: "string \<Rightarrow> string \<Rightarrow> string" where
  "TrimPrefix s p = (if HasPrefix s p then drop (length p) s else s)"

fun Split :: "char \<Rightarrow> string \<Rightarrow> string list" where
  "Split c [] = [[]]"
| "Split c (x # xs) =
     (if x = c then [] # Split c xs
      else case Split c xs of [] \<Rightarrow> [[x]] | w # ws \<Rightarrow> (x # w) # ws)"

fun Join :: "string list \<Rightarrow> string \<Rightarrow> string" where
  "Join [] sep = []"
| "Join [s] sep = s"
| "Join (s # ss) sep = s @ sep @ Join ss sep"

definition is_space :: "char \<Rightarrow> bool" where
  "is_space c \<longleftrightarrow> (of_char c :: nat) \<in> {9, 10, 11, 12, 13, 32}"

definition Fields :: "string \<Rightarrow> string list" where
  "Fields s = filter (\<lambda>w. w \<noteq> []) (Split (CHR '' '') (map (\<lambda>c. if is_space c then CHR '' '' else c) s))"

lemma HasPrefix_append [simp]: "HasPrefix (p @ s) p"
  by (simp add: HasPrefix_def)

lemma TrimPrefix_append [simp]: "TrimPrefix (p @ s) p = s"
  by (simp add: TrimPrefix_def)

lemma Split_nonempty [simp]: "Split c s \<noteq> []"
  by (induction s) (auto split: list.splits)

lemma Split_no_sep: "c \<notin> set s \<Longrightarrow> Split c s = [s]"
  by (induction s) auto

lemma Split_append: "c \<notin> set a \<Longrightarrow> Split c (a @ c # b) = a # Split c b"
  by (induction a) auto

text \<open>Two strings that agree up to a separator that does not occur in the parts before it agree
  on the parts.\<close>

lemma append_sep_inject:
  assumes "a @ c # x = b @ c # y" and "c \<notin> set a" and "c \<notin> set b"
  shows "a = b \<and> x = y"
  using assms
proof (induction a arbitrary: b)
  case Nil
  then show ?case by (cases b) auto
next
  case (Cons d a)
  then show ?case by (cases b) auto
qed

lemma append_sep_inject_rev:
  assumes "x @ c # a = y @ c # b" and "c \<notin> set a" and "c \<notin> set b"
  shows "x = y \<and> a = b"
proof -
  have "rev a @ c # rev x = rev b @ c # rev y"
    using arg_cong [OF assms(1), of rev] by simp
  then have "rev a = rev b \<and> rev x = rev y"
    using assms(2,3) by (intro append_sep_inject) auto
  then show ?thesis by simp
qed

end
