(* ===== verification/Upsert.thy ===== *)
theory Upsert
  imports Database GoStd
begin

text \<open>
  The loop the four \<open>upsert*\<close> functions of \<^verbatim>\<open>internal/ingest/flush.go\<close> share: walk the
  batch, skip the keys already seen, run one statement per new key and record the id it returns.
  \<open>seen_key p\<close> is the key of the \<open>seen\<close> map (an error when it cannot be computed),
  \<open>rkey p\<close> the key of the \<open>result\<close> map, \<open>stmt p\<close> the statement.

  The locale \<open>upsert_contract\<close> is what the statements promise; its lemmas about the loop are
  proved once and used for all four functions.
\<close>

datatype flush_error =
    BeginTx | InvalidAppID string | ConferenceErr string | ParticipantErr int string
  | SessionErr string | ConnectionErr string | CopyFromErr | CommitErr

text \<open>One statement: \<open>bad\<close> when the driver or the server rejects it, \<open>fk\<close> when the
  row the new one refers to exists.\<close>

definition insert_or_select ::
  "bool \<Rightarrow> bool \<Rightarrow> ('r \<Rightarrow> 'k) \<Rightarrow> ('r \<Rightarrow> int) \<Rightarrow> 'k \<Rightarrow> (int \<Rightarrow> 'r) \<Rightarrow> int \<Rightarrow> 'r list
     \<Rightarrow> (int \<times> int \<times> 'r list) option" where
  "insert_or_select bad fk key rid k mk nxt rows =
     (if bad then None
      else case upsert key rid k mk nxt rows rows of
             None \<Rightarrow> None
           | Some (i, isNew, nxt', rows') \<Rightarrow> if isNew \<and> \<not> fk then None else Some (i, nxt', rows'))"

lemma insert_or_select_SomeD:
  assumes "insert_or_select bad fk key rid k mk nxt rows = Some (i, nxt', rows')"
    and "key (mk nxt) = k" and "rid (mk nxt) = nxt"
  shows "(rows' = rows \<and> nxt' = nxt
           \<or> fk \<and> rows' = rows @ [mk nxt] \<and> nxt' = nxt + 1 \<and> (\<forall>r \<in> set rows. key r \<noteq> key (mk nxt)))
       \<and> (\<exists>r \<in> set rows'. key r = k \<and> rid r = i)"
  using assms
  by (auto simp: insert_or_select_def upsert_def find_None_iff dest!: find_SomeD
      split: if_splits option.splits)

lemma insert_or_select_iff:
  "(\<exists>x. insert_or_select bad fk key rid k mk nxt rows = Some x)
     \<longleftrightarrow> \<not> bad \<and> (fk \<or> (\<exists>r \<in> set rows. key r = k))"
  by (auto simp: insert_or_select_def upsert_def find_None_iff split: option.splits)

lemma insert_or_select_again:
  assumes "table_ok key rid nxt rows" and "\<not> bad" and "r \<in> set rows" and "key r = k"
  shows "insert_or_select bad fk key rid k mk nxt rows = Some (rid r, nxt, rows)"
  using upsert_again [OF assms(1,3), of mk] assms(2,4) by (simp add: insert_or_select_def)

lemma table_ok_snoc:
  assumes "table_ok key rid nxt rows" "\<forall>r \<in> set rows. key r \<noteq> key x" "rid x = nxt"
  shows "table_ok key rid (nxt + 1) (rows @ [x])"
  using assms by (auto simp: table_ok_def image_iff)

lemma db_ok_insert:
  assumes "db_ok d"
  shows "\<lbrakk>\<forall>r \<in> set (conferences d). (conf_app_id r, conf_external_id r) \<noteq> (conf_app_id c, conf_external_id c);
      conf_id c = next_conf d; conf_app_id c \<in> app_id ` set (apps d)\<rbrakk>
      \<Longrightarrow> db_ok (d\<lparr>conferences := conferences d @ [c], next_conf := next_conf d + 1\<rparr>)"
    "\<lbrakk>\<forall>r \<in> set (participants d). (part_conference_id r, part_user_id r) \<noteq> (part_conference_id p, part_user_id p);
      part_id p = next_part d; part_conference_id p \<in> conf_id ` set (conferences d)\<rbrakk>
      \<Longrightarrow> db_ok (d\<lparr>participants := participants d @ [p], next_part := next_part d + 1\<rparr>)"
    "\<lbrakk>\<forall>r \<in> set (sessions d). sess_external_id r \<noteq> sess_external_id s;
      sess_id s = next_sess d; sess_participant_id s \<in> part_id ` set (participants d)\<rbrakk>
      \<Longrightarrow> db_ok (d\<lparr>sessions := sessions d @ [s], next_sess := next_sess d + 1\<rparr>)"
    "\<lbrakk>\<forall>r \<in> set (connections d). conn_external_id r \<noteq> conn_external_id n;
      conn_id n = next_conn d; conn_session_id n \<in> sess_id ` set (sessions d)\<rbrakk>
      \<Longrightarrow> db_ok (d\<lparr>connections := connections d @ [n], next_conn := next_conn d + 1\<rparr>)"
  using assms unfolding db_ok_def by (simp_all add: table_ok_snoc subset_insertI2)

lemma db_ok_tables:
  assumes "db_ok d"
  shows "table_ok (\<lambda>c. (conf_app_id c, conf_external_id c)) conf_id (next_conf d) (conferences d)"
    "table_ok (\<lambda>p. (part_conference_id p, part_user_id p)) part_id (next_part d) (participants d)"
    "table_ok sess_external_id sess_id (next_sess d) (sessions d)"
    "table_ok conn_external_id conn_id (next_conn d) (connections d)"
  using assms by (simp_all add: db_ok_def)

fun upsert_all ::
  "('p \<Rightarrow> flush_error + 's) \<Rightarrow> ('p \<Rightarrow> string) \<Rightarrow> ('p \<Rightarrow> database \<Rightarrow> flush_error + (database \<times> int))
     \<Rightarrow> 's list \<Rightarrow> (string \<rightharpoonup> int) \<Rightarrow> database \<Rightarrow> 'p list
     \<Rightarrow> flush_error + (database \<times> (string \<rightharpoonup> int))" where
  "upsert_all seen_key rkey stmt seen result d [] = Inr (d, result)"
| "upsert_all seen_key rkey stmt seen result d (p # ps) =
     (case seen_key p of
        Inl e \<Rightarrow> Inl e
      | Inr k \<Rightarrow>
          if k \<in> set seen then upsert_all seen_key rkey stmt seen result d ps
          else (case stmt p d of
                  Inl e \<Rightarrow> Inl e
                | Inr (d', i) \<Rightarrow>
                    upsert_all seen_key rkey stmt (k # seen) (result(rkey p \<mapsto> i)) d' ps))"

text \<open>\<open>stmt t p\<close>: the statement for payload \<open>p\<close> run at time \<open>t\<close>.  \<open>here p\<close>: a payload of the batch.  \<open>base\<close>: what the statements need of the
  database.  \<open>good p\<close>: the statement for \<open>p\<close> is accepted.\<close>

locale upsert_contract =
  fixes seen_key :: "'p \<Rightarrow> flush_error + 's"
    and rkey :: "'p \<Rightarrow> string"
    and stmt :: "instant \<Rightarrow> 'p \<Rightarrow> database \<Rightarrow> flush_error + (database \<times> int)"
    and row_in :: "'s \<Rightarrow> int \<Rightarrow> database \<Rightarrow> bool"
    and here :: "'p \<Rightarrow> bool"
    and base :: "database \<Rightarrow> bool"
    and good :: "'p \<Rightarrow> bool"
  assumes stmt_ok: "\<lbrakk>here p; db_ok d; base d; seen_key p = Inr k; stmt t p d = Inr (d', i)\<rbrakk>
       \<Longrightarrow> db_ok d' \<and> grows d d' \<and> row_in k i d'"
    and stmt_live: "\<lbrakk>here p; db_ok d; base d; seen_key p = Inr k\<rbrakk>
       \<Longrightarrow> (\<exists>d' i. stmt t p d = Inr (d', i)) \<longleftrightarrow> good p"
    and stmt_again: "\<lbrakk>here p; db_ok d; base d; seen_key p = Inr k; good p; row_in k i d\<rbrakk>
       \<Longrightarrow> stmt t p d = Inr (d, i)"
    and base_mono: "base d \<Longrightarrow> covers d d' \<Longrightarrow> base d'"
    and row_mono: "row_in k i d \<Longrightarrow> covers d d' \<Longrightarrow> row_in k i d'"
    and seen_rkey: "\<lbrakk>here p; here q; seen_key p = Inr k; seen_key q = Inr k\<rbrakk> \<Longrightarrow> rkey p = rkey q"
    and seen_good: "\<lbrakk>here p; here q; seen_key p = Inr k; seen_key q = Inr k\<rbrakk> \<Longrightarrow> good p \<longleftrightarrow> good q"
begin

abbreviation loop where
  "loop t \<equiv> upsert_all seen_key rkey (stmt t)"

definition recorded :: "'s list \<Rightarrow> (string \<rightharpoonup> int) \<Rightarrow> database \<Rightarrow> bool" where
  "recorded seen m d \<longleftrightarrow>
     (\<forall>p k. here p \<longrightarrow> seen_key p = Inr k \<longrightarrow> k \<in> set seen \<longrightarrow>
        good p \<and> rkey p \<in> dom m \<and> (\<exists>i. row_in k i d))
   \<and> (\<forall>r i. m r = Some i \<longrightarrow> (\<exists>p k. here p \<and> seen_key p = Inr k \<and> k \<in> set seen \<and> rkey p = r \<and> row_in k i d))"

lemma recorded_Nil: "recorded [] Map.empty d"
  by (simp add: recorded_def)

lemma recorded_step:
  assumes "recorded seen m d" and "here p" "db_ok d" "base d" "seen_key p = Inr k"
    and st: "stmt t p d = Inr (d', i)"
  shows "recorded (k # seen) (m(rkey p \<mapsto> i)) d'"
proof -
  have ok: "grows d d'" "row_in k i d'" using stmt_ok [of p d k t d' i] assms by auto
  have g: "good p" using stmt_live [of p d k t] assms by auto
  have "good q \<and> rkey q \<in> dom (m(rkey p \<mapsto> i)) \<and> (\<exists>j. row_in k' j d')"
    if "here q" "seen_key q = Inr k'" "k' \<in> set (k # seen)" for q k'
  proof (cases "k' = k")
    case True
    then show ?thesis
      using that assms(2,5) g ok(2) seen_rkey [of q p k] seen_good [of q p k] by auto
  next
    case False
    with that have "good q \<and> rkey q \<in> dom m \<and> (\<exists>j. row_in k' j d)"
      using assms(1) by (auto simp: recorded_def)
    then show ?thesis using row_mono [OF _ grows_covers [OF ok(1)], of k'] by (auto dest: spec)
  qed
  moreover have "\<exists>q k'. here q \<and> seen_key q = Inr k' \<and> k' \<in> set (k # seen) \<and> rkey q = r \<and> row_in k' j d'"
    if j: "(m(rkey p \<mapsto> i)) r = Some j" for r j
  proof (cases "r = rkey p")
    case True
    then show ?thesis using j assms(2,5) ok(2) by auto
  next
    case False
    with j have "m r = Some j" by simp
    then obtain q k' where q: "here q" "seen_key q = Inr k'" "k' \<in> set seen" "rkey q = r" "row_in k' j d"
      using assms(1) unfolding recorded_def by blast
    then show ?thesis using row_mono [OF q(5) grows_covers [OF ok(1)]] by auto
  qed
  ultimately show ?thesis unfolding recorded_def by blast
qed

lemma loop_ok:
  assumes "loop t seen m d ps = Inr (d', m')" and "\<forall>p \<in> set ps. here p"
    and "db_ok d" "base d" "recorded seen m d"
  shows "db_ok d' \<and> base d' \<and> grows d d'
    \<and> (\<exists>seen'. recorded seen' m' d' \<and> set seen \<subseteq> set seen'
         \<and> (\<forall>p \<in> set ps. \<exists>k. seen_key p = Inr k \<and> k \<in> set seen'))"
  using assms
proof (induction ps arbitrary: seen m d)
  case Nil
  then show ?case by auto
next
  case (Cons p ps)
  from Cons.prems(1) obtain k where k: "seen_key p = Inr k" by (auto split: sum.splits)
  show ?case
  proof (cases "k \<in> set seen")
    case True
    then have "loop t seen m d ps = Inr (d', m')" using Cons.prems(1) k by simp
    with Cons.IH [of seen m d] Cons.prems k True show ?thesis by auto
  next
    case False
    then obtain d1 i where st: "stmt t p d = Inr (d1, i)"
      using Cons.prems(1) k by (auto split: sum.splits)
    then have l: "loop t (k # seen) (m(rkey p \<mapsto> i)) d1 ps = Inr (d', m')"
      using Cons.prems(1) k False by simp
    have 1: "db_ok d1" "grows d d1" using stmt_ok [of p d k t d1 i] Cons.prems k st by auto
    have 2: "base d1" using base_mono [OF Cons.prems(4) grows_covers] 1 by blast
    have 3: "recorded (k # seen) (m(rkey p \<mapsto> i)) d1"
      using recorded_step [of seen m d p k t d1 i] Cons.prems k st by auto
    from Cons.IH [OF l _ 1(1) 2 3] Cons.prems(2)
    have "db_ok d' \<and> base d' \<and> grows d1 d' \<and> (\<exists>seen'. recorded seen' m' d' \<and> set (k # seen) \<subseteq> set seen'
         \<and> (\<forall>p \<in> set ps. \<exists>k. seen_key p = Inr k \<and> k \<in> set seen'))" by auto
    with 1(2) k show ?thesis by (auto intro: grows_trans)
  qed
qed

text \<open>A completed loop: the database is sound, every payload has its row and a result entry, and
  every result entry is the id of a row some payload asked for.\<close>

lemma loop_result:
  assumes "loop t [] Map.empty d ps = Inr (d', m')" and "\<And>p. here p \<longleftrightarrow> p \<in> set ps"
    and "db_ok d" "base d"
  shows "db_ok d'" "base d'" "grows d d'"
    and "p \<in> set ps \<Longrightarrow> \<exists>k i. seen_key p = Inr k \<and> row_in k i d'"
    and "p \<in> set ps \<Longrightarrow> \<exists>q k i. q \<in> set ps \<and> rkey q = rkey p \<and> seen_key q = Inr k
           \<and> m' (rkey p) = Some i \<and> row_in k i d'"
proof -
  from loop_ok [OF assms(1) _ assms(3,4) recorded_Nil] assms(2)
  obtain seen' where *: "db_ok d'" "base d'" "grows d d'" "recorded seen' m' d'"
    "\<forall>p \<in> set ps. \<exists>k. seen_key p = Inr k \<and> k \<in> set seen'" by auto
  show "db_ok d'" "base d'" "grows d d'" by fact+
  show "\<exists>k i. seen_key p = Inr k \<and> row_in k i d'" if "p \<in> set ps"
    using that *(4,5) assms(2) unfolding recorded_def by metis
  show "\<exists>q k i. q \<in> set ps \<and> rkey q = rkey p \<and> seen_key q = Inr k \<and> m' (rkey p) = Some i \<and> row_in k i d'"
    if p: "p \<in> set ps"
  proof -
    obtain k where k: "seen_key p = Inr k" "k \<in> set seen'" using p *(5) by auto
    then obtain i where "m' (rkey p) = Some i" using p *(4) assms(2) unfolding recorded_def by blast
    then show ?thesis using *(4) assms(2) unfolding recorded_def by metis
  qed
qed

text \<open>The loop completes exactly when every payload's key can be computed and its statement is
  accepted.\<close>

lemma loop_live_aux:
  assumes "\<forall>p \<in> set ps. here p" and "db_ok d" "base d" "recorded seen m d"
  shows "(\<exists>r. loop t seen m d ps = Inr r) \<longleftrightarrow> (\<forall>p \<in> set ps. (\<exists>k. seen_key p = Inr k) \<and> good p)"
  using assms
proof (induction ps arbitrary: seen m d)
  case Nil
  then show ?case by simp
next
  case (Cons p ps)
  show ?case
  proof (cases "seen_key p")
    case (Inl e)
    then show ?thesis by auto
  next
    case k: (Inr k)
    show ?thesis
    proof (cases "k \<in> set seen")
      case True
      then have "good p" using Cons.prems(1,4) k by (auto simp: recorded_def)
      with True k Cons.IH [of d seen m] Cons.prems show ?thesis by auto
    next
      case False
      show ?thesis
      proof (cases "stmt t p d")
        case (Inl e)
        then have "\<not> good p" using stmt_live [of p d k t] Cons.prems k by auto
        then show ?thesis using Inl False k by auto
      next
        case (Inr r)
        then obtain d1 i where st: "stmt t p d = Inr (d1, i)" by (cases r) auto
        have g: "good p" using stmt_live [of p d k t] Cons.prems k st by auto
        have 1: "db_ok d1" "grows d d1" using stmt_ok [of p d k t d1 i] Cons.prems k st by auto
        have 2: "base d1" using base_mono [OF Cons.prems(3) grows_covers] 1 by blast
        have 3: "recorded (k # seen) (m(rkey p \<mapsto> i)) d1"
          using recorded_step [of seen m d p k t d1 i] Cons.prems k st by auto
        have "loop t seen m d (p # ps) = loop t (k # seen) (m(rkey p \<mapsto> i)) d1 ps"
          using st k False by simp
        then show ?thesis
          using Cons.IH [OF _ 1(1) 2 3] Cons.prems(1) g k
          by (simp del: upsert_all.simps fun_upd_apply)
      qed
    qed
  qed
qed

lemma loop_live:
  assumes "\<And>p. here p \<longleftrightarrow> p \<in> set ps" and "db_ok d" "base d"
  shows "(\<exists>d' m'. loop t [] Map.empty d ps = Inr (d', m')) \<longleftrightarrow> (\<forall>p \<in> set ps. (\<exists>k. seen_key p = Inr k) \<and> good p)"
  using loop_live_aux [of ps d "[]" Map.empty t] assms recorded_Nil by auto

text \<open>Run again over a database that holds the rows of a completed run, the loop changes nothing
  and returns the same ids.\<close>

lemma loop_replay:
  assumes "loop t seen m d ps = Inr (d', m')" and "\<forall>p \<in> set ps. here p" and "db_ok d" "base d"
    and "covers d' e" "db_ok e" "base e"
  shows "loop t' seen m e ps = Inr (e, m') \<and> covers d d'"
  using assms(1-4)
proof (induction ps arbitrary: seen m d)
  case Nil
  then show ?case by (simp add: covers_def)
next
  case (Cons p ps)
  from Cons.prems(1) obtain k where k: "seen_key p = Inr k" by (auto split: sum.splits)
  show ?case
  proof (cases "k \<in> set seen")
    case True
    with Cons k show ?thesis by auto
  next
    case False
    then obtain d1 i where st: "stmt t p d = Inr (d1, i)"
      using Cons.prems(1) k by (auto split: sum.splits)
    then have l: "loop t (k # seen) (m(rkey p \<mapsto> i)) d1 ps = Inr (d', m')"
      using Cons.prems(1) k False by simp
    have 1: "db_ok d1" "grows d d1" "row_in k i d1" "good p"
      using stmt_ok [of p d k t d1 i] stmt_live [of p d k t] Cons.prems k st by auto
    have 2: "base d1" using base_mono [OF Cons.prems(4) grows_covers] 1 by blast
    have IH: "loop t' (k # seen) (m(rkey p \<mapsto> i)) e ps = Inr (e, m') \<and> covers d1 d'"
      using Cons.IH [OF l _ 1(1) 2] Cons.prems(2) by (simp del: fun_upd_apply)
    then have "row_in k i e"
      using row_mono [OF 1(3)] assms(5) covers_trans by blast
    then have "stmt t' p e = Inr (e, i)"
      using stmt_again [of p e k i t'] Cons.prems(2) assms(6,7) k 1(4) by simp
    with IH k False 1(2) show ?thesis by (auto intro: covers_trans grows_covers)
  qed
qed

end

end
