(* ===== verification/Flush.thy ===== *)
theory Flush
  imports Upsert
begin

text \<open>
  The flush function of the ingest pipeline, \<^verbatim>\<open>internal/ingest/flush.go\<close> and
  \<^verbatim>\<open>internal/ingest/cache.go\<close>.

  A flush runs in one transaction: on every error the deferred \<open>Rollback\<close> discards its
  writes, so the database it leaves is the one it found.  The statements of a flush read the rows
  earlier statements of the same transaction wrote; rows another transaction commits in between
  only matter through the race of \<open>upsert_stale_snapshot\<close>, which is one of the failures the
  oracle \<open>ft\<close> covers.  The clock is read once per flush (\<open>now\<close>).

  \<open>flusher\<close> holds what the object and its surroundings keep between flushes: the EWMA
  states, the files of the dead-letter directory and the Redis hashes of the active conferences.
\<close>

subsection \<open>State\<close>

record ewmaState =
  ePacketLossRate :: rat
  eJitterMs :: rat
  eRTTMs :: rat
  eBitrateIn :: rat
  eBitrateOut :: rat
  lastSeen :: instant

record conf_cache =
  participant_count :: nat
  last_event_ts :: int
  cache_expires :: "instant option"

record Flusher =
  ewma_states :: "string \<rightharpoonup> ewmaState"
  dead_letters :: "string \<rightharpoonup> IngestPayload list"
  rdb :: "(string \<rightharpoonup> conf_cache) option"

definition New_Flusher :: "(string \<rightharpoonup> conf_cache) option \<Rightarrow> (string \<rightharpoonup> IngestPayload list) \<Rightarrow> Flusher" where
  "New_Flusher redis files = \<lparr>ewma_states = Map.empty, dead_letters = files, rdb = redis\<rparr>"

definition getd :: "(string \<rightharpoonup> int) \<Rightarrow> string \<Rightarrow> int" where
  "getd m k = (case m k of None \<Rightarrow> 0 | Some v \<Rightarrow> v)"

definition participantKey :: "int \<Rightarrow> string \<Rightarrow> string" where
  "participantKey confDBID userID = FormatInt confDBID @ ''::'' @ userID"

text \<open>\<open>time.Unix(0, ts*int64(time.Millisecond))\<close>: the product wraps at 64 bits.\<close>

definition ts_instant :: "int \<Rightarrow> instant" where
  "ts_instant ts = i64 (ts * 1000000)"

subsection \<open>The entity hierarchy\<close>

definition conferenceStmt :: "faults \<Rightarrow> instant \<Rightarrow> int \<Rightarrow> string \<Rightarrow> database \<Rightarrow> flush_error + (database \<times> int)" where
  "conferenceStmt ft now app ext d =
     (case insert_or_select (ft (''conference '' @ ext) \<or> \<not> pg_text ext)
             (app \<in> set (map app_id (apps d)))
             (\<lambda>c. (conf_app_id c, conf_external_id c)) conf_id (app, ext)
             (\<lambda>i. \<lparr>conf_id = i, conf_app_id = app, conf_external_id = ext,
                  conf_started_at = pg_time now, conf_ended_at = None, conf_participant_count = 0\<rparr>)
             (next_conf d) (conferences d) of
        None \<Rightarrow> Inl (ConferenceErr ext)
      | Some (i, nxt, rows) \<Rightarrow> Inr (d\<lparr>conferences := rows, next_conf := nxt\<rparr>, i))"

definition parse_app :: "IngestPayload \<Rightarrow> flush_error + int" where
  "parse_app p = (case ParseInt (AppID p) of None \<Rightarrow> Inl (InvalidAppID (AppID p)) | Some a \<Rightarrow> Inr a)"

definition conf_seen :: "IngestPayload \<Rightarrow> flush_error + (int \<times> string)" where
  "conf_seen p = (case parse_app p of Inl e \<Rightarrow> Inl e | Inr a \<Rightarrow> Inr (a, ConferenceID p))"

definition app_of :: "IngestPayload \<Rightarrow> int" where
  "app_of p = (case ParseInt (AppID p) of None \<Rightarrow> 0 | Some a \<Rightarrow> a)"

definition upsertConferences ::
  "faults \<Rightarrow> instant \<Rightarrow> IngestPayload list \<Rightarrow> database \<Rightarrow> flush_error + (database \<times> (string \<rightharpoonup> int))" where
  "upsertConferences ft now batch d =
     upsert_all conf_seen ConferenceID
       (\<lambda>p. conferenceStmt ft now (app_of p) (ConferenceID p)) [] Map.empty d batch"

definition participantStmt :: "faults \<Rightarrow> instant \<Rightarrow> int \<Rightarrow> string \<Rightarrow> database \<Rightarrow> flush_error + (database \<times> int)" where
  "participantStmt ft now conf user d =
     (case insert_or_select (ft (''participant '' @ user) \<or> \<not> pg_text user)
             (conf \<in> set (map conf_id (conferences d)))
             (\<lambda>p. (part_conference_id p, part_user_id p)) part_id (conf, user)
             (\<lambda>i. \<lparr>part_id = i, part_conference_id = conf, part_user_id = user,
                  part_joined_at = pg_time now, part_display_name = [], part_left_at = None\<rparr>)
             (next_part d) (participants d) of
        None \<Rightarrow> Inl (ParticipantErr conf user)
      | Some (i, nxt, rows) \<Rightarrow> Inr (d\<lparr>participants := rows, next_part := nxt\<rparr>, i))"

definition upsertParticipants ::
  "faults \<Rightarrow> instant \<Rightarrow> IngestPayload list \<Rightarrow> (string \<rightharpoonup> int) \<Rightarrow> database
     \<Rightarrow> flush_error + (database \<times> (string \<rightharpoonup> int))" where
  "upsertParticipants ft now batch confIDs d =
     upsert_all (\<lambda>p. Inr (getd confIDs (ConferenceID p), UserID p))
       (\<lambda>p. participantKey (getd confIDs (ConferenceID p)) (UserID p))
       (\<lambda>p. participantStmt ft now (getd confIDs (ConferenceID p)) (UserID p)) [] Map.empty d batch"

definition sessionStmt :: "faults \<Rightarrow> int \<Rightarrow> string \<Rightarrow> database \<Rightarrow> flush_error + (database \<times> int)" where
  "sessionStmt ft part ext d =
     (case insert_or_select (ft (''session '' @ ext) \<or> \<not> pg_text ext)
             (part \<in> set (map part_id (participants d)))
             sess_external_id sess_id ext
             (\<lambda>i. \<lparr>sess_id = i, sess_participant_id = part, sess_external_id = ext, sess_browser = [], sess_os = [], sess_country = [], sess_city = [], sess_network_type = []\<rparr>)
             (next_sess d) (sessions d) of
        None \<Rightarrow> Inl (SessionErr ext)
      | Some (i, nxt, rows) \<Rightarrow> Inr (d\<lparr>sessions := rows, next_sess := nxt\<rparr>, i))"

definition part_of :: "(string \<rightharpoonup> int) \<Rightarrow> (string \<rightharpoonup> int) \<Rightarrow> IngestPayload \<Rightarrow> int" where
  "part_of partIDs confIDs p = getd partIDs (participantKey (getd confIDs (ConferenceID p)) (UserID p))"

definition upsertSessions ::
  "faults \<Rightarrow> IngestPayload list \<Rightarrow> (string \<rightharpoonup> int) \<Rightarrow> (string \<rightharpoonup> int) \<Rightarrow> database
     \<Rightarrow> flush_error + (database \<times> (string \<rightharpoonup> int))" where
  "upsertSessions ft batch partIDs confIDs d =
     upsert_all (\<lambda>p. Inr (SessionID p)) SessionID
       (\<lambda>p. sessionStmt ft (part_of partIDs confIDs p) (SessionID p)) [] Map.empty d batch"

fun min_events :: "int option \<Rightarrow> StatSnapshot list \<Rightarrow> int option" where
  "min_events cur [] = cur"
| "min_events cur (ev # evs) =
     min_events (case cur of None \<Rightarrow> Some (TS ev) | Some c \<Rightarrow> if TS ev < c then Some (TS ev) else Some c) evs"

fun minTS :: "(string \<rightharpoonup> int) \<Rightarrow> IngestPayload list \<Rightarrow> (string \<rightharpoonup> int)" where
  "minTS m [] = m"
| "minTS m (p # ps) = minTS (m(ConnectionID p := min_events (m (ConnectionID p)) (Events p))) ps"

definition connectionStmt :: "faults \<Rightarrow> int \<Rightarrow> string \<Rightarrow> instant \<Rightarrow> database \<Rightarrow> flush_error + (database \<times> int)" where
  "connectionStmt ft sess ext startedAt d =
     (case insert_or_select (ft (''connection '' @ ext) \<or> \<not> pg_text ext)
             (sess \<in> set (map sess_id (sessions d)))
             conn_external_id conn_id ext
             (\<lambda>i. \<lparr>conn_id = i, conn_session_id = sess, conn_external_id = ext,
                  conn_started_at = pg_time startedAt, conn_peer_id = [], conn_ended_at = None, conn_ice_state = [], conn_codec_audio = [], conn_codec_video = []\<rparr>)
             (next_conn d) (connections d) of
        None \<Rightarrow> Inl (ConnectionErr ext)
      | Some (i, nxt, rows) \<Rightarrow> Inr (d\<lparr>connections := rows, next_conn := nxt\<rparr>, i))"

definition upsertConnections ::
  "faults \<Rightarrow> IngestPayload list \<Rightarrow> (string \<rightharpoonup> int) \<Rightarrow> database
     \<Rightarrow> flush_error + (database \<times> (string \<rightharpoonup> int))" where
  "upsertConnections ft batch sessIDs d =
     (let mts = minTS Map.empty batch in
      upsert_all (\<lambda>p. Inr (ConnectionID p)) ConnectionID
        (\<lambda>p. connectionStmt ft (getd sessIDs (SessionID p)) (ConnectionID p)
               (ts_instant (getd mts (ConnectionID p)))) [] Map.empty d batch)"

subsection \<open>EWMA and statistics rows\<close>

definition ewmaAlpha :: rat where
  "ewmaAlpha = f64 (1 / 5)"

definition ewmaBeta :: rat where
  "ewmaBeta = f64 (4 / 5)"

definition ewmaStateTTL :: int where
  "ewmaStateTTL = 3600 * 1000000000"

definition smooth :: "rat \<Rightarrow> rat \<Rightarrow> rat" where
  "smooth raw s = f64 (f64 (ewmaAlpha * raw) + f64 (ewmaBeta * s))"

definition ewma_update :: "instant \<Rightarrow> StatSnapshot \<Rightarrow> ewmaState \<Rightarrow> ewmaState" where
  "ewma_update now raw s =
     \<lparr>ePacketLossRate = smooth (PacketLossRate raw) (ePacketLossRate s),
      eJitterMs = smooth (JitterMs raw) (eJitterMs s),
      eRTTMs = smooth (RTTMs raw) (eRTTMs s),
      eBitrateIn = smooth (BitrateInKbps raw) (eBitrateIn s),
      eBitrateOut = smooth (BitrateOutKbps raw) (eBitrateOut s),
      lastSeen = now\<rparr>"

definition newEWMA :: "instant \<Rightarrow> StatSnapshot \<Rightarrow> ewmaState" where
  "newEWMA now raw =
     \<lparr>ePacketLossRate = PacketLossRate raw, eJitterMs = JitterMs raw, eRTTMs = RTTMs raw,
      eBitrateIn = BitrateInKbps raw, eBitrateOut = BitrateOutKbps raw, lastSeen = now\<rparr>"

definition evict :: "instant \<Rightarrow> (string \<rightharpoonup> ewmaState) \<Rightarrow> (string \<rightharpoonup> ewmaState)" where
  "evict now m =
     (\<lambda>k. case m k of None \<Rightarrow> None | Some s \<Rightarrow> if lastSeen s < now - ewmaStateTTL then None else Some s)"

definition source_of :: "IngestPayload \<Rightarrow> string" where
  "source_of p = (if Source p = [] then ''browser'' else Source p)"

definition ewmaKey :: "IngestPayload \<Rightarrow> string" where
  "ewmaKey p = ConnectionID p @ ''|'' @ source_of p"

definition ewma_step :: "instant \<Rightarrow> ewmaState option \<Rightarrow> StatSnapshot \<Rightarrow> ewmaState" where
  "ewma_step now st ev = (case st of None \<Rightarrow> newEWMA now ev | Some s \<Rightarrow> ewma_update now ev s)"

definition stat_row :: "int \<Rightarrow> string \<Rightarrow> StatSnapshot \<Rightarrow> ewmaState \<Rightarrow> stats_row" where
  "stat_row connDBID source ev state =
     \<lparr>cs_connection_id = connDBID, cs_ts = pg_time (ts_instant (TS ev)), cs_source = source,
      cs_packets_lost_rate = f32 (PacketLossRate ev), cs_jitter_ms = f32 (JitterMs ev),
      cs_rtt_ms = f32 (RTTMs ev),
      cs_bitrate_in_kbps = go_int32 (BitrateInKbps ev), cs_bitrate_out_kbps = go_int32 (BitrateOutKbps ev),
      cs_ewma_packets_lost_rate = f32 (ePacketLossRate state), cs_ewma_jitter_ms = f32 (eJitterMs state),
      cs_ewma_rtt_ms = f32 (eRTTMs state), cs_ewma_bitrate_in_kbps = f32 (eBitrateIn state),
      cs_ewma_bitrate_out_kbps = f32 (eBitrateOut state),
      cs_fps = go_int32 (FPS ev), cs_frame_width = i32 (FrameWidth ev),
      cs_frame_height = i32 (FrameHeight ev),
      cs_audio_level = f32 (AudioLevel ev), cs_concealment_ratio = f32 (ConcealmentRatio ev)\<rparr>"

fun event_rows ::
  "instant \<Rightarrow> int \<Rightarrow> string \<Rightarrow> string \<Rightarrow> (string \<rightharpoonup> ewmaState) \<Rightarrow> StatSnapshot list
     \<Rightarrow> stats_row list \<times> (string \<rightharpoonup> ewmaState)" where
  "event_rows now conn source key m [] = ([], m)"
| "event_rows now conn source key m (ev # evs) =
     (let state = ewma_step now (m key) ev;
          (rows, m') = event_rows now conn source key (m(key \<mapsto> state)) evs
      in (stat_row conn source ev state # rows, m'))"

fun payload_rows ::
  "instant \<Rightarrow> (string \<rightharpoonup> int) \<Rightarrow> (string \<rightharpoonup> ewmaState) \<Rightarrow> IngestPayload list
     \<Rightarrow> stats_row list \<times> (string \<rightharpoonup> ewmaState)" where
  "payload_rows now connIDs m [] = ([], m)"
| "payload_rows now connIDs m (p # ps) =
     (let (rows, m1) = event_rows now (getd connIDs (ConnectionID p)) (source_of p) (ewmaKey p) m (Events p);
          (rows', m2) = payload_rows now connIDs m1 ps
      in (rows @ rows', m2))"

definition buildStatRows ::
  "instant \<Rightarrow> IngestPayload list \<Rightarrow> (string \<rightharpoonup> int) \<Rightarrow> (string \<rightharpoonup> ewmaState)
     \<Rightarrow> stats_row list \<times> (string \<rightharpoonup> ewmaState)" where
  "buildStatRows now batch connIDs m = payload_rows now connIDs (evict now m) batch"

definition CopyFrom :: "faults \<Rightarrow> stats_row list \<Rightarrow> database \<Rightarrow> database option" where
  "CopyFrom ft rows d =
     (if ft ''copy from''
        \<or> (\<exists>r \<in> set rows. \<not> accepts (partitions d) (cs_ts r)
              \<or> cs_connection_id r \<notin> set (map conn_id (connections d)) \<or> \<not> pg_text (cs_source r))
      then None else Some (d\<lparr>connection_stats := connection_stats d @ rows\<rparr>))"

subsection \<open>The flush transaction\<close>

definition flush_entities ::
  "faults \<Rightarrow> instant \<Rightarrow> IngestPayload list \<Rightarrow> database \<Rightarrow> flush_error + (database \<times> (string \<rightharpoonup> int))" where
  "flush_entities ft now batch d =
     (if ft ''begin tx'' then Inl BeginTx
      else case upsertConferences ft now batch d of
        Inl e \<Rightarrow> Inl e
      | Inr (d1, confIDs) \<Rightarrow>
      case upsertParticipants ft now batch confIDs d1 of
        Inl e \<Rightarrow> Inl e
      | Inr (d2, partIDs) \<Rightarrow>
      case upsertSessions ft batch partIDs confIDs d2 of
        Inl e \<Rightarrow> Inl e
      | Inr (d3, sessIDs) \<Rightarrow> upsertConnections ft batch sessIDs d3)"

definition flush ::
  "faults \<Rightarrow> instant \<Rightarrow> IngestPayload list \<Rightarrow> Flusher \<Rightarrow> database \<Rightarrow> flush_error option \<times> Flusher \<times> database" where
  "flush ft now batch f d =
     (case flush_entities ft now batch d of
        Inl e \<Rightarrow> (Some e, f, d)
      | Inr (d4, connIDs) \<Rightarrow>
          let (rows, m) = buildStatRows now batch connIDs (ewma_states f); f' = f\<lparr>ewma_states := m\<rparr> in
          case CopyFrom ft rows d4 of
            None \<Rightarrow> (Some CopyFromErr, f', d)
          | Some d5 \<Rightarrow> if ft ''commit'' then (Some CommitErr, f', d) else (None, f', d5))"

definition dead_letter_name :: "instant \<Rightarrow> string" where
  "dead_letter_name now = ''dead_'' @ FormatInt now @ ''.json''"

definition writeDeadLetter :: "faults \<Rightarrow> instant \<Rightarrow> IngestPayload list \<Rightarrow> Flusher \<Rightarrow> Flusher" where
  "writeDeadLetter ft now batch f =
     (if ft ''ingest: dead-letter: cannot create dir'' then f
      else if ft ''ingest: dead-letter: cannot marshal batch'' then f
      else if ft ''ingest: dead-letter: write failed'' then f
      else f\<lparr>dead_letters := (dead_letters f)(dead_letter_name now \<mapsto> batch)\<rparr>)"

subsection \<open>The cache of active conferences\<close>

definition cacheTTL :: int where
  "cacheTTL = 600 * 1000000000"

record confStats =
  maxTS :: int
  userIDs :: "string list"

definition cache_key :: "IngestPayload \<Rightarrow> string" where
  "cache_key p = AppID p @ '':'' @ ConferenceID p"

fun max_events :: "int \<Rightarrow> StatSnapshot list \<Rightarrow> int" where
  "max_events m [] = m"
| "max_events m (ev # evs) = max_events (if TS ev > m then TS ev else m) evs"

definition stats_add :: "IngestPayload \<Rightarrow> confStats option \<Rightarrow> confStats" where
  "stats_add p so =
     (let s = (case so of None \<Rightarrow> \<lparr>maxTS = 0, userIDs = []\<rparr> | Some s \<Rightarrow> s)
      in \<lparr>maxTS = max_events (maxTS s) (Events p), userIDs = List.insert (UserID p) (userIDs s)\<rparr>)"

fun conf_stats :: "(string \<rightharpoonup> confStats) \<Rightarrow> IngestPayload list \<Rightarrow> (string \<rightharpoonup> confStats)" where
  "conf_stats m [] = m"
| "conf_stats m (p # ps) = conf_stats (m(cache_key p \<mapsto> stats_add p (m (cache_key p)))) ps"

text \<open>The commands of the pipeline reach the server one by one, so a connection that breaks
  during \<open>Exec\<close> may leave some of them applied: each command has its own oracle label.
  \<open>HSET\<close> keeps the expiry a live key has; \<open>EXPIRE\<close> acts on existing keys only.\<close>

definition live :: "instant \<Rightarrow> conf_cache option \<Rightarrow> conf_cache option" where
  "live now e = (case e of None \<Rightarrow> None
     | Some c \<Rightarrow> (case cache_expires c of None \<Rightarrow> Some c | Some t \<Rightarrow> if t \<le> now then None else Some c))"

definition HSet_conf :: "instant \<Rightarrow> confStats \<Rightarrow> conf_cache option \<Rightarrow> conf_cache option" where
  "HSet_conf now s e =
     Some \<lparr>participant_count = length (userIDs s), last_event_ts = maxTS s,
           cache_expires = (case live now e of None \<Rightarrow> None | Some c \<Rightarrow> cache_expires c)\<rparr>"

definition Expire_conf :: "instant \<Rightarrow> conf_cache option \<Rightarrow> conf_cache option" where
  "Expire_conf now e = map_option (\<lambda>c. c\<lparr>cache_expires := Some (now + cacheTTL)\<rparr>) (live now e)"

definition apply_key :: "faults \<Rightarrow> instant \<Rightarrow> string \<Rightarrow> confStats \<Rightarrow> (string \<rightharpoonup> conf_cache) \<Rightarrow> (string \<rightharpoonup> conf_cache)" where
  "apply_key ft now k s m =
     (let e = m k;
          e1 = (if ft (''HSET '' @ k) then e else HSet_conf now s e);
          e2 = (if ft (''EXPIRE '' @ k) then e1 else Expire_conf now e1)
      in m(k := e2))"

definition updateCache :: "faults \<Rightarrow> instant \<Rightarrow> IngestPayload list \<Rightarrow> Flusher \<Rightarrow> Flusher" where
  "updateCache ft now batch f =
     (let stats = conf_stats Map.empty batch in
      case rdb f of
        None \<Rightarrow> f
      | Some m \<Rightarrow>
          f\<lparr>rdb := Some (fold (\<lambda>key m'. case stats key of None \<Rightarrow> m'
                                   | Some s \<Rightarrow> apply_key ft now (''active_conf:'' @ key) s m')
                         (remdups (map cache_key batch)) m)\<rparr>)"

definition Flush :: "faults \<Rightarrow> instant \<Rightarrow> IngestPayload list \<Rightarrow> Flusher \<Rightarrow> database \<Rightarrow> Flusher \<times> database" where
  "Flush ft now batch f d =
     (if batch = [] then (f, d)
      else case flush ft now batch f d of
             (Some e, f', d') \<Rightarrow> (writeDeadLetter ft now batch f', d')
           | (None, f', d') \<Rightarrow> (updateCache ft now batch f', d'))"

subsection \<open>The statements meet the contract of the loop\<close>

lemma idle_update [simp]:
  "d\<lparr>conferences := conferences d, next_conf := next_conf d\<rparr> = d"
  "d\<lparr>participants := participants d, next_part := next_part d\<rparr> = d"
  "d\<lparr>sessions := sessions d, next_sess := next_sess d\<rparr> = d"
  "d\<lparr>connections := connections d, next_conn := next_conn d\<rparr> = d"
  by simp_all

lemma some_pair_iff: "(\<exists>a b. (case x of None \<Rightarrow> Inl e | Some (i, n, r) \<Rightarrow> Inr (f n r, i)) = Inr (a, b)) \<longleftrightarrow> (\<exists>y. x = Some y)"
  by (auto split: option.splits)

lemma conferenceStmt_laws:
  assumes ok: "db_ok d"
  shows "conferenceStmt ft now app ext d = Inr (d', i) \<Longrightarrow> db_ok d' \<and> grows d d' \<and> conf_in (app, ext) i d'"
    and "(\<exists>d' i. conferenceStmt ft now app ext d = Inr (d', i))
           \<longleftrightarrow> \<not> ft (''conference '' @ ext) \<and> pg_text ext \<and> (app \<in> set (map app_id (apps d)) \<or> (\<exists>i. conf_in (app, ext) i d))"
    and "\<lbrakk>\<not> ft (''conference '' @ ext); pg_text ext; conf_in (app, ext) i d\<rbrakk> \<Longrightarrow> conferenceStmt ft now app ext d = Inr (d, i)"
proof -
  show "conferenceStmt ft now app ext d = Inr (d', i) \<Longrightarrow> db_ok d' \<and> grows d d' \<and> conf_in (app, ext) i d'"
    using ok db_ok_insert(1) [OF ok]
    by (auto simp: conferenceStmt_def grows_def covers_def conf_in_def dest!: insert_or_select_SomeD split: option.splits)
  show "(\<exists>d' i. conferenceStmt ft now app ext d = Inr (d', i))
           \<longleftrightarrow> \<not> ft (''conference '' @ ext) \<and> pg_text ext \<and> (app \<in> set (map app_id (apps d)) \<or> (\<exists>i. conf_in (app, ext) i d))"
    unfolding conferenceStmt_def some_pair_iff insert_or_select_iff by (auto simp: conf_in_def)
  show "\<lbrakk>\<not> ft (''conference '' @ ext); pg_text ext; conf_in (app, ext) i d\<rbrakk> \<Longrightarrow> conferenceStmt ft now app ext d = Inr (d, i)"
    by (auto simp: conferenceStmt_def conf_in_def insert_or_select_again [OF db_ok_tables(1) [OF ok]])
qed

lemma participantStmt_laws:
  assumes ok: "db_ok d"
  shows "participantStmt ft now conf user d = Inr (d', i) \<Longrightarrow> db_ok d' \<and> grows d d' \<and> part_in (conf, user) i d'"
    and "(\<exists>d' i. participantStmt ft now conf user d = Inr (d', i))
           \<longleftrightarrow> \<not> ft (''participant '' @ user) \<and> pg_text user \<and> (conf \<in> set (map conf_id (conferences d)) \<or> (\<exists>i. part_in (conf, user) i d))"
    and "\<lbrakk>\<not> ft (''participant '' @ user); pg_text user; part_in (conf, user) i d\<rbrakk> \<Longrightarrow> participantStmt ft now conf user d = Inr (d, i)"
proof -
  show "participantStmt ft now conf user d = Inr (d', i) \<Longrightarrow> db_ok d' \<and> grows d d' \<and> part_in (conf, user) i d'"
    using ok db_ok_insert(2) [OF ok]
    by (auto simp: participantStmt_def grows_def covers_def part_in_def dest!: insert_or_select_SomeD split: option.splits)
  show "(\<exists>d' i. participantStmt ft now conf user d = Inr (d', i))
           \<longleftrightarrow> \<not> ft (''participant '' @ user) \<and> pg_text user \<and> (conf \<in> set (map conf_id (conferences d)) \<or> (\<exists>i. part_in (conf, user) i d))"
    unfolding participantStmt_def some_pair_iff insert_or_select_iff by (auto simp: part_in_def)
  show "\<lbrakk>\<not> ft (''participant '' @ user); pg_text user; part_in (conf, user) i d\<rbrakk> \<Longrightarrow> participantStmt ft now conf user d = Inr (d, i)"
    by (auto simp: participantStmt_def part_in_def insert_or_select_again [OF db_ok_tables(2) [OF ok]])
qed

lemma sessionStmt_laws:
  assumes ok: "db_ok d"
  shows "sessionStmt ft part ext d = Inr (d', i) \<Longrightarrow> db_ok d' \<and> grows d d' \<and> sess_in ext i d'"
    and "(\<exists>d' i. sessionStmt ft part ext d = Inr (d', i))
           \<longleftrightarrow> \<not> ft (''session '' @ ext) \<and> pg_text ext \<and> (part \<in> set (map part_id (participants d)) \<or> (\<exists>i. sess_in ext i d))"
    and "\<lbrakk>\<not> ft (''session '' @ ext); pg_text ext; sess_in ext i d\<rbrakk> \<Longrightarrow> sessionStmt ft part ext d = Inr (d, i)"
proof -
  show "sessionStmt ft part ext d = Inr (d', i) \<Longrightarrow> db_ok d' \<and> grows d d' \<and> sess_in ext i d'"
    using ok db_ok_insert(3) [OF ok]
    by (auto simp: sessionStmt_def grows_def covers_def sess_in_def dest!: insert_or_select_SomeD split: option.splits)
  show "(\<exists>d' i. sessionStmt ft part ext d = Inr (d', i))
           \<longleftrightarrow> \<not> ft (''session '' @ ext) \<and> pg_text ext \<and> (part \<in> set (map part_id (participants d)) \<or> (\<exists>i. sess_in ext i d))"
    unfolding sessionStmt_def some_pair_iff insert_or_select_iff by (auto simp: sess_in_def)
  show "\<lbrakk>\<not> ft (''session '' @ ext); pg_text ext; sess_in ext i d\<rbrakk> \<Longrightarrow> sessionStmt ft part ext d = Inr (d, i)"
    by (auto simp: sessionStmt_def sess_in_def insert_or_select_again [OF db_ok_tables(3) [OF ok]])
qed

lemma connectionStmt_laws:
  assumes ok: "db_ok d"
  shows "connectionStmt ft sess ext t d = Inr (d', i) \<Longrightarrow> db_ok d' \<and> grows d d' \<and> conn_in ext i d'"
    and "(\<exists>d' i. connectionStmt ft sess ext t d = Inr (d', i))
           \<longleftrightarrow> \<not> ft (''connection '' @ ext) \<and> pg_text ext \<and> (sess \<in> set (map sess_id (sessions d)) \<or> (\<exists>i. conn_in ext i d))"
    and "\<lbrakk>\<not> ft (''connection '' @ ext); pg_text ext; conn_in ext i d\<rbrakk> \<Longrightarrow> connectionStmt ft sess ext t d = Inr (d, i)"
proof -
  show "connectionStmt ft sess ext t d = Inr (d', i) \<Longrightarrow> db_ok d' \<and> grows d d' \<and> conn_in ext i d'"
    using ok db_ok_insert(4) [OF ok]
    by (auto simp: connectionStmt_def grows_def covers_def conn_in_def dest!: insert_or_select_SomeD split: option.splits)
  show "(\<exists>d' i. connectionStmt ft sess ext t d = Inr (d', i))
           \<longleftrightarrow> \<not> ft (''connection '' @ ext) \<and> pg_text ext \<and> (sess \<in> set (map sess_id (sessions d)) \<or> (\<exists>i. conn_in ext i d))"
    unfolding connectionStmt_def some_pair_iff insert_or_select_iff by (auto simp: conn_in_def)
  show "\<lbrakk>\<not> ft (''connection '' @ ext); pg_text ext; conn_in ext i d\<rbrakk> \<Longrightarrow> connectionStmt ft sess ext t d = Inr (d, i)"
    by (auto simp: connectionStmt_def conn_in_def insert_or_select_again [OF db_ok_tables(4) [OF ok]])
qed

lemma participantKey_inject [simp]:
  "participantKey c u = participantKey c' u' \<longleftrightarrow> c = c' \<and> u = u'"
  using append_sep_inject [of "FormatInt c" "CHR '':''" "CHR '':'' # u" "FormatInt c'" "CHR '':'' # u'"]
  by (auto simp: participantKey_def)

lemma conf_seen_Inr: "conf_seen p = Inr k \<longleftrightarrow> ParseInt (AppID p) = Some (fst k) \<and> ConferenceID p = snd k"
  by (auto simp: conf_seen_def parse_app_def split: option.splits)

text \<open>What the later loops need of the earlier ones: the ids they look up are there.\<close>

definition confs_there :: "(string \<rightharpoonup> int) \<Rightarrow> IngestPayload list \<Rightarrow> database \<Rightarrow> bool" where
  "confs_there confIDs batch d \<longleftrightarrow>
     (\<forall>p \<in> set batch. getd confIDs (ConferenceID p) \<in> conf_id ` set (conferences d))"

definition parts_there :: "(string \<rightharpoonup> int) \<Rightarrow> (string \<rightharpoonup> int) \<Rightarrow> IngestPayload list \<Rightarrow> database \<Rightarrow> bool" where
  "parts_there partIDs confIDs batch d \<longleftrightarrow>
     (\<forall>p \<in> set batch. part_of partIDs confIDs p \<in> part_id ` set (participants d))"

definition sess_there :: "(string \<rightharpoonup> int) \<Rightarrow> IngestPayload list \<Rightarrow> database \<Rightarrow> bool" where
  "sess_there sessIDs batch d \<longleftrightarrow>
     (\<forall>p \<in> set batch. getd sessIDs (SessionID p) \<in> sess_id ` set (sessions d))"

lemma there_mono:
  assumes "covers d d'"
  shows "confs_there confIDs batch d \<Longrightarrow> confs_there confIDs batch d'"
    "parts_there partIDs confIDs batch d \<Longrightarrow> parts_there partIDs confIDs batch d'"
    "sess_there sessIDs batch d \<Longrightarrow> sess_there sessIDs batch d'"
  using assms unfolding covers_def confs_there_def parts_there_def sess_there_def by blast+

lemma conf_in_app: "db_ok d \<Longrightarrow> conf_in (a, e) i d \<Longrightarrow> a \<in> app_id ` set (apps d)"
  by (auto simp: conf_in_def db_ok_def image_subset_iff)

interpretation conf: upsert_contract conf_seen ConferenceID
    "\<lambda>now p. conferenceStmt ft now (app_of p) (ConferenceID p)" conf_in "\<lambda>p. p \<in> set batch"
    "\<lambda>d. map app_id (apps d) = as"
    "\<lambda>p. \<not> ft (''conference '' @ ConferenceID p) \<and> pg_text (ConferenceID p) \<and> app_of p \<in> set as"
  for ft batch as
proof (unfold_locales, goal_cases)
  case (1 p d k now d' i)
  then show ?case using conferenceStmt_laws(1) [of d ft now "app_of p" "ConferenceID p" d' i]
    by (cases k) (auto simp: conf_seen_Inr app_of_def)
next
  case (2 p d k now)
  have "app_of p \<in> set as" if "conf_in (app_of p, ConferenceID p) i d" for i
    using conf_in_app [OF 2(2) that] 2(3) by auto
  with 2 show ?case using conferenceStmt_laws(2) [of d ft now "app_of p" "ConferenceID p"] by auto
next
  case (3 p d k i now)
  then show ?case using conferenceStmt_laws(3) [of d ft "ConferenceID p" "app_of p" i now]
    by (cases k) (auto simp: conf_seen_Inr app_of_def)
qed (auto simp: covers_def conf_seen_Inr app_of_def intro: row_in_mono(1))

interpretation part: upsert_contract "\<lambda>p. Inr (getd confIDs (ConferenceID p), UserID p)"
    "\<lambda>p. participantKey (getd confIDs (ConferenceID p)) (UserID p)"
    "\<lambda>now p. participantStmt ft now (getd confIDs (ConferenceID p)) (UserID p)" part_in "\<lambda>p. p \<in> set batch"
    "confs_there confIDs batch" "\<lambda>p. \<not> ft (''participant '' @ UserID p) \<and> pg_text (UserID p)"
  for ft batch confIDs
proof (unfold_locales, goal_cases)
  case (1 p d k now d' i)
  then show ?case using participantStmt_laws(1) [of d ft now "getd confIDs (ConferenceID p)" "UserID p" d' i] by auto
next
  case (2 p d k now)
  then show ?case using participantStmt_laws(2) [of d ft now "getd confIDs (ConferenceID p)" "UserID p"]
    by (auto simp: confs_there_def)
next
  case (3 p d k i now)
  then show ?case using participantStmt_laws(3) [of d ft "UserID p" "getd confIDs (ConferenceID p)" i now] by auto
qed (auto intro: row_in_mono(2) there_mono)

interpretation sess: upsert_contract "\<lambda>p. Inr (SessionID p)" SessionID
    "\<lambda>_ p. sessionStmt ft (part_of partIDs confIDs p) (SessionID p)" sess_in "\<lambda>p. p \<in> set batch"
    "parts_there partIDs confIDs batch" "\<lambda>p. \<not> ft (''session '' @ SessionID p) \<and> pg_text (SessionID p)"
  for ft batch partIDs confIDs
proof (unfold_locales, goal_cases)
  case (1 p d k now d' i)
  then show ?case using sessionStmt_laws(1) [of d ft "part_of partIDs confIDs p" "SessionID p" d' i] by auto
next
  case (2 p d k now)
  then show ?case using sessionStmt_laws(2) [of d ft "part_of partIDs confIDs p" "SessionID p"]
    by (auto simp: parts_there_def)
next
  case (3 p d k i now)
  then show ?case using sessionStmt_laws(3) [of d ft "SessionID p" i "part_of partIDs confIDs p"] by auto
qed (auto intro: row_in_mono(3) there_mono)

interpretation conn: upsert_contract "\<lambda>p. Inr (ConnectionID p)" ConnectionID
    "\<lambda>_ p. connectionStmt ft (getd sessIDs (SessionID p)) (ConnectionID p)
           (ts_instant (getd mts (ConnectionID p)))" conn_in "\<lambda>p. p \<in> set batch"
    "sess_there sessIDs batch" "\<lambda>p. \<not> ft (''connection '' @ ConnectionID p) \<and> pg_text (ConnectionID p)"
  for ft batch sessIDs mts
proof (unfold_locales, goal_cases)
  case (1 p d k now d' i)
  then show ?case
    using connectionStmt_laws(1) [of d ft "getd sessIDs (SessionID p)" "ConnectionID p" _ d' i] by auto
next
  case (2 p d k now)
  then show ?case using connectionStmt_laws(2) [of d ft "getd sessIDs (SessionID p)" "ConnectionID p"]
    by (auto simp: sess_there_def)
next
  case (3 p d k i now)
  then show ?case using connectionStmt_laws(3) [of d ft "ConnectionID p" i "getd sessIDs (SessionID p)"] by auto
qed (auto intro: row_in_mono(4) there_mono)

subsection \<open>The four loops together\<close>

lemma upsertConferences_ok:
  assumes "upsertConferences ft now batch d = Inr (d', confIDs)" and "db_ok d"
  shows "db_ok d' \<and> grows d d' \<and> confs_there confIDs batch d'
    \<and> (\<forall>p \<in> set batch. (\<exists>a i. ParseInt (AppID p) = Some a \<and> conf_in (a, ConferenceID p) i d')
         \<and> (\<exists>q \<in> set batch. \<exists>a. ConferenceID q = ConferenceID p \<and> ParseInt (AppID q) = Some a
              \<and> conf_in (a, ConferenceID p) (getd confIDs (ConferenceID p)) d'))"
proof -
  note R = conf.loop_result [of ft now d batch d' confIDs batch "map app_id (apps d)",
      OF assms(1) [unfolded upsertConferences_def] refl assms(2) refl]
  have 1: "\<exists>a i. ParseInt (AppID p) = Some a \<and> conf_in (a, ConferenceID p) i d'" if "p \<in> set batch" for p
    using R(4) [OF that] by (auto simp: conf_seen_Inr)
  have 2: "\<exists>q \<in> set batch. \<exists>a. ConferenceID q = ConferenceID p \<and> ParseInt (AppID q) = Some a
      \<and> conf_in (a, ConferenceID p) (getd confIDs (ConferenceID p)) d'" if "p \<in> set batch" for p
    using R(5) [OF that] by (auto simp: conf_seen_Inr getd_def)
  have "confs_there confIDs batch d'"
    unfolding confs_there_def
  proof
    fix p assume "p \<in> set batch"
    from 2 [OF this] show "getd confIDs (ConferenceID p) \<in> conf_id ` set (conferences d')"
      by (force simp: conf_in_def)
  qed
  with R(1,3) 1 2 show ?thesis by blast
qed

lemma upsertParticipants_ok:
  assumes "upsertParticipants ft now batch confIDs d = Inr (d', partIDs)" and "db_ok d"
    and "confs_there confIDs batch d"
  shows "db_ok d' \<and> grows d d' \<and> parts_there partIDs confIDs batch d'
    \<and> (\<forall>p \<in> set batch. part_in (getd confIDs (ConferenceID p), UserID p) (part_of partIDs confIDs p) d')"
proof -
  note R = part.loop_result [of confIDs ft now d batch d' partIDs batch,
      OF assms(1) [unfolded upsertParticipants_def] refl assms(2,3)]
  have 1: "part_in (getd confIDs (ConferenceID p), UserID p) (part_of partIDs confIDs p) d'"
    if "p \<in> set batch" for p
    using R(5) [OF that] by (auto simp: part_of_def getd_def)
  then have "parts_there partIDs confIDs batch d'"
    unfolding parts_there_def by (force simp: part_in_def)
  with R(1,3) 1 show ?thesis by blast
qed

lemma upsertSessions_ok:
  assumes "upsertSessions ft batch partIDs confIDs d = Inr (d', sessIDs)" and "db_ok d"
    and "parts_there partIDs confIDs batch d"
  shows "db_ok d' \<and> grows d d' \<and> sess_there sessIDs batch d'
    \<and> (\<forall>p \<in> set batch. sess_in (SessionID p) (getd sessIDs (SessionID p)) d')"
proof -
  note R = sess.loop_result [of ft partIDs confIDs d batch d' sessIDs batch,
      OF assms(1) [unfolded upsertSessions_def] refl assms(2,3)]
  have 1: "sess_in (SessionID p) (getd sessIDs (SessionID p)) d'" if "p \<in> set batch" for p
    using R(5) [OF that] by (auto simp: getd_def)
  then have "sess_there sessIDs batch d'"
    unfolding sess_there_def by (force simp: sess_in_def)
  with R(1,3) 1 show ?thesis by blast
qed

lemma upsertConnections_ok:
  assumes "upsertConnections ft batch sessIDs d = Inr (d', connIDs)" and "db_ok d"
    and "sess_there sessIDs batch d"
  shows "db_ok d' \<and> grows d d'
    \<and> (\<forall>p \<in> set batch. conn_in (ConnectionID p) (getd connIDs (ConnectionID p)) d')"
proof -
  note R = conn.loop_result [of ft sessIDs "minTS Map.empty batch" d batch d' connIDs batch,
      OF assms(1) [unfolded upsertConnections_def Let_def] refl assms(2,3)]
  have 1: "conn_in (ConnectionID p) (getd connIDs (ConnectionID p)) d'" if "p \<in> set batch" for p
    using R(5) [OF that] by (auto simp: getd_def)
  with R(1,3) show ?thesis by blast
qed

text \<open>What a batch leaves behind for each of its payloads.\<close>

definition payload_stored :: "IngestPayload list \<Rightarrow> database \<Rightarrow> IngestPayload \<Rightarrow> bool" where
  "payload_stored batch d p \<longleftrightarrow>
     (\<exists>a i. ParseInt (AppID p) = Some a \<and> conf_in (a, ConferenceID p) i d)
   \<and> (\<exists>q \<in> set batch. \<exists>a i j. ConferenceID q = ConferenceID p \<and> ParseInt (AppID q) = Some a
        \<and> conf_in (a, ConferenceID p) i d \<and> part_in (i, UserID p) j d)
   \<and> (\<exists>i. sess_in (SessionID p) i d) \<and> (\<exists>i. conn_in (ConnectionID p) i d)"

lemma flush_entities_ok:
  assumes "flush_entities ft now batch d = Inr (d4, connIDs)" and "db_ok d"
  shows "db_ok d4 \<and> grows d d4 \<and> (\<forall>p \<in> set batch. payload_stored batch d4 p
     \<and> conn_in (ConnectionID p) (getd connIDs (ConnectionID p)) d4)"
proof -
  from assms(1) obtain d1 confIDs d2 partIDs d3 sessIDs where
    u: "upsertConferences ft now batch d = Inr (d1, confIDs)"
       "upsertParticipants ft now batch confIDs d1 = Inr (d2, partIDs)"
       "upsertSessions ft batch partIDs confIDs d2 = Inr (d3, sessIDs)"
       "upsertConnections ft batch sessIDs d3 = Inr (d4, connIDs)"
    by (auto simp: flush_entities_def split: if_splits sum.splits)
  note c = upsertConferences_ok [OF u(1) assms(2)]
  then have p: "db_ok d2 \<and> grows d1 d2 \<and> parts_there partIDs confIDs batch d2 \<and> (\<forall>p \<in> set batch.
      part_in (getd confIDs (ConferenceID p), UserID p) (part_of partIDs confIDs p) d2)"
    using upsertParticipants_ok [OF u(2)] by blast
  then have s: "db_ok d3 \<and> grows d2 d3 \<and> sess_there sessIDs batch d3
      \<and> (\<forall>p \<in> set batch. sess_in (SessionID p) (getd sessIDs (SessionID p)) d3)"
    using upsertSessions_ok [OF u(3)] by blast
  then have n: "db_ok d4 \<and> grows d3 d4 \<and> (\<forall>p \<in> set batch. conn_in (ConnectionID p) (getd connIDs (ConnectionID p)) d4)"
    using upsertConnections_ok [OF u(4)] by blast
  have g3: "grows d3 d4" using n by blast
  have g2: "grows d2 d4" using s grows_trans [OF _ g3] by blast
  have g1: "grows d1 d4" using p grows_trans [OF _ g2] by blast
  have g: "grows d d4" using c grows_trans [OF _ g1] by blast
  have "payload_stored batch d4 x" if x: "x \<in> set batch" for x
  proof -
    obtain a i where 1: "ParseInt (AppID x) = Some a" "conf_in (a, ConferenceID x) i d4"
      using c x row_in_mono(1) [OF grows_covers [OF g1]] by blast
    obtain q b where 2: "q \<in> set batch" "ConferenceID q = ConferenceID x" "ParseInt (AppID q) = Some b"
      "conf_in (b, ConferenceID x) (getd confIDs (ConferenceID x)) d4"
      using c x row_in_mono(1) [OF grows_covers [OF g1]] by blast
    have 3: "part_in (getd confIDs (ConferenceID x), UserID x) (part_of partIDs confIDs x) d4"
      using p x row_in_mono(2) [OF grows_covers [OF g2]] by blast
    have 4: "sess_in (SessionID x) (getd sessIDs (SessionID x)) d4"
      using s x row_in_mono(3) [OF grows_covers [OF g3]] by blast
    have 5: "conn_in (ConnectionID x) (getd connIDs (ConnectionID x)) d4"
      using n x by blast
    from 1 2 3 4 5 show ?thesis unfolding payload_stored_def by blast
  qed
  moreover have "db_ok d4" "\<forall>p \<in> set batch. conn_in (ConnectionID p) (getd connIDs (ConnectionID p)) d4"
    using n by blast+
  ultimately show ?thesis using g by blast
qed

definition payload_ok :: "faults \<Rightarrow> int list \<Rightarrow> IngestPayload \<Rightarrow> bool" where
  "payload_ok ft as p \<longleftrightarrow>
     (\<exists>a \<in> set as. ParseInt (AppID p) = Some a)
   \<and> pg_text (ConferenceID p) \<and> pg_text (UserID p) \<and> pg_text (SessionID p) \<and> pg_text (ConnectionID p)
   \<and> \<not> ft (''conference '' @ ConferenceID p) \<and> \<not> ft (''participant '' @ UserID p)
   \<and> \<not> ft (''session '' @ SessionID p) \<and> \<not> ft (''connection '' @ ConnectionID p)"

lemma flush_entities_iff:
  assumes "db_ok d"
  shows "(\<exists>d' m. flush_entities ft now batch d = Inr (d', m))
     \<longleftrightarrow> \<not> ft ''begin tx'' \<and> (\<forall>p \<in> set batch. payload_ok ft (map app_id (apps d)) p)"
proof -
  have C: "(\<exists>d' m. upsertConferences ft now batch d = Inr (d', m))
     \<longleftrightarrow> (\<forall>p \<in> set batch. (\<exists>a \<in> app_id ` set (apps d). ParseInt (AppID p) = Some a)
           \<and> \<not> ft (''conference '' @ ConferenceID p) \<and> pg_text (ConferenceID p))"
    unfolding upsertConferences_def conf.loop_live [OF refl assms refl]
    by (rule ball_cong) (auto simp: conf_seen_Inr app_of_def)
  show ?thesis
  proof (cases "upsertConferences ft now batch d")
    case (Inl e)
    with C show ?thesis by (auto simp: flush_entities_def payload_ok_def)
  next
    case (Inr r)
    then obtain d1 confIDs where 1: "upsertConferences ft now batch d = Inr (d1, confIDs)" by (cases r) auto
    then have C': "\<forall>p \<in> set batch. (\<exists>a \<in> app_id ` set (apps d). ParseInt (AppID p) = Some a)
           \<and> \<not> ft (''conference '' @ ConferenceID p) \<and> pg_text (ConferenceID p)" using C by blast
    have ok1: "db_ok d1" "confs_there confIDs batch d1" using upsertConferences_ok [OF 1 assms] by blast+
    have P: "(\<exists>d' m. upsertParticipants ft now batch confIDs d1 = Inr (d', m))
       \<longleftrightarrow> (\<forall>p \<in> set batch. \<not> ft (''participant '' @ UserID p) \<and> pg_text (UserID p))"
      unfolding upsertParticipants_def part.loop_live [OF refl ok1] by simp
    show ?thesis
    proof (cases "upsertParticipants ft now batch confIDs d1")
      case (Inl e)
      with 1 P show ?thesis by (auto simp: flush_entities_def payload_ok_def)
    next
      case (Inr r)
      then obtain d2 partIDs where 2: "upsertParticipants ft now batch confIDs d1 = Inr (d2, partIDs)" by (cases r) auto
      have ok2: "db_ok d2" "parts_there partIDs confIDs batch d2" using upsertParticipants_ok [OF 2 ok1] by blast+
      have S: "(\<exists>d' m. upsertSessions ft batch partIDs confIDs d2 = Inr (d', m))
         \<longleftrightarrow> (\<forall>p \<in> set batch. \<not> ft (''session '' @ SessionID p) \<and> pg_text (SessionID p))"
        unfolding upsertSessions_def sess.loop_live [OF refl ok2] by simp
      show ?thesis
      proof (cases "upsertSessions ft batch partIDs confIDs d2")
        case (Inl e)
        with 1 2 S show ?thesis by (auto simp: flush_entities_def payload_ok_def)
      next
        case (Inr r)
        then obtain d3 sessIDs where 3: "upsertSessions ft batch partIDs confIDs d2 = Inr (d3, sessIDs)" by (cases r) auto
        have ok3: "db_ok d3" "sess_there sessIDs batch d3" using upsertSessions_ok [OF 3 ok2] by blast+
        have N: "(\<exists>d' m. upsertConnections ft batch sessIDs d3 = Inr (d', m))
           \<longleftrightarrow> (\<forall>p \<in> set batch. \<not> ft (''connection '' @ ConnectionID p) \<and> pg_text (ConnectionID p))"
          unfolding upsertConnections_def Let_def conn.loop_live [OF refl ok3] by simp
        have "flush_entities ft now batch d
            = (if ft ''begin tx'' then Inl BeginTx else upsertConnections ft batch sessIDs d3)"
          using 1 2 3 by (simp add: flush_entities_def)
        moreover have "\<forall>p \<in> set batch. \<not> ft (''participant '' @ UserID p) \<and> pg_text (UserID p)"
            "\<forall>p \<in> set batch. \<not> ft (''session '' @ SessionID p) \<and> pg_text (SessionID p)"
          using P S 2 3 by blast+
        ultimately show ?thesis using C' N by (auto simp: payload_ok_def)
      qed
    qed
  qed
qed

lemma flush_entities_replay:
  assumes "flush_entities ft now batch d = Inr (d4, connIDs)" and "db_ok d"
    and "covers d4 e" and "db_ok e"
  shows "flush_entities ft now' batch e = Inr (e, connIDs)"
proof -
  from assms(1) obtain d1 confIDs d2 partIDs d3 sessIDs where
    u: "upsertConferences ft now batch d = Inr (d1, confIDs)"
       "upsertParticipants ft now batch confIDs d1 = Inr (d2, partIDs)"
       "upsertSessions ft batch partIDs confIDs d2 = Inr (d3, sessIDs)"
       "upsertConnections ft batch sessIDs d3 = Inr (d4, connIDs)" and "\<not> ft ''begin tx''"
    by (auto simp: flush_entities_def split: if_splits sum.splits)
  have 1: "db_ok d1" "confs_there confIDs batch d1" "grows d d1"
    using upsertConferences_ok [OF u(1) assms(2)] by blast+
  have 2: "db_ok d2" "parts_there partIDs confIDs batch d2" "grows d1 d2"
    using upsertParticipants_ok [OF u(2) 1(1,2)] by blast+
  have 3: "db_ok d3" "sess_there sessIDs batch d3" "grows d2 d3"
    using upsertSessions_ok [OF u(3) 2(1,2)] by blast+
  have 4: "db_ok d4" "grows d3 d4" using upsertConnections_ok [OF u(4) 3(1,2)] by blast+
  have c3: "covers d3 e" using covers_trans [OF grows_covers [OF 4(2)] assms(3)] .
  have c2: "covers d2 e" using covers_trans [OF grows_covers [OF 3(3)] c3] .
  have c1: "covers d1 e" using covers_trans [OF grows_covers [OF 2(3)] c2] .
  have app: "map app_id (apps e) = map app_id (apps d)" using c1 1(3) by (simp add: covers_def grows_def)
  have "upsertConferences ft now' batch e = Inr (e, confIDs)"
    using conf.loop_replay [where batch = batch, OF u(1) [unfolded upsertConferences_def] _ assms(2) refl c1 assms(4) app]
    by (simp add: upsertConferences_def)
  moreover have "upsertParticipants ft now' batch confIDs e = Inr (e, partIDs)"
    using part.loop_replay [OF u(2) [unfolded upsertParticipants_def] _ 1(1,2) c2 assms(4) there_mono(1) [OF c1 1(2)]]
    by (simp add: upsertParticipants_def)
  moreover have "upsertSessions ft batch partIDs confIDs e = Inr (e, sessIDs)"
    using sess.loop_replay [OF u(3) [unfolded upsertSessions_def] _ 2(1,2) c3 assms(4) there_mono(2) [OF c2 2(2)]]
    by (simp add: upsertSessions_def)
  moreover have "upsertConnections ft batch sessIDs e = Inr (e, connIDs)"
    using conn.loop_replay [OF u(4) [unfolded upsertConnections_def Let_def] _ 3(1,2) assms(3,4) there_mono(3) [OF c3 3(2)]]
    by (simp add: upsertConnections_def)
  ultimately show ?thesis using \<open>\<not> ft ''begin tx''\<close> by (simp add: flush_entities_def)
qed

subsection \<open>Statistics rows\<close>

definition row_tag :: "stats_row \<Rightarrow> int \<times> string \<times> instant" where
  "row_tag r = (cs_connection_id r, cs_source r, cs_ts r)"

definition payload_tags :: "(string \<rightharpoonup> int) \<Rightarrow> IngestPayload \<Rightarrow> (int \<times> string \<times> instant) list" where
  "payload_tags connIDs p =
     map (\<lambda>ev. (getd connIDs (ConnectionID p), source_of p, pg_time (ts_instant (TS ev)))) (Events p)"

lemma event_rows_tags:
  "map row_tag (fst (event_rows now conn source key m evs))
     = map (\<lambda>ev. (conn, source, pg_time (ts_instant (TS ev)))) evs"
  by (induction evs arbitrary: m) (simp_all add: row_tag_def stat_row_def case_prod_unfold Let_def)

lemma payload_rows_tags:
  "map row_tag (fst (payload_rows now connIDs m ps)) = concat (map (payload_tags connIDs) ps)"
proof (induction ps arbitrary: m)
  case (Cons p ps)
  have "map row_tag (fst (event_rows now (getd connIDs (ConnectionID p)) (source_of p) (ewmaKey p) m (Events p)))
      = payload_tags connIDs p"
    by (simp add: event_rows_tags payload_tags_def)
  with Cons show ?case by (simp add: case_prod_unfold Let_def)
qed simp

lemma buildStatRows_tags:
  "map row_tag (fst (buildStatRows now batch connIDs m)) = concat (map (payload_tags connIDs) batch)"
  by (simp add: buildStatRows_def payload_rows_tags)

lemma row_of_tags:
  assumes "r \<in> set (fst (buildStatRows now batch connIDs m))"
  shows "\<exists>p \<in> set batch. \<exists>ev \<in> set (Events p). cs_connection_id r = getd connIDs (ConnectionID p)
           \<and> cs_source r = source_of p \<and> cs_ts r = pg_time (ts_instant (TS ev))"
proof -
  have "row_tag r \<in> set (concat (map (payload_tags connIDs) batch))"
    using assms buildStatRows_tags [of now batch connIDs m] by (metis image_eqI list.set_map)
  then show ?thesis by (auto simp: payload_tags_def row_tag_def)
qed

lemma tags_of_row:
  assumes "p \<in> set batch" "ev \<in> set (Events p)"
  shows "\<exists>r \<in> set (fst (buildStatRows now batch connIDs m)).
     cs_source r = source_of p \<and> cs_ts r = pg_time (ts_instant (TS ev))"
proof -
  have "(getd connIDs (ConnectionID p), source_of p, pg_time (ts_instant (TS ev)))
      \<in> set (concat (map (payload_tags connIDs) batch))"
    using assms by (auto simp: payload_tags_def)
  then have "(getd connIDs (ConnectionID p), source_of p, pg_time (ts_instant (TS ev)))
      \<in> row_tag ` set (fst (buildStatRows now batch connIDs m))"
    by (metis buildStatRows_tags list.set_map)
  then show ?thesis by (auto simp: row_tag_def)
qed

subsection \<open>Outcome of a flush\<close>

definition event_ok :: "partition_row list \<Rightarrow> IngestPayload \<Rightarrow> bool" where
  "event_ok parts p \<longleftrightarrow>
     (\<forall>ev \<in> set (Events p). accepts parts (pg_time (ts_instant (TS ev))) \<and> pg_text (source_of p))"

lemma conn_in_id: "conn_in k i d \<Longrightarrow> i \<in> conn_id ` set (connections d)"
  by (force simp: conn_in_def)

lemma CopyFrom_built:
  assumes "flush_entities ft now batch d = Inr (d4, connIDs)" and "db_ok d"
  shows "CopyFrom ft (fst (buildStatRows now batch connIDs m)) d4
     = (if ft ''copy from'' \<or> (\<exists>p \<in> set batch. \<not> event_ok (partitions d) p) then None
        else Some (d4\<lparr>connection_stats := connection_stats d @ fst (buildStatRows now batch connIDs m)\<rparr>))"
proof -
  note E = flush_entities_ok [OF assms]
  have 1: "partitions d4 = partitions d" "connection_stats d4 = connection_stats d"
    using E by (auto simp: grows_def)
  have "(\<exists>r \<in> set (fst (buildStatRows now batch connIDs m)). \<not> accepts (partitions d4) (cs_ts r)
              \<or> cs_connection_id r \<notin> set (map conn_id (connections d4)) \<or> \<not> pg_text (cs_source r))
        \<longleftrightarrow> (\<exists>p \<in> set batch. \<not> event_ok (partitions d) p)" (is "?L \<longleftrightarrow> ?R")
  proof
    assume ?L
    then obtain r where r: "r \<in> set (fst (buildStatRows now batch connIDs m))"
      "\<not> accepts (partitions d4) (cs_ts r) \<or> cs_connection_id r \<notin> set (map conn_id (connections d4)) \<or> \<not> pg_text (cs_source r)"
      by blast
    from row_of_tags [OF r(1)] obtain p ev where p: "p \<in> set batch" "ev \<in> set (Events p)"
      "cs_connection_id r = getd connIDs (ConnectionID p)" "cs_source r = source_of p"
      "cs_ts r = pg_time (ts_instant (TS ev))" by blast
    have "cs_connection_id r \<in> set (map conn_id (connections d4))"
      using E p conn_in_id by (metis list.set_map)
    with r p 1 show ?R by (auto simp: event_ok_def)
  next
    assume ?R
    then obtain p ev where p: "p \<in> set batch" "ev \<in> set (Events p)"
      "\<not> accepts (partitions d4) (pg_time (ts_instant (TS ev))) \<or> \<not> pg_text (source_of p)"
      using 1 by (auto simp: event_ok_def)
    from tags_of_row [OF p(1,2), of now connIDs m] p(3) show ?L by metis
  qed
  then show ?thesis using 1 by (simp add: CopyFrom_def)
qed

lemma flush_built:
  assumes "flush_entities ft now batch d = Inr (d4, connIDs)" and "db_ok d"
  shows "flush ft now batch f d =
     (let (rows, m) = buildStatRows now batch connIDs (ewma_states f); f' = f\<lparr>ewma_states := m\<rparr> in
      if ft ''copy from'' \<or> (\<exists>p \<in> set batch. \<not> event_ok (partitions d) p) then (Some CopyFromErr, f', d)
      else if ft ''commit'' then (Some CommitErr, f', d)
      else (None, f', d4\<lparr>connection_stats := connection_stats d @ rows\<rparr>))"
  using CopyFrom_built [OF assms, of "ewma_states f"] assms(1)
  by (simp add: flush_def case_prod_unfold Let_def)

lemma db_ok_stats:
  "db_ok d \<Longrightarrow> cs_connection_id ` set rows \<subseteq> conn_id ` set (connections d)
     \<Longrightarrow> db_ok (d\<lparr>connection_stats := connection_stats d @ rows\<rparr>)"
  by (auto simp: db_ok_def)

lemma flush_SomeD: "flush ft now batch f d = (Some e, f', d') \<Longrightarrow> d' = d"
  by (auto simp: flush_def case_prod_unfold Let_def split: sum.splits option.splits if_splits)

lemma flush_NoneD:
  assumes "db_ok d" and "flush ft now batch f d = (None, f', d')"
  shows "db_ok d' \<and> covers d d' \<and> (\<forall>p \<in> set batch. payload_stored batch d' p)
       \<and> (\<exists>connIDs rows. connection_stats d' = connection_stats d @ rows
            \<and> (\<forall>p \<in> set batch. conn_in (ConnectionID p) (getd connIDs (ConnectionID p)) d')
            \<and> map row_tag rows = concat (map (payload_tags connIDs) batch))"
proof -
  from assms(2) obtain d4 connIDs where 4: "flush_entities ft now batch d = Inr (d4, connIDs)"
    by (auto simp: flush_def split: sum.splits)
  note E = flush_entities_ok [OF 4 assms(1)]
  let ?rows = "fst (buildStatRows now batch connIDs (ewma_states f))"
  have c: "cs_connection_id ` set ?rows \<subseteq> conn_id ` set (connections d4)"
  proof
    fix i assume "i \<in> cs_connection_id ` set ?rows"
    then obtain p where "p \<in> set batch" "i = getd connIDs (ConnectionID p)" using row_of_tags by blast
    with E conn_in_id show "i \<in> conn_id ` set (connections d4)" by blast
  qed
  let ?d5 = "d4\<lparr>connection_stats := connection_stats d @ ?rows\<rparr>"
  have st: "connection_stats d4 = connection_stats d" using E by (simp add: grows_def)
  have 5: "db_ok ?d5" using db_ok_stats [OF _ c] E st by simp
  have 6: "covers d ?d5" using E by (simp add: grows_def covers_def)
  have 7: "payload_stored batch ?d5 p" "conn_in (ConnectionID p) (getd connIDs (ConnectionID p)) ?d5"
    if "p \<in> set batch" for p
    using E that by (simp_all add: payload_stored_def row_in_defs)
  from assms(2) have "d' = ?d5"
    unfolding flush_built [OF 4 assms(1)] case_prod_unfold Let_def by (auto split: if_splits)
  with 5 6 7 show ?thesis using buildStatRows_tags [of now batch connIDs "ewma_states f"] by auto
qed

lemma flush_None_iff:
  assumes "db_ok d"
  shows "fst (flush ft now batch f d) = None \<longleftrightarrow>
     \<not> ft ''begin tx'' \<and> \<not> ft ''copy from'' \<and> \<not> ft ''commit''
     \<and> (\<forall>p \<in> set batch. payload_ok ft (map app_id (apps d)) p \<and> event_ok (partitions d) p)"
proof (cases "flush_entities ft now batch d")
  case (Inl e)
  then show ?thesis
    using flush_entities_iff [OF assms, of ft now batch] by (auto simp: flush_def)
next
  case (Inr r)
  then obtain d4 connIDs where 4: "flush_entities ft now batch d = Inr (d4, connIDs)" by (cases r) auto
  then show ?thesis
    using flush_entities_iff [OF assms, of ft now batch]
    unfolding flush_built [OF 4 assms] case_prod_unfold Let_def by auto
qed

text \<open>(C4) A flush is atomic and complete.  When it succeeds the database keeps its integrity and
  its rows, every payload has its conference, participant, session and connection row, and the
  statistics table grows by exactly one row per event, in batch order, each under the connection its
  payload names, with its source and timestamp.  When it fails the database is the one before.\<close>
theorem flush_atomic:
  assumes "db_ok d"
  shows "case flush ft now batch f d of
     (Some e, f', d') \<Rightarrow> d' = d
   | (None, f', d') \<Rightarrow> db_ok d' \<and> covers d d'
       \<and> (\<forall>p \<in> set batch. payload_stored batch d' p)
       \<and> (\<exists>connIDs rows. connection_stats d' = connection_stats d @ rows
            \<and> (\<forall>p \<in> set batch. conn_in (ConnectionID p) (getd connIDs (ConnectionID p)) d')
            \<and> map (\<lambda>r. (cs_connection_id r, cs_source r, cs_ts r)) rows
              = concat (map (\<lambda>p. map (\<lambda>ev. (getd connIDs (ConnectionID p), source_of p,
                                              pg_time (ts_instant (TS ev)))) (Events p)) batch))"
proof (cases "flush ft now batch f d")
  case (fields e f' d')
  then show ?thesis
    using flush_SomeD [of ft now batch f d _ f' d'] flush_NoneD [OF assms, of ft now batch f f' d']
    by (cases e) (auto simp: row_tag_def [abs_def] payload_tags_def [abs_def])
qed

text \<open>Sample data for the witnesses: one application, one partition, one payload.\<close>

definition sample_db :: database where
  "sample_db = empty_db\<lparr>
     apps := [\<lparr>app_id = 7, app_org_id = 1, retention_days = 90, observation_config = None,
               server_api_key = None, server_api_secret_enc = None, app_name = [], app_api_key_hash = [], app_created_at = 0, app_server_key_created_at = None\<rparr>,
              \<lparr>app_id = 8, app_org_id = 2, retention_days = 90, observation_config = None,
               server_api_key = None, server_api_secret_enc = None, app_name = [], app_api_key_hash = [], app_created_at = 0, app_server_key_created_at = None\<rparr>],
     partitions := [\<lparr>relname = ''connection_stats_1970_01'', range_from = 0,
                     range_to = 2678400 * 1000000000\<rparr>]\<rparr>"

definition sample_payload :: "string \<Rightarrow> string \<Rightarrow> int \<Rightarrow> IngestPayload" where
  "sample_payload app user t =
     \<lparr>AppID = app, UserID = user, Source = [], ConferenceID = ''c'', SessionID = ''s-'' @ user,
      ConnectionID = ''n-'' @ user, Events = [zero_snapshot\<lparr>TS := t\<rparr>]\<rparr>"

lemma sample_db_ok: "db_ok sample_db"
  unfolding sample_db_def by (simp add: db_ok_empty)

theorem flush_atomic_witness:
  "db_ok sample_db
   \<and> fst (flush (\<lambda>_. False) 5 [sample_payload ''7'' ''u'' 1000] (New_Flusher None Map.empty) sample_db) = None
   \<and> db_ok (snd (snd (flush (\<lambda>_. False) 5 [sample_payload ''7'' ''u'' 1000] (New_Flusher None Map.empty) sample_db)))"
proof -
  have "fst (flush (\<lambda>_. False) 5 [sample_payload ''7'' ''u'' 1000] (New_Flusher None Map.empty) sample_db) = None"
    by code_simp
  then show ?thesis
    using flush_atomic [OF sample_db_ok, where ft = "\<lambda>_. False" and now = 5
        and batch = "[sample_payload ''7'' ''u'' 1000]" and f = "New_Flusher None Map.empty"]
      sample_db_ok by (auto split: prod.splits)
qed

text \<open>(C6) When a flush succeeds: exactly if the transaction meets no fault, every payload names an
  existing application and storable identifiers, and every event falls into a partition of the
  statistics table.  One payload that does not is enough to fail the whole batch.\<close>
theorem flush_succeeds_iff:
  assumes "db_ok d"
  shows "fst (flush ft now batch f d) = None \<longleftrightarrow>
     \<not> ft ''begin tx'' \<and> \<not> ft ''copy from'' \<and> \<not> ft ''commit''
     \<and> (\<forall>p \<in> set batch. payload_ok ft (map app_id (apps d)) p \<and> event_ok (partitions d) p)"
  using flush_None_iff [OF assms] .

theorem flush_succeeds_iff_witness:
  "fst (flush (\<lambda>_. False) 5 [sample_payload ''7'' ''u'' 1000, sample_payload ''7'' ''v'' (- 1)]
          (New_Flusher None Map.empty) sample_db) \<noteq> None"
proof -
  have "\<not> event_ok (partitions sample_db) (sample_payload ''7'' ''v'' (- 1))" by code_simp
  then show ?thesis
    using flush_succeeds_iff [OF sample_db_ok, of "\<lambda>_. False" 5
        "[sample_payload ''7'' ''u'' 1000, sample_payload ''7'' ''v'' (- 1)]" "New_Flusher None Map.empty"]
    by simp
qed

lemma rdb_update [simp]: "rdb (f\<lparr>ewma_states := m\<rparr>) = rdb f" "dead_letters (f\<lparr>ewma_states := m\<rparr>) = dead_letters f"
  by simp_all

lemma flush_keeps:
  "rdb (fst (snd (flush ft now batch f d))) = rdb f"
  "dead_letters (fst (snd (flush ft now batch f d))) = dead_letters f"
  by (auto simp: flush_def case_prod_unfold Let_def split: sum.splits option.splits)

lemma updateCache_dead_letters: "dead_letters (updateCache ft now batch f) = dead_letters f"
  by (simp add: updateCache_def Let_def split: option.splits)

definition dead_letter_works :: "faults \<Rightarrow> bool" where
  "dead_letter_works ft \<longleftrightarrow> \<not> ft ''ingest: dead-letter: cannot create dir'' \<and> \<not> ft ''ingest: dead-letter: cannot marshal batch''
     \<and> \<not> ft ''ingest: dead-letter: write failed''"

lemma dead_letter_name_inject [simp]: "dead_letter_name s = dead_letter_name t \<longleftrightarrow> s = t"
  by (simp add: dead_letter_name_def)

lemma payload_stored_covers: "payload_stored b d p \<Longrightarrow> covers d d' \<Longrightarrow> payload_stored b d' p"
  unfolding payload_stored_def row_in_defs covers_def by blast

text \<open>The two outcomes of \<open>Flush\<close> as a case rule.\<close>

lemma Flush_cases:
  assumes "db_ok d" and "batch \<noteq> []" and "dead_letter_works ft" and "Flush ft now batch f d = (f', d')"
  obtains (stored) "db_ok d'" "covers d d'" "\<forall>p \<in> set batch. payload_stored batch d' p"
      "length (connection_stats d') = length (connection_stats d) + length (concat (map Events batch))" "dead_letters f' = dead_letters f"
  | (dead) "d' = d" "rdb f' = rdb f" "dead_letters f' = (dead_letters f)(dead_letter_name now \<mapsto> batch)"
proof (cases "flush ft now batch f d")
  case (fields e f1 d1)
  show ?thesis
  proof (cases e)
    case None
    then obtain connIDs rows where *: "db_ok d1" "covers d d1" "\<forall>p \<in> set batch. payload_stored batch d1 p"
      "connection_stats d1 = connection_stats d @ rows"
      "map row_tag rows = concat (map (payload_tags connIDs) batch)"
      using flush_NoneD [OF assms(1), of ft now batch f f1 d1] fields by auto
    have "length rows = length (concat (map Events batch))"
      using arg_cong [OF *(5), of length] by (simp add: length_concat payload_tags_def comp_def)
    with None fields * assms(2,4) show ?thesis
      using flush_keeps(2) [of ft now batch f d] by (intro stored) (auto simp: Flush_def updateCache_dead_letters)
  next
    case (Some err)
    with fields assms show ?thesis
      using flush_SomeD [of ft now batch f d err f1 d1] flush_keeps [of ft now batch f d]
      by (intro dead) (auto simp: Flush_def writeDeadLetter_def dead_letter_works_def)
  qed
qed



text \<open>(C7) Replaying a stored batch (a dead-letter file sent again, a client retry) creates no
  entity a second time: whatever was added in between, the entity tables stay as they are and
  only the statistics are appended once more.\<close>
theorem flush_replay:
  assumes "db_ok d" and "flush ft now batch f d = (None, f', d')"
    and "covers d' e" and "db_ok e" and "partitions e = partitions d"
  shows "\<exists>f'' rows. flush ft now' batch f2 e
      = (None, f'', e\<lparr>connection_stats := connection_stats e @ rows\<rparr>)
     \<and> length rows = length (concat (map Events batch))"
proof -
  from assms(2) obtain d4 connIDs where 4: "flush_entities ft now batch d = Inr (d4, connIDs)"
    by (auto simp: flush_def split: sum.splits)
  have fine: "\<not> ft ''copy from''" "\<not> ft ''commit''" "\<forall>p \<in> set batch. event_ok (partitions d) p"
    using flush_None_iff [OF assms(1), of ft now batch f] assms(2) by auto
  have "covers d4 d'"
    using assms(2) unfolding flush_built [OF 4 assms(1)] case_prod_unfold Let_def
    by (auto simp: covers_def split: if_splits)
  then have 5: "flush_entities ft now' batch e = Inr (e, connIDs)"
    using flush_entities_replay [OF 4 assms(1)] assms(3,4) covers_trans by blast
  have "length (fst (buildStatRows now' batch connIDs m)) = length (concat (map Events batch))" for m
    using arg_cong [OF buildStatRows_tags [of now' batch connIDs m], of length]
    by (simp add: length_concat payload_tags_def comp_def)
  then show ?thesis
    using fine assms(5) unfolding flush_built [OF 5 assms(4)] case_prod_unfold Let_def by auto
qed

definition sample_flush :: "flush_error option \<times> Flusher \<times> database" where
  "sample_flush = flush (\<lambda>_. False) 5 [sample_payload ''7'' ''u'' 1000] (New_Flusher None Map.empty) sample_db"

lemma sample_flush_ok:
  "flush (\<lambda>_. False) 5 [sample_payload ''7'' ''u'' 1000] (New_Flusher None Map.empty) sample_db
     = (None, fst (snd sample_flush), snd (snd sample_flush))"
proof -
  have "fst sample_flush = None" by code_simp
  then show ?thesis by (simp add: sample_flush_def prod_eq_iff)
qed

theorem flush_replay_witness:
  "\<exists>f'' rows. flush (\<lambda>_. False) 9 [sample_payload ''7'' ''u'' 1000] (New_Flusher None Map.empty) (snd (snd sample_flush))
      = (None, f'', (snd (snd sample_flush))\<lparr>connection_stats := connection_stats (snd (snd sample_flush)) @ rows\<rparr>)
     \<and> length rows = 1"
proof -
  have "db_ok (snd (snd sample_flush))" using flush_NoneD [OF sample_db_ok sample_flush_ok] by blast
  moreover have "partitions (snd (snd sample_flush)) = partitions sample_db" by code_simp
  ultimately show ?thesis
    using flush_replay [OF sample_db_ok sample_flush_ok, of "snd (snd sample_flush)" 9 "New_Flusher None Map.empty"]
    by (simp add: covers_def sample_payload_def)
qed

text \<open>Attribution.  When the payloads of a batch that share a conference id also share the
  application, a successful flush registers every user as participant of the conference of his
  own application.\<close>
theorem flush_attribution:
  assumes "db_ok d" and "flush ft now batch f d = (None, f', d')"
    and "\<forall>p \<in> set batch. \<forall>q \<in> set batch. ConferenceID p = ConferenceID q
           \<longrightarrow> ParseInt (AppID p) = ParseInt (AppID q)"
    and "p \<in> set batch"
  shows "\<exists>a i j. ParseInt (AppID p) = Some a \<and> conf_in (a, ConferenceID p) i d' \<and> part_in (i, UserID p) j d'"
proof -
  have "payload_stored batch d' p" using flush_NoneD [OF assms(1,2)] assms(4) by blast
  then show ?thesis using assms(3,4) unfolding payload_stored_def by metis
qed

theorem flush_attribution_witness:
  "\<exists>i j. conf_in (7, ''c'') i (snd (snd sample_flush)) \<and> part_in (i, ''u'') j (snd (snd sample_flush))"
proof -
  have "ParseInt ''7'' = Some 7" by code_simp
  then show ?thesis
    using flush_attribution [OF sample_db_ok sample_flush_ok, of "sample_payload ''7'' ''u'' 1000"]
    by (simp add: sample_payload_def)
qed

definition two_app_batch :: "IngestPayload list" where
  "two_app_batch = [sample_payload ''7'' ''u'' 1000, sample_payload ''8'' ''v'' 1000]"


subsection \<open>EWMA\<close>

lemma event_rows_source: "r \<in> set (fst (event_rows now conn source key m evs)) \<Longrightarrow> cs_source r = source"
  by (induction evs arbitrary: m) (auto simp: stat_row_def case_prod_unfold Let_def)

text \<open>The rows and the state at the key depend on the state at the key only; other keys stay.\<close>

lemma event_rows_local:
  assumes "m key = m' key"
  shows "fst (event_rows now conn source key m evs) = fst (event_rows now conn source key m' evs)
     \<and> snd (event_rows now conn source key m evs) key = snd (event_rows now conn source key m' evs) key"
  using assms
proof (induction evs arbitrary: m m')
  case (Cons ev evs)
  let ?s = "ewma_step now (m key) ev"
  from Cons.IH [of "m(key \<mapsto> ?s)" "m'(key \<mapsto> ?s)"] Cons.prems
  show ?case by (simp add: case_prod_unfold Let_def fun_upd_same del: fun_upd_apply)
qed simp

lemma event_rows_other: "k \<noteq> key \<Longrightarrow> snd (event_rows now conn source key m evs) k = m k"
  by (induction evs arbitrary: m) (simp_all add: case_prod_unfold Let_def)

lemma ewmaKey_source:
  assumes "ewmaKey p = x @ CHR ''|'' # s" and "CHR ''|'' \<notin> set (Source p)" and "CHR ''|'' \<notin> set s"
  shows "source_of p = s"
proof -
  have "CHR ''|'' \<notin> set (source_of p)" using assms(2) by (auto simp: source_of_def)
  then show ?thesis
    using append_sep_inject_rev [of "ConnectionID p" "CHR ''|''" "source_of p" x s] assms by (simp add: ewmaKey_def)
qed

lemma payload_rows_source:
  assumes "\<forall>p \<in> set ps. CHR ''|'' \<notin> set (Source p)" and "CHR ''|'' \<notin> set s"
    and "\<forall>x. m (x @ CHR ''|'' # s) = m' (x @ CHR ''|'' # s)"
  shows "filter (\<lambda>r. cs_source r = s) (fst (payload_rows now connIDs m ps))
       = fst (payload_rows now connIDs m' (filter (\<lambda>p. source_of p = s) ps))"
  using assms
proof (induction ps arbitrary: m m')
  case (Cons p ps)
  let ?ev = "\<lambda>m. event_rows now (getd connIDs (ConnectionID p)) (source_of p) (ewmaKey p) m (Events p)"
  show ?case
  proof (cases "source_of p = s")
    case True
    have key: "m (ewmaKey p) = m' (ewmaKey p)" using Cons.prems(3) True by (simp add: ewmaKey_def)
    note L = event_rows_local [of m "ewmaKey p" m' now "getd connIDs (ConnectionID p)" "source_of p" "Events p", OF key]
    have "snd (?ev m) (x @ CHR ''|'' # s) = snd (?ev m') (x @ CHR ''|'' # s)" for x
      using L event_rows_other Cons.prems(3)
      by (cases "x @ CHR ''|'' # s = ewmaKey p") simp_all
    moreover have "filter (\<lambda>r. cs_source r = s) (fst (?ev m)) = fst (?ev m')"
      using L True event_rows_source [of _ now "getd connIDs (ConnectionID p)" s "ewmaKey p" m "Events p"]
      by (simp add: filter_True)
    ultimately show ?thesis
      using Cons.IH [of "snd (?ev m)" "snd (?ev m')"] Cons.prems True by (simp add: case_prod_unfold Let_def)
  next
    case False
    have "ewmaKey p \<noteq> x @ CHR ''|'' # s" for x
      using ewmaKey_source [of p x s] Cons.prems False by auto
    then have "snd (?ev m) (x @ CHR ''|'' # s) = m' (x @ CHR ''|'' # s)" for x
      using event_rows_other Cons.prems(3) by metis
    moreover have "filter (\<lambda>r. cs_source r = s) (fst (?ev m)) = []"
      using False event_rows_source [of _ now "getd connIDs (ConnectionID p)" "source_of p" "ewmaKey p" m "Events p"]
      by (simp add: filter_False)
    ultimately show ?thesis
      using Cons.IH [of "snd (?ev m)" m'] Cons.prems False by (simp add: case_prod_unfold Let_def)
  qed
qed simp

text \<open>EWMA isolation: the rows of one source (raw values, smoothed values and order) are those
  the flusher would have built from that source's payloads alone, whatever other sources report
  for the same connections, as long as no source name contains the key separator.\<close>
theorem ewma_isolation:
  assumes "\<forall>p \<in> set batch. CHR ''|'' \<notin> set (Source p)" and "CHR ''|'' \<notin> set s"
  shows "filter (\<lambda>r. cs_source r = s) (fst (buildStatRows now batch connIDs m))
       = fst (buildStatRows now (filter (\<lambda>p. source_of p = s) batch) connIDs m)"
  unfolding buildStatRows_def using payload_rows_source [OF assms] by simp

theorem ewma_isolation_witness:
  "length (filter (\<lambda>r. cs_source r = ''browser'') (fst (buildStatRows 5
     [sample_payload ''7'' ''u'' 1000, (sample_payload ''7'' ''u'' 1000)\<lparr>Source := ''server''\<rparr>] Map.empty Map.empty)))
   = 1"
proof -
  have "length (fst (buildStatRows 5 (filter (\<lambda>p. source_of p = ''browser'')
     [sample_payload ''7'' ''u'' 1000, (sample_payload ''7'' ''u'' 1000)\<lparr>Source := ''server''\<rparr>]) Map.empty Map.empty)) = 1"
    by code_simp
  then show ?thesis
    using ewma_isolation [of "[sample_payload ''7'' ''u'' 1000, (sample_payload ''7'' ''u'' 1000)\<lparr>Source := ''server''\<rparr>]"
        "''browser''" 5 Map.empty Map.empty]
    by (simp add: sample_payload_def)
qed

lemma alpha_beta: "0 \<le> ewmaAlpha" "0 \<le> ewmaBeta" "f64 ewmaAlpha = ewmaAlpha" "f64 ewmaBeta = ewmaBeta"
  "f64 (ewmaAlpha + ewmaBeta) = 1"
  by code_simp+

lemma smooth_unit:
  assumes "0 \<le> x" "x \<le> 1" "0 \<le> s" "s \<le> 1"
  shows "0 \<le> smooth x s" "smooth x s \<le> 1"
proof -
  have 1: "0 \<le> f64 (ewmaAlpha * x)" "0 \<le> f64 (ewmaBeta * s)"
    using assms alpha_beta by (auto intro!: f64.nonneg)
  then show "0 \<le> smooth x s" by (auto simp: smooth_def intro!: f64.nonneg)
  have "f64 (ewmaAlpha * x) \<le> ewmaAlpha" "f64 (ewmaBeta * s) \<le> ewmaBeta"
    using assms alpha_beta by (auto intro!: f64.le simp: mult_left_le)
  then have "smooth x s \<le> f64 (ewmaAlpha + ewmaBeta)"
    unfolding smooth_def by (intro f64.mono) simp
  then show "smooth x s \<le> 1" by (simp add: alpha_beta)
qed

definition unit_loss :: "(string \<rightharpoonup> ewmaState) \<Rightarrow> bool" where
  "unit_loss m \<longleftrightarrow> (\<forall>k s. m k = Some s \<longrightarrow> 0 \<le> ePacketLossRate s \<and> ePacketLossRate s \<le> 1)"

lemma unit_f32: "0 \<le> x \<Longrightarrow> x \<le> 1 \<Longrightarrow> 0 \<le> f32 x \<and> f32 x \<le> 1"
proof -
  have "f32 1 = 1" by code_simp
  then show "0 \<le> x \<Longrightarrow> x \<le> 1 \<Longrightarrow> ?thesis" using f32.nonneg [of x] f32.le [of 1 x] by simp
qed

lemma ewma_step_unit:
  assumes "unit_loss m" and "0 \<le> PacketLossRate ev" "PacketLossRate ev \<le> 1"
  shows "0 \<le> ePacketLossRate (ewma_step now (m key) ev) \<and> ePacketLossRate (ewma_step now (m key) ev) \<le> 1"
  using assms smooth_unit [of "PacketLossRate ev"]
  by (auto simp: ewma_step_def newEWMA_def ewma_update_def unit_loss_def split: option.splits)

lemma event_rows_unit:
  assumes "unit_loss m" and "\<forall>ev \<in> set evs. 0 \<le> PacketLossRate ev \<and> PacketLossRate ev \<le> 1"
  shows "unit_loss (snd (event_rows now conn source key m evs))
    \<and> (\<forall>r \<in> set (fst (event_rows now conn source key m evs)).
         0 \<le> cs_ewma_packets_lost_rate r \<and> cs_ewma_packets_lost_rate r \<le> 1)"
  using assms
proof (induction evs arbitrary: m)
  case (Cons ev evs)
  let ?s = "ewma_step now (m key) ev"
  have s: "0 \<le> ePacketLossRate ?s" "ePacketLossRate ?s \<le> 1" using ewma_step_unit [of m ev now key] Cons.prems by auto
  then have "unit_loss (m(key \<mapsto> ?s))" using Cons.prems(1) by (auto simp: unit_loss_def)
  from Cons.IH [OF this] Cons.prems(2) s unit_f32 [of "ePacketLossRate ?s"]
  show ?case by (simp add: case_prod_unfold Let_def stat_row_def del: fun_upd_apply)
qed simp

lemma payload_rows_unit:
  assumes "unit_loss m" and "\<forall>p \<in> set ps. \<forall>ev \<in> set (Events p). 0 \<le> PacketLossRate ev \<and> PacketLossRate ev \<le> 1"
  shows "unit_loss (snd (payload_rows now connIDs m ps))
    \<and> (\<forall>r \<in> set (fst (payload_rows now connIDs m ps)).
         0 \<le> cs_ewma_packets_lost_rate r \<and> cs_ewma_packets_lost_rate r \<le> 1)"
  using assms
proof (induction ps arbitrary: m)
  case (Cons p ps)
  let ?e = "event_rows now (getd connIDs (ConnectionID p)) (source_of p) (ewmaKey p) m (Events p)"
  have e: "unit_loss (snd ?e)"
    "\<forall>r \<in> set (fst ?e). 0 \<le> cs_ewma_packets_lost_rate r \<and> cs_ewma_packets_lost_rate r \<le> 1"
    using event_rows_unit [of m "Events p"] Cons.prems by auto
  from Cons.IH [OF e(1)] Cons.prems(2) e(2) show ?case by (auto simp: case_prod_unfold Let_def)
qed simp

text \<open>Smoothed loss rates are rates: when the flusher's states and the reported loss rates lie
  between 0 and 1, so do all smoothed values a flush stores, in \<open>float32\<close> as well, and the
  states it keeps, in spite of the rounding of 0.2 and 0.8 and of every operation.\<close>
theorem ewma_loss_unit:
  assumes "unit_loss m"
    and "\<forall>p \<in> set batch. \<forall>ev \<in> set (Events p). 0 \<le> PacketLossRate ev \<and> PacketLossRate ev \<le> 1"
  shows "unit_loss (snd (buildStatRows now batch connIDs m))
    \<and> (\<forall>r \<in> set (fst (buildStatRows now batch connIDs m)).
         0 \<le> cs_ewma_packets_lost_rate r \<and> cs_ewma_packets_lost_rate r \<le> 1)"
proof -
  have "unit_loss (evict now m)"
    using assms(1) by (auto simp: unit_loss_def evict_def split: option.splits if_splits)
  from payload_rows_unit [OF this assms(2)] show ?thesis by (simp add: buildStatRows_def)
qed

theorem ewma_loss_unit_witness:
  "unit_loss (snd (buildStatRows 5 [(sample_payload ''7'' ''u'' 1000)\<lparr>Events :=
      [zero_snapshot\<lparr>PacketLossRate := 1\<rparr>, zero_snapshot\<lparr>PacketLossRate := 1 / 2\<rparr>]\<rparr>] Map.empty Map.empty))"
  using ewma_loss_unit [of Map.empty "[(sample_payload ''7'' ''u'' 1000)\<lparr>Events :=
      [zero_snapshot\<lparr>PacketLossRate := 1\<rparr>, zero_snapshot\<lparr>PacketLossRate := 1 / 2\<rparr>]\<rparr>]" 5 Map.empty]
  by (simp add: unit_loss_def)

subsection \<open>The conference cache\<close>

lemma max_events_fold: "max_events m evs = fold max (map TS evs) m"
  by (induction evs arbitrary: m) (auto simp: max_def)

definition stats_of :: "IngestPayload list \<Rightarrow> confStats" where
  "stats_of ps = \<lparr>maxTS = fold max (map TS (concat (map Events ps))) 0,
                  userIDs = fold List.insert (map UserID ps) []\<rparr>"

lemma conf_stats_spec:
  "conf_stats m batch k =
     (let ps = filter (\<lambda>p. cache_key p = k) batch in
      if ps = [] then m k
      else Some (case m k of
             None \<Rightarrow> stats_of ps
           | Some s \<Rightarrow> \<lparr>maxTS = fold max (map TS (concat (map Events ps))) (maxTS s),
                       userIDs = fold List.insert (map UserID ps) (userIDs s)\<rparr>))"
proof (induction batch arbitrary: m)
  case (Cons p ps)
  then show ?case
    by (cases "m k") (auto simp: Let_def stats_add_def stats_of_def max_events_fold)
qed simp

lemma conf_stats_batch:
  "conf_stats Map.empty batch k =
     (if filter (\<lambda>p. cache_key p = k) batch = [] then None
      else Some (stats_of (filter (\<lambda>p. cache_key p = k) batch)))"
  by (simp add: conf_stats_spec Let_def)

lemma fold_insert: "distinct xs \<Longrightarrow> distinct (fold List.insert ys xs) \<and> set (fold List.insert ys xs) = set xs \<union> set ys"
  by (induction ys arbitrary: xs) auto

lemma fold_max_Max: "fold max xs a = Max (insert a (set xs))" for a :: int
proof (induction xs arbitrary: a)
  case (Cons x xs)
  have "Max (insert (max x a) (set xs)) = Max (insert a (insert x (set xs)))"
    by (cases "xs = []") (simp_all add: max.assoc max.commute max.left_commute)
  with Cons show ?case by simp
qed simp

lemma apply_key_ok:
  assumes "\<not> ft (''HSET '' @ k)" and "\<not> ft (''EXPIRE '' @ k)"
  shows "apply_key ft now k s m
     = m(k \<mapsto> \<lparr>participant_count = length (userIDs s), last_event_ts = maxTS s, cache_expires = Some (now + cacheTTL)\<rparr>)"
  using assms
  by (auto simp: apply_key_def HSet_conf_def Expire_conf_def live_def Let_def split: option.splits)

lemma fold_keys:
  assumes "distinct ks" and "\<And>k. k \<in> set ks \<Longrightarrow> stats k = Some (g k)"
    and "\<And>k s m. F k s m = m(pre @ k \<mapsto> h s)"
  shows "fold (\<lambda>k m. case stats k of None \<Rightarrow> m | Some s \<Rightarrow> F k s m) ks m x
     = (case List.find (\<lambda>k. pre @ k = x) ks of Some k \<Rightarrow> Some (h (g k)) | None \<Rightarrow> m x)"
  using assms(1,2)
proof (induction ks arbitrary: m)
  case (Cons k ks)
  then show ?case
    by (auto simp: assms(3) find_None_iff split: option.splits dest!: find_SomeD)
qed simp

lemma cache_key_inject:
  assumes "ParseInt (AppID p) \<noteq> None" and "ParseInt (AppID q) \<noteq> None"
  shows "cache_key p = cache_key q \<longleftrightarrow> AppID p = AppID q \<and> ConferenceID p = ConferenceID q"
  using assms append_sep_inject [of "AppID p" "CHR '':''" "ConferenceID p" "AppID q" "ConferenceID q"]
  by (auto simp: cache_key_def dest: ParseInt_no_colon)

lemma stats_of_spec:
  "length (userIDs (stats_of ps)) = card (UserID ` set ps)"
  "maxTS (stats_of ps) = Max (insert 0 (TS ` (\<Union>p \<in> set ps. set (Events p))))"
  using fold_insert [of "[]" "map UserID ps"]
  by (auto simp: stats_of_def fold_max_Max distinct_card [symmetric])

lemma updateCache_spec:
  assumes "rdb f = Some m" and "\<forall>k. \<not> ft (''HSET '' @ k) \<and> \<not> ft (''EXPIRE '' @ k)"
  shows "rdb (updateCache ft now batch f) = Some (\<lambda>x.
     case List.find (\<lambda>k. ''active_conf:'' @ k = x) (remdups (map cache_key batch)) of
       Some k \<Rightarrow> Some \<lparr>participant_count = length (userIDs (stats_of (filter (\<lambda>p. cache_key p = k) batch))),
                       last_event_ts = maxTS (stats_of (filter (\<lambda>p. cache_key p = k) batch)),
                       cache_expires = Some (now + cacheTTL)\<rparr>
     | None \<Rightarrow> m x)"
proof -
  have st: "conf_stats Map.empty batch k = Some (stats_of (filter (\<lambda>p. cache_key p = k) batch))"
    if "k \<in> set (remdups (map cache_key batch))" for k
    using that by (auto simp: conf_stats_batch filter_empty_conv)
  have ap: "apply_key ft now (''active_conf:'' @ k) s m' = m'(''active_conf:'' @ k \<mapsto>
      \<lparr>participant_count = length (userIDs s), last_event_ts = maxTS s, cache_expires = Some (now + cacheTTL)\<rparr>)" for k s m'
    using assms(2) by (intro apply_key_ok) auto
  have "fold (\<lambda>key m'. case conf_stats Map.empty batch key of None \<Rightarrow> m'
        | Some s \<Rightarrow> apply_key ft now (''active_conf:'' @ key) s m') (remdups (map cache_key batch)) m x
    = (case List.find (\<lambda>k. ''active_conf:'' @ k = x) (remdups (map cache_key batch)) of
       Some k \<Rightarrow> Some \<lparr>participant_count = length (userIDs (stats_of (filter (\<lambda>p. cache_key p = k) batch))),
                       last_event_ts = maxTS (stats_of (filter (\<lambda>p. cache_key p = k) batch)),
                       cache_expires = Some (now + cacheTTL)\<rparr>
     | None \<Rightarrow> m x)" for x
    by (rule fold_keys [OF distinct_remdups st ap])
  then show ?thesis using assms(1) by (simp add: updateCache_def Let_def ext)
qed

text \<open>The conference cache after a stored batch: for every conference of the batch the hash
  \<open>active_conf:app:conference\<close> holds the number of distinct users and the largest timestamp
  (at least 0) the batch has for it and expires 600 seconds later; every other key is untouched.
  Different conferences have different keys, because an application id that was accepted contains
  no colon.\<close>
theorem updateCache_correct:
  assumes "rdb f = Some m" and "\<forall>k. \<not> ft (''HSET '' @ k) \<and> \<not> ft (''EXPIRE '' @ k)"
    and "\<forall>p \<in> set batch. ParseInt (AppID p) \<noteq> None"
  shows "\<exists>m'. rdb (updateCache ft now batch f) = Some m'
    \<and> (\<forall>p \<in> set batch. m' (''active_conf:'' @ AppID p @ '':'' @ ConferenceID p) = Some
         \<lparr>participant_count = card {UserID q | q. q \<in> set batch \<and> AppID q = AppID p \<and> ConferenceID q = ConferenceID p},
          last_event_ts = Max (insert 0 {TS ev | ev q. q \<in> set batch \<and> AppID q = AppID p
                                          \<and> ConferenceID q = ConferenceID p \<and> ev \<in> set (Events q)}),
          cache_expires = Some (now + 600 * 1000000000)\<rparr>)
    \<and> (\<forall>k. (\<forall>p \<in> set batch. k \<noteq> ''active_conf:'' @ AppID p @ '':'' @ ConferenceID p) \<longrightarrow> m' k = m k)"
proof -
  let ?ks = "remdups (map cache_key batch)"
  have find: "List.find (\<lambda>k. ''active_conf:'' @ k = ''active_conf:'' @ cache_key p) ?ks = Some (cache_key p)"
    if "p \<in> set batch" for p
    using that by (cases "List.find (\<lambda>k. k = cache_key p) ?ks") (auto simp: find_None_iff dest!: find_SomeD)
  have same: "set (filter (\<lambda>q. cache_key q = cache_key p) batch)
      = {q \<in> set batch. AppID q = AppID p \<and> ConferenceID q = ConferenceID p}" if "p \<in> set batch" for p
    using that assms(3) cache_key_inject [of _ p] by auto
  have users: "length (userIDs (stats_of (filter (\<lambda>q. cache_key q = cache_key p) batch)))
      = card {UserID q | q. q \<in> set batch \<and> AppID q = AppID p \<and> ConferenceID q = ConferenceID p}"
    if "p \<in> set batch" for p
    unfolding stats_of_spec same [OF that] by (rule arg_cong [of _ _ card]) auto
  have times: "maxTS (stats_of (filter (\<lambda>q. cache_key q = cache_key p) batch))
      = Max (insert 0 {TS ev | ev q. q \<in> set batch \<and> AppID q = AppID p
                         \<and> ConferenceID q = ConferenceID p \<and> ev \<in> set (Events q)})"
    if "p \<in> set batch" for p
    unfolding stats_of_spec same [OF that] by (rule arg_cong [of _ _ "\<lambda>A. Max (insert 0 A)"]) auto
  have key: "''active_conf:'' @ AppID p @ '':'' @ ConferenceID p = ''active_conf:'' @ cache_key p" for p
    by (simp add: cache_key_def)
  have ttl: "600 * 1000000000 = cacheTTL" by (simp add: cacheTTL_def)
  have miss: "List.find (\<lambda>k. ''active_conf:'' @ k = x) ?ks = None"
    if "\<forall>p \<in> set batch. x \<noteq> ''active_conf:'' @ cache_key p" for x
    using that by (auto simp: find_None_iff)
  show ?thesis
    unfolding updateCache_spec [OF assms(1,2)] key ttl
  proof (intro exI conjI ballI allI impI, rule refl, goal_cases)
    case (1 p)
    show ?case unfolding find [OF 1] users [OF 1, symmetric] times [OF 1, symmetric] option.case by (rule refl)
  next
    case (2 x)
    show ?case unfolding miss [OF 2] option.case by (rule refl)
  qed
qed

theorem updateCache_correct_witness:
  "\<exists>m'. rdb (updateCache (\<lambda>_. False) 5 two_app_batch (New_Flusher (Some Map.empty) Map.empty)) = Some m'
     \<and> map_option participant_count (m' ''active_conf:7:c'') = Some 1"
proof -
  let ?p = "sample_payload ''7'' ''u'' 1000"
  have app: "\<forall>p \<in> set two_app_batch. ParseInt (AppID p) \<noteq> None" by code_simp
  have one: "{UserID q | q. q \<in> set two_app_batch \<and> AppID q = AppID ?p \<and> ConferenceID q = ConferenceID ?p} = {''u''}"
    by (auto simp: two_app_batch_def sample_payload_def intro!: exI [of _ ?p])
  have key: "''active_conf:'' @ AppID ?p @ '':'' @ ConferenceID ?p = ''active_conf:7:c''"
    by (simp add: sample_payload_def)
  have p: "?p \<in> set two_app_batch" by (simp add: two_app_batch_def)
  have r: "rdb (New_Flusher (Some Map.empty) Map.empty) = Some Map.empty" by (simp add: New_Flusher_def)
  have nf: "\<forall>k :: string. \<not> False \<and> \<not> False" by simp
  from updateCache_correct [of "New_Flusher (Some Map.empty) Map.empty" Map.empty "\<lambda>_. False" two_app_batch 5, OF r nf app]
  show ?thesis
  proof (elim exE conjE, goal_cases)
    case (1 m')
    from bspec [OF 1(2) p] show ?case unfolding one key using 1(1) by simp
  qed
qed

end
