(* ===== verification/Emos_Compute.thy ===== *)
theory Emos_Compute
  imports GoFloat
begin

text \<open>
  The eMOS algorithm, \<^verbatim>\<open>internal/emos/compute.go\<close>: packet-loss and round-trip
  impairments, the R-factor, the MOS polynomial and the outcome classes, in \<open>float64\<close>
  arithmetic with the score finally converted to \<open>float32\<close>.

  The lemmas show the range of the score, the agreement of the stored score with the outcome
  class, that the R-factor never improves when loss or round-trip time grow, and the two ends of
  the scale.
\<close>

subsection \<open>The algorithm\<close>

definition DefaultLossCoeff :: rat where
  "DefaultLossCoeff = 15 / 2"

definition ie_loss :: "rat \<Rightarrow> rat \<Rightarrow> rat" where
  "ie_loss lossPct lossCoeff =
     (if lossPct < 1 then 0
      else if lossPct < 5 then f64 (f64 (lossPct - 1) * 3)
      else f64 (12 + f64 (f64 (lossPct - 5) * lossCoeff)))"

definition id_rtt :: "rat \<Rightarrow> rat" where
  "id_rtt rttMs =
     (if rttMs < 50 then 0
      else if rttMs < 250 then f64 (f64 (rttMs - 50) * f64 (4 / 100))
      else f64 (8 + f64 (f64 (rttMs - 250) * f64 (25 / 1000))))"

definition r_factor :: "rat \<Rightarrow> rat \<Rightarrow> rat" where
  "r_factor ie idr =
     (let r = f64 (f64 (f64 (932 / 10) - ie) - idr);
          r = (if r < 0 then 0 else r)
      in if r > 100 then 100 else r)"

definition mos_of :: "rat \<Rightarrow> rat" where
  "mos_of r =
     (let mos = f64 (f64 (1 + f64 (f64 (35 / 1000) * r))
                + f64 (f64 (f64 (r * f64 (r - 60)) * f64 (100 - r)) * f64 (7 / 1000000)));
          mos = (if mos < 1 then 1 else mos)
      in if mos > 5 then 5 else mos)"

definition outcome_of :: "rat \<Rightarrow> string" where
  "outcome_of mos =
     (if mos \<ge> 7 / 2 then ''success'' else if mos \<ge> 2 then ''degraded'' else ''failed'')"

definition ComputeEMOS :: "rat \<Rightarrow> rat \<Rightarrow> rat \<Rightarrow> rat \<times> string" where
  "ComputeEMOS lossRate rttMs lossCoeff =
     (let lossPct = f64 (lossRate * 100);
          ie = ie_loss lossPct lossCoeff;
          idr = id_rtt rttMs;
          mos = mos_of (r_factor ie idr)
      in (f32 mos, outcome_of mos))"

subsection \<open>Impairments grow with their input\<close>

lemma ie_loss_nonneg: "0 \<le> k \<Longrightarrow> 0 \<le> ie_loss l k"
  by (auto simp: ie_loss_def intro!: f64.nonneg mult_nonneg_nonneg add_nonneg_nonneg)

lemma ie_loss_low: "1 \<le> l \<Longrightarrow> l < 5 \<Longrightarrow> 0 \<le> ie_loss l k \<and> ie_loss l k \<le> 12"
proof -
  assume l: "1 \<le> l" "l < 5"
  then have "f64 (l - 1) \<le> 4" and "0 \<le> f64 (l - 1)"
    by (auto intro!: f64.le f64.nonneg)
  then have "f64 (f64 (l - 1) * 3) \<le> 12" and "0 \<le> f64 (f64 (l - 1) * 3)"
    by (auto intro!: f64.le f64.nonneg)
  with l show ?thesis by (simp add: ie_loss_def)
qed

lemma ie_loss_high: "5 \<le> l \<Longrightarrow> 0 \<le> k \<Longrightarrow> 12 \<le> ie_loss l k"
  by (auto simp: ie_loss_def intro!: f64.ge f64.nonneg mult_nonneg_nonneg)

lemma ie_loss_mono:
  assumes k: "0 \<le> k" and le: "l \<le> l'"
  shows "ie_loss l k \<le> ie_loss l' k"
proof -
  consider "l < 1" | "1 \<le> l" "l' < 5" | "1 \<le> l" "l < 5" "5 \<le> l'" | "5 \<le> l" by linarith
  then show ?thesis
  proof cases
    case 1
    then show ?thesis using ie_loss_nonneg [OF k, of l'] by (simp add: ie_loss_def)
  next
    case 2
    then show ?thesis using le by (auto simp: ie_loss_def intro!: f64.mono)
  next
    case 3
    then show ?thesis using ie_loss_low [of l k] ie_loss_high [of l' k] k by linarith
  next
    case 4
    then show ?thesis using le k by (auto simp: ie_loss_def intro!: f64.mono mult_right_mono)
  qed
qed

lemma f64_004: "f64 (200 * f64 (4 / 100)) = 8"
  by code_simp

lemma f64_004_nonneg: "0 \<le> f64 (4 / 100)"
  by (rule f64.nonneg) simp

lemma id_rtt_low: "50 \<le> t \<Longrightarrow> t < 250 \<Longrightarrow> 0 \<le> id_rtt t \<and> id_rtt t \<le> 8"
proof -
  assume t: "50 \<le> t" "t < 250"
  then have d: "f64 (t - 50) \<le> 200" "0 \<le> f64 (t - 50)"
    by (auto intro!: f64.le f64.nonneg)
  then have "f64 (f64 (t - 50) * f64 (4 / 100)) \<le> f64 (200 * f64 (4 / 100))"
    using f64_004_nonneg by (intro f64.mono mult_right_mono)
  moreover have "0 \<le> f64 (f64 (t - 50) * f64 (4 / 100))"
    by (rule f64.nonneg, rule mult_nonneg_nonneg) (use d f64_004_nonneg in auto)
  ultimately show ?thesis using t f64_004 by (simp add: id_rtt_def)
qed

lemma id_rtt_high: "250 \<le> t \<Longrightarrow> 8 \<le> id_rtt t"
  by (auto simp: id_rtt_def intro!: f64.ge f64.nonneg mult_nonneg_nonneg)

lemma id_rtt_nonneg: "0 \<le> id_rtt t"
  using id_rtt_low [of t] id_rtt_high [of t] by (cases "t < 50") (auto simp: id_rtt_def)

lemma id_rtt_mono:
  assumes "t \<le> t'"
  shows "id_rtt t \<le> id_rtt t'"
proof -
  consider "t < 50" | "50 \<le> t" "t' < 250" | "50 \<le> t" "t < 250" "250 \<le> t'" | "250 \<le> t" by linarith
  then show ?thesis
  proof cases
    case 1
    then show ?thesis using id_rtt_nonneg [of t'] by (simp add: id_rtt_def)
  next
    case 2
    then show ?thesis
      using assms by (auto simp: id_rtt_def intro!: f64.mono mult_right_mono f64.nonneg)
  next
    case 3
    then show ?thesis using id_rtt_low [of t] id_rtt_high [of t'] by linarith
  next
    case 4
    then show ?thesis
      using assms by (auto simp: id_rtt_def intro!: f64.mono mult_right_mono f64.nonneg)
  qed
qed

lemma r_factor_antimono:
  assumes "ie \<le> ie'" and "idr \<le> idr'"
  shows "r_factor ie' idr' \<le> r_factor ie idr"
proof -
  have "f64 (f64 (f64 (932 / 10) - ie') - idr') \<le> f64 (f64 (f64 (932 / 10) - ie) - idr)"
    using assms by (intro f64.mono diff_mono) auto
  then show ?thesis by (auto simp: r_factor_def Let_def)
qed

lemma r_factor_range: "0 \<le> r_factor ie idr \<and> r_factor ie idr \<le> 100"
  by (simp add: r_factor_def Let_def)

lemma mos_range: "1 \<le> mos_of r \<and> mos_of r \<le> 5"
  by (simp add: mos_of_def Let_def)

lemma f32_constants: "f32 1 = 1" "f32 2 = 2" "f32 (7 / 2) = 7 / 2" "f32 5 = 5"
  by code_simp+

subsection \<open>Properties\<close>


text \<open>More loss or a longer round trip never raises the R-factor, at any non-negative loss
  coefficient and across the branch points of both impairment formulas, rounding included.\<close>
theorem r_factor_antitone:
  assumes "0 \<le> lossCoeff" and "loss \<le> loss'" and "rtt \<le> rtt'"
  shows "r_factor (ie_loss (f64 (loss' * 100)) lossCoeff) (id_rtt rtt')
       \<le> r_factor (ie_loss (f64 (loss * 100)) lossCoeff) (id_rtt rtt)"
  using assms by (intro r_factor_antimono ie_loss_mono id_rtt_mono f64.mono) auto

theorem r_factor_antitone_witness:
  "r_factor (ie_loss (f64 (1 / 10 * 100)) DefaultLossCoeff) (id_rtt 400)
     \<le> r_factor (ie_loss (f64 (1 / 50 * 100)) DefaultLossCoeff) (id_rtt 60)"
  by (rule r_factor_antitone) (simp_all add: DefaultLossCoeff_def)

lemma heavy_loss_r:
  assumes "1 / 5 \<le> loss" and "DefaultLossCoeff \<le> k"
  shows "r_factor (ie_loss (f64 (loss * 100)) k) (id_rtt rtt) = 0"
proof -
  have l: "20 \<le> f64 (loss * 100)" using assms(1) by (intro f64.ge) auto
  then have "15 \<le> f64 (f64 (loss * 100) - 5)" by (intro f64.ge) auto
  then have "15 * (15 / 2) \<le> f64 (f64 (loss * 100) - 5) * k"
    using assms(2) by (intro mult_mono) (auto simp: DefaultLossCoeff_def)
  then have "100 \<le> f64 (f64 (f64 (loss * 100) - 5) * k)" by (intro f64.ge) auto
  then have "112 \<le> ie_loss (f64 (loss * 100)) k"
    using l by (simp add: ie_loss_def) (intro f64.ge, auto)
  moreover have "f64 (932 / 10) \<le> 94" by (intro f64.le) auto
  ultimately have "f64 (f64 (932 / 10) - ie_loss (f64 (loss * 100)) k) \<le> 0"
    by (intro f64.nonpos) linarith
  then have "f64 (f64 (f64 (932 / 10) - ie_loss (f64 (loss * 100)) k) - id_rtt rtt) \<le> 0"
    using id_rtt_nonneg [of rtt] by (intro f64.nonpos) linarith
  then show ?thesis by (auto simp: r_factor_def Let_def)
qed

lemma heavy_loss: "1 / 5 \<le> loss \<Longrightarrow> DefaultLossCoeff \<le> k \<Longrightarrow> ComputeEMOS loss rtt k = (1, ''failed'')"
proof -
  assume a: "1 / 5 \<le> loss" "DefaultLossCoeff \<le> k"
  have "mos_of 0 = 1" by code_simp
  then show ?thesis
    unfolding ComputeEMOS_def Let_def heavy_loss_r [OF a] by (simp add: f32_constants outcome_of_def)
qed

lemma light_loss: "f64 (loss * 100) < 1 \<Longrightarrow> rtt < 50 \<Longrightarrow> ComputeEMOS loss rtt k = ComputeEMOS 0 0 DefaultLossCoeff"
  by (simp add: ComputeEMOS_def Let_def ie_loss_def id_rtt_def)

lemma mos_of_ge_4:
  assumes "93 \<le> r" and "r \<le> 100"
  shows "4 \<le> mos_of r"
proof -
  have "f64 (71 / 2048) = 71 / 2048" by code_simp
  then have "71 / 2048 \<le> f64 (35 / 1000)" by (rule f64.ge) simp
  then have "71 / 2048 * 93 \<le> f64 (35 / 1000) * r" using assms by (intro mult_mono) auto
  then have "3 \<le> f64 (f64 (35 / 1000) * r)" by (intro f64.ge) auto
  then have "4 \<le> f64 (1 + f64 (f64 (35 / 1000) * r))" by (intro f64.ge) auto
  moreover have "0 \<le> f64 (f64 (f64 (r * f64 (r - 60)) * f64 (100 - r)) * f64 (7 / 1000000))"
    using assms by (intro f64.nonneg mult_nonneg_nonneg) auto
  ultimately have "4 \<le> f64 (f64 (1 + f64 (f64 (35 / 1000) * r))
      + f64 (f64 (f64 (r * f64 (r - 60)) * f64 (100 - r)) * f64 (7 / 1000000)))"
    by (intro f64.ge) auto
  then show ?thesis by (auto simp: mos_of_def Let_def)
qed

lemma best_score: "4 \<le> fst (ComputeEMOS 0 0 DefaultLossCoeff)
    \<and> snd (ComputeEMOS 0 0 DefaultLossCoeff) = ''success''"
proof -
  have "93 \<le> f64 (932 / 10)" by (rule f64.ge) simp_all
  then have "93 \<le> r_factor 0 0" by (auto simp: r_factor_def f64.idem Let_def)
  then have "4 \<le> mos_of (r_factor 0 0)" using r_factor_range by (intro mos_of_ge_4) auto
  moreover from this have "4 \<le> f32 (mos_of (r_factor 0 0))"
    by (rule f32.ge [rotated]) code_simp
  ultimately show ?thesis
    by (simp add: ComputeEMOS_def ie_loss_def id_rtt_def outcome_of_def)
qed

text \<open>The two ends of the scale.  With at least twenty percent loss (and a coefficient no
  smaller than the default) every session scores exactly 1 and fails, whatever the round trip; with
  less than one percent loss and less than 50 ms the impairments vanish and every session gets the
  same score, at least 4, and succeeds.\<close>
theorem emos_extremes:
  "(1 / 5 \<le> loss \<and> DefaultLossCoeff \<le> k \<longrightarrow> ComputeEMOS loss rtt k = (1, ''failed''))
 \<and> (f64 (loss * 100) < 1 \<and> rtt < 50 \<longrightarrow>
      ComputeEMOS loss rtt k = ComputeEMOS 0 0 DefaultLossCoeff
      \<and> 4 \<le> fst (ComputeEMOS loss rtt k) \<and> snd (ComputeEMOS loss rtt k) = ''success'')"
  using heavy_loss light_loss best_score by metis

theorem emos_extremes_witness:
  "ComputeEMOS (3 / 10) 20 DefaultLossCoeff = (1, ''failed'')
 \<and> snd (ComputeEMOS (1 / 1000) 20 DefaultLossCoeff) = ''success''"
proof -
  have "f64 (1 / 1000 * 100) < 1" by code_simp
  then have "snd (ComputeEMOS (1 / 1000) 20 DefaultLossCoeff) = ''success''"
    using emos_extremes [of "1 / 1000" DefaultLossCoeff 20] by auto
  moreover have "ComputeEMOS (3 / 10) 20 DefaultLossCoeff = (1, ''failed'')"
    using emos_extremes [of "3 / 10" DefaultLossCoeff 20] by (auto simp: DefaultLossCoeff_def)
  ultimately show ?thesis by blast
qed

end
