(* ===== verification/Emos_Rules.thy ===== *)
theory Emos_Rules
  imports Model GoStd
begin

text \<open>
  The observation rules, \<^verbatim>\<open>internal/emos/rules.go\<close>: nine rules that scan the
  time-ordered samples of a connection and report observations.  The four "sustained" rules share
  one loop shape (\<open>sustained_scan\<close>), parameterised here by the sample test and by the
  observation built for a run; each rule of the source is a definition of its own.  A rule returns
  \<open>None\<close> where the Go code panics with an index out of range.

  The lemmas show that the loops report exactly the maximal runs, that they cannot panic when the
  configured minimum is positive (and do panic for some inputs when it is not), and bounds of the
  averages.
\<close>

subsection \<open>Samples, observations, thresholds\<close>

record StatRow =
  Timestamp :: instant
  PacketLossRatio :: rat
  RTT :: int
  Jitter :: int
  VideoFreezeCount :: int
  AudioConcealmentRatio :: rat
  OutboundBitrate :: int

record Observation =
  RuleName :: string
  Severity :: string
  Message :: string
  StartTS :: instant
  EndTS :: instant
  Context :: "(string \<times> jval) list"

type_synonym thresholds = "string \<Rightarrow> jval option"

definition floatThreshold :: "thresholds \<Rightarrow> string \<Rightarrow> rat \<Rightarrow> rat" where
  "floatThreshold thresholds key fallback =
     (case thresholds key of Some (JNum f) \<Rightarrow> f | _ \<Rightarrow> fallback)"

definition fmt_f1 :: "rat \<Rightarrow> string" where
  "fmt_f1 x =
     (let n = rne (\<bar>x\<bar> * 10) in
      (if x < 0 then ''-'' else []) @ dec_nat (nat (n div 10)) @ ''.'' @ dec_nat (nat (n mod 10)))"

subsection \<open>Averages\<close>

definition averageFloat :: "(StatRow \<Rightarrow> rat) \<Rightarrow> StatRow list \<Rightarrow> rat" where
  "averageFloat f samples =
     (if samples = [] then 0
      else f64 (foldl (\<lambda>s x. f64 (s + f x)) 0 samples / f64 (of_nat (length samples))))"

definition averageInt32 :: "(StatRow \<Rightarrow> int) \<Rightarrow> StatRow list \<Rightarrow> int" where
  "averageInt32 f samples =
     (if samples = [] then 0
      else quot (foldl (\<lambda>s x. i32 (s + f x)) 0 samples) (i32 (int (length samples))))"

definition averagePacketLoss :: "StatRow list \<Rightarrow> rat" where
  "averagePacketLoss = averageFloat PacketLossRatio"

definition averageAudioConcealment :: "StatRow list \<Rightarrow> rat" where
  "averageAudioConcealment = averageFloat AudioConcealmentRatio"

definition averageRTT :: "StatRow list \<Rightarrow> int" where
  "averageRTT = averageInt32 RTT"

definition averageJitter :: "StatRow list \<Rightarrow> int" where
  "averageJitter = averageInt32 Jitter"

definition slice :: "'a list \<Rightarrow> nat \<Rightarrow> nat \<Rightarrow> 'a list" where
  "slice xs s e = take (e - s) (drop s xs)"

subsection \<open>The loop of the sustained rules\<close>

text \<open>
  \<open>sustained_scan hot minSamples mk xs i start count\<close> is the rest of the loop at index
  \<open>i\<close> with the samples \<open>xs\<close> to come and \<open>consecutive = {start, count}\<close>; the
  empty list is the code after the loop.  \<open>mk s e n\<close> is the observation built from
  \<open>samples[s:e]\<close>, \<open>samples[s]\<close>, \<open>samples[e-1]\<close> and the count \<open>n\<close>;
  with \<open>e = 0\<close> that last read is \<open>samples[-1]\<close> and panics.
\<close>

fun sustained_scan ::
  "('a \<Rightarrow> bool) \<Rightarrow> int \<Rightarrow> (nat \<Rightarrow> nat \<Rightarrow> int \<Rightarrow> 'o) \<Rightarrow> 'a list \<Rightarrow> nat \<Rightarrow> nat \<Rightarrow> int \<Rightarrow> 'o list option"
where
  "sustained_scan hot minSamples mk [] i start cnt =
     (if minSamples \<le> cnt then (if i = 0 then None else Some [mk start i cnt]) else Some [])"
| "sustained_scan hot minSamples mk (x # xs) i start cnt =
     (if hot x then
        sustained_scan hot minSamples mk xs (Suc i) (if cnt = 0 then i else start) (cnt + 1)
      else if minSamples \<le> cnt then
        (if i = 0 then None
         else map_option ((#) (mk start i cnt)) (sustained_scan hot minSamples mk xs (Suc i) start 0))
      else sustained_scan hot minSamples mk xs (Suc i) start 0)"

definition evaluatePacketLossSustained :: "StatRow list \<Rightarrow> thresholds \<Rightarrow> Observation list option" where
  "evaluatePacketLossSustained samples thresholds =
     (let threshold = floatThreshold thresholds ''packet_loss_sustained.threshold'' (f64 (5 / 100));
          minSamples = go_int (floatThreshold thresholds ''packet_loss_sustained.min_samples'' 3)
      in sustained_scan (\<lambda>s. PacketLossRatio s > threshold) minSamples
           (\<lambda>s e n. let avgLoss = averagePacketLoss (slice samples s e) in
              \<lparr>RuleName = ''packet_loss_sustained'', Severity = ''warning'',
               Message = ''Packet loss sustained at '' @ fmt_f1 (f64 (avgLoss * 100)) @ ''% for ''
                         @ FormatInt n @ '' samples'',
               StartTS = Timestamp (samples ! s), EndTS = Timestamp (samples ! (e - 1)),
               Context = [(''average_loss'', JNum avgLoss), (''sample_count'', JInt n)]\<rparr>)
           samples 0 0 0)"

definition evaluateRTTHigh :: "StatRow list \<Rightarrow> thresholds \<Rightarrow> Observation list option" where
  "evaluateRTTHigh samples thresholds =
     (let threshold = go_int32 (floatThreshold thresholds ''rtt_high.threshold'' 300);
          minSamples = go_int (floatThreshold thresholds ''rtt_high.min_samples'' 2)
      in sustained_scan (\<lambda>s. RTT s > threshold) minSamples
           (\<lambda>s e n. let avgRTT = averageRTT (slice samples s e) in
              \<lparr>RuleName = ''rtt_high'', Severity = ''warning'',
               Message = ''RTT high at '' @ FormatInt avgRTT @ '' ms for '' @ FormatInt n @ '' samples'',
               StartTS = Timestamp (samples ! s), EndTS = Timestamp (samples ! (e - 1)),
               Context = [(''average_rtt'', JInt avgRTT), (''sample_count'', JInt n)]\<rparr>)
           samples 0 0 0)"

definition evaluateJitterHigh :: "StatRow list \<Rightarrow> thresholds \<Rightarrow> Observation list option" where
  "evaluateJitterHigh samples thresholds =
     (let threshold = go_int32 (floatThreshold thresholds ''jitter_high.threshold'' 50);
          minSamples = go_int (floatThreshold thresholds ''jitter_high.min_samples'' 3)
      in sustained_scan (\<lambda>s. Jitter s > threshold) minSamples
           (\<lambda>s e n. let avgJitter = averageJitter (slice samples s e) in
              \<lparr>RuleName = ''jitter_high'', Severity = ''warning'',
               Message = ''Jitter high at '' @ FormatInt avgJitter @ '' ms for '' @ FormatInt n @ '' samples'',
               StartTS = Timestamp (samples ! s), EndTS = Timestamp (samples ! (e - 1)),
               Context = [(''average_jitter'', JInt avgJitter), (''sample_count'', JInt n)]\<rparr>)
           samples 0 0 0)"

definition evaluateAudioConcealmentHigh :: "StatRow list \<Rightarrow> thresholds \<Rightarrow> Observation list option" where
  "evaluateAudioConcealmentHigh samples thresholds =
     (let threshold = floatThreshold thresholds ''audio_concealment_high.threshold'' (f64 (10 / 100));
          minSamples = go_int (floatThreshold thresholds ''audio_concealment_high.min_samples'' 3)
      in sustained_scan (\<lambda>s. AudioConcealmentRatio s > threshold) minSamples
           (\<lambda>s e n. let avgConcealment = averageAudioConcealment (slice samples s e) in
              \<lparr>RuleName = ''audio_concealment_high'', Severity = ''warning'',
               Message = ''Audio concealment high at '' @ fmt_f1 (f64 (avgConcealment * 100)) @ ''% for ''
                         @ FormatInt n @ '' samples'',
               StartTS = Timestamp (samples ! s), EndTS = Timestamp (samples ! (e - 1)),
               Context = [(''average_concealment'', JNum avgConcealment), (''sample_count'', JInt n)]\<rparr>)
           samples 0 0 0)"

subsection \<open>The rules on single samples and on neighbours\<close>

definition evaluatePacketLossSpike :: "StatRow list \<Rightarrow> thresholds \<Rightarrow> Observation list option" where
  "evaluatePacketLossSpike samples thresholds =
     (let threshold = floatThreshold thresholds ''packet_loss_spike.threshold'' (f64 (15 / 100))
      in Some (map (\<lambda>sample.
            \<lparr>RuleName = ''packet_loss_spike'', Severity = ''critical'',
             Message = ''Packet loss spike detected: '' @ fmt_f1 (f64 (PacketLossRatio sample * 100)) @ ''%'',
             StartTS = Timestamp sample, EndTS = Timestamp sample,
             Context = [(''loss_ratio'', JNum (PacketLossRatio sample))]\<rparr>)
          (filter (\<lambda>sample. PacketLossRatio sample > threshold) samples)))"

text \<open>The loops that compare \<open>samples[i]\<close> with \<open>samples[i-1]\<close> for \<open>i \<ge> 1\<close>.\<close>

fun pairwise :: "('a \<Rightarrow> 'a \<Rightarrow> 'o list) \<Rightarrow> 'a list \<Rightarrow> 'o list" where
  "pairwise f (x # y # ys) = f x y @ pairwise f (y # ys)"
| "pairwise f _ = []"

definition evaluateRTTSpike :: "StatRow list \<Rightarrow> thresholds \<Rightarrow> Observation list option" where
  "evaluateRTTSpike samples thresholds =
     (let delta = go_int32 (floatThreshold thresholds ''rtt_spike_delta.threshold'' 100)
      in Some (pairwise (\<lambda>prev cur.
           let increase = i32 (RTT cur - RTT prev) in
           if increase > delta then
             [\<lparr>RuleName = ''rtt_spike'', Severity = ''warning'',
               Message = ''RTT spike: '' @ FormatInt (RTT prev) @ '' ms -> '' @ FormatInt (RTT cur)
                         @ '' ms (delta: '' @ FormatInt increase @ '' ms)'',
               StartTS = Timestamp prev, EndTS = Timestamp cur,
               Context = [(''previous_rtt'', JInt (RTT prev)), (''current_rtt'', JInt (RTT cur)),
                          (''delta'', JInt increase)]\<rparr>]
           else []) samples))"

definition evaluateBitrateCollapse :: "StatRow list \<Rightarrow> thresholds \<Rightarrow> Observation list option" where
  "evaluateBitrateCollapse samples thresholds =
     (let ratio = floatThreshold thresholds ''bitrate_collapse_ratio.threshold'' (1 / 2)
      in Some (pairwise (\<lambda>prev cur.
           if OutboundBitrate prev > 0 then
             let dropped = f64 (1 - f64 (f64 (of_int (OutboundBitrate cur)) / f64 (of_int (OutboundBitrate prev))))
             in if dropped > ratio then
                  let percentDrop = f64 (dropped * 100) in
                  [\<lparr>RuleName = ''bitrate_collapse'', Severity = ''critical'',
                    Message = ''Bitrate collapse: '' @ fmt_f1 percentDrop @ ''% drop (''
                              @ FormatInt (OutboundBitrate prev) @ '' bps -> ''
                              @ FormatInt (OutboundBitrate cur) @ '' bps)'',
                    StartTS = Timestamp prev, EndTS = Timestamp cur,
                    Context = [(''previous_bitrate'', JInt (OutboundBitrate prev)),
                               (''current_bitrate'', JInt (OutboundBitrate cur)),
                               (''drop_percent'', JNum percentDrop)]\<rparr>]
                else []
           else []) samples))"

subsection \<open>Repeated video freezes\<close>

text \<open>\<open>freeze_obs\<close> reads \<open>samples[s]\<close> and \<open>samples[e]\<close> and panics (\<open>None\<close>)
  when either index is out of range.  The counter difference is an \<open>int\<close> subtraction.\<close>

definition freeze_obs :: "StatRow list \<Rightarrow> nat \<Rightarrow> nat \<Rightarrow> Observation option" where
  "freeze_obs samples s e =
     (if s < length samples \<and> e < length samples then
        let freezeCount = i64 (VideoFreezeCount (samples ! e) - VideoFreezeCount (samples ! s)) in
        Some \<lparr>RuleName = ''video_freeze_repeated'', Severity = ''warning'',
              Message = ''Video freeze repeated: '' @ FormatInt freezeCount @ '' freeze events'',
              StartTS = Timestamp (samples ! s), EndTS = Timestamp (samples ! e),
              Context = [(''freeze_count'', JInt freezeCount)]\<rparr>
      else None)"

fun freeze_scan :: "StatRow list \<Rightarrow> StatRow list \<Rightarrow> nat \<Rightarrow> nat \<Rightarrow> nat \<Rightarrow> Observation list option" where
  "freeze_scan samples [] i start cnt =
     (if cnt \<ge> 2
      then map_option (\<lambda>ob. [ob]) (freeze_obs samples start (length samples - 1)) else Some [])"
| "freeze_scan samples (sample # rest) i start cnt =
     (if i > 0 \<and> VideoFreezeCount sample > VideoFreezeCount (samples ! (i - 1)) then
        freeze_scan samples rest (Suc i) (if cnt = 0 then i - 1 else start) (Suc cnt)
      else if cnt > 0 then
        (if cnt \<ge> 2 then
           (case freeze_obs samples start (start + cnt) of
              None \<Rightarrow> None
            | Some ob \<Rightarrow> map_option ((#) ob) (freeze_scan samples rest (Suc i) start 0))
         else freeze_scan samples rest (Suc i) start 0)
      else freeze_scan samples rest (Suc i) start cnt)"

definition evaluateVideoFreezeRepeated :: "StatRow list \<Rightarrow> thresholds \<Rightarrow> Observation list option" where
  "evaluateVideoFreezeRepeated samples thresholds = freeze_scan samples samples 0 0 0"

definition evaluateICEFailureRule :: "StatRow list \<Rightarrow> thresholds \<Rightarrow> Observation list option" where
  "evaluateICEFailureRule samples thresholds = Some []"

record ObservationRule =
  Name :: string
  RSeverity :: string
  Evaluate :: "StatRow list \<Rightarrow> thresholds \<Rightarrow> Observation list option"

definition DefaultRules :: "ObservationRule list" where
  "DefaultRules =
     [\<lparr>Name = ''packet_loss_sustained'', RSeverity = ''warning'', Evaluate = evaluatePacketLossSustained\<rparr>,
      \<lparr>Name = ''packet_loss_spike'', RSeverity = ''critical'', Evaluate = evaluatePacketLossSpike\<rparr>,
      \<lparr>Name = ''rtt_high'', RSeverity = ''warning'', Evaluate = evaluateRTTHigh\<rparr>,
      \<lparr>Name = ''rtt_spike'', RSeverity = ''warning'', Evaluate = evaluateRTTSpike\<rparr>,
      \<lparr>Name = ''jitter_high'', RSeverity = ''warning'', Evaluate = evaluateJitterHigh\<rparr>,
      \<lparr>Name = ''video_freeze_repeated'', RSeverity = ''warning'', Evaluate = evaluateVideoFreezeRepeated\<rparr>,
      \<lparr>Name = ''audio_concealment_high'', RSeverity = ''warning'', Evaluate = evaluateAudioConcealmentHigh\<rparr>,
      \<lparr>Name = ''bitrate_collapse'', RSeverity = ''critical'', Evaluate = evaluateBitrateCollapse\<rparr>,
      \<lparr>Name = ''ice_failure'', RSeverity = ''critical'', Evaluate = evaluateICEFailureRule\<rparr>]"

subsection \<open>The sustained loop reports the maximal runs\<close>

definition max_run :: "('a \<Rightarrow> bool) \<Rightarrow> 'a list \<Rightarrow> nat \<Rightarrow> nat \<Rightarrow> bool" where
  "max_run hot xs s e \<longleftrightarrow>
     s < e \<and> e \<le> length xs \<and> (\<forall>j. s \<le> j \<and> j < e \<longrightarrow> hot (xs ! j))
   \<and> (s = 0 \<or> \<not> hot (xs ! (s - 1))) \<and> (e = length xs \<or> \<not> hot (xs ! e))"

text \<open>The loop state at index \<open>i\<close>: either no run is open, or \<open>start\<close> is where the open
  run began.\<close>

definition scan_state :: "('a \<Rightarrow> bool) \<Rightarrow> 'a list \<Rightarrow> nat \<Rightarrow> nat \<Rightarrow> int \<Rightarrow> bool" where
  "scan_state hot xs i start cnt \<longleftrightarrow>
     cnt = 0 \<and> (i = 0 \<or> \<not> hot (xs ! (i - 1)))
   \<or> start < i \<and> cnt = int i - int start \<and> (\<forall>j. start \<le> j \<and> j < i \<longrightarrow> hot (xs ! j))
     \<and> (start = 0 \<or> \<not> hot (xs ! (start - 1)))"

lemma scan_state_hot:
  assumes "scan_state hot xs i start cnt" and "hot (xs ! i)"
  shows "scan_state hot xs (Suc i) (if cnt = 0 then i else start) (cnt + 1)"
  using assms by (auto simp: scan_state_def less_Suc_eq)

lemma scan_state_cold: "\<not> hot (xs ! i) \<Longrightarrow> scan_state hot xs (Suc i) start 0"
  by (simp add: scan_state_def)

lemma run_start_unique:
  assumes "max_run hot xs s e" and "\<forall>j. t \<le> j \<and> j < e \<longrightarrow> hot (xs ! j)"
    and "t < e" and "t = 0 \<or> \<not> hot (xs ! (t - 1))"
  shows "s = t"
proof (rule ccontr)
  assume "s \<noteq> t"
  then consider "s < t" | "t < s" by linarith
  then show False
  proof cases
    case 1
    then have "s \<le> t - 1 \<and> t - 1 < e" using assms(3) by linarith
    then have "hot (xs ! (t - 1))" using assms(1) unfolding max_run_def by blast
    with 1 assms(4) show False by simp
  next
    case 2
    moreover have "s < e" using assms(1) by (simp add: max_run_def)
    ultimately have "t \<le> s - 1 \<and> s - 1 < e" by linarith
    then have "hot (xs ! (s - 1))" using assms(2) by blast
    with 2 assms(1) show False by (auto simp: max_run_def)
  qed
qed

lemma run_ending_here:
  assumes "scan_state hot xs i start cnt" and "i \<le> length xs" and "i = length xs \<or> \<not> hot (xs ! i)"
  shows "max_run hot xs s i \<longleftrightarrow> cnt \<noteq> 0 \<and> s = start"
proof (cases "cnt = 0")
  case True
  with assms(1) have "i = 0 \<or> \<not> hot (xs ! (i - 1))" by (auto simp: scan_state_def)
  then show ?thesis using True by (auto simp: max_run_def)
next
  case False
  with assms(1) have open_run: "start < i" "\<forall>j. start \<le> j \<and> j < i \<longrightarrow> hot (xs ! j)"
    "start = 0 \<or> \<not> hot (xs ! (start - 1))" by (auto simp: scan_state_def)
  with assms(2,3) have "max_run hot xs start i" by (auto simp: max_run_def)
  with run_start_unique [OF _ open_run(2,1,3)] False show ?thesis by blast
qed

definition runs_from :: "('a \<Rightarrow> bool) \<Rightarrow> int \<Rightarrow> 'a list \<Rightarrow> nat \<Rightarrow> (nat \<times> nat) set" where
  "runs_from hot minSamples xs i =
     {(s, e). max_run hot xs s e \<and> minSamples \<le> int e - int s \<and> i \<le> e}"

lemma runs_from_hot:
  "i < length xs \<Longrightarrow> hot (xs ! i) \<Longrightarrow> runs_from hot m xs i = runs_from hot m xs (Suc i)"
  by (auto simp: runs_from_def max_run_def le_less Suc_le_eq)

lemma runs_from_step:
  assumes "scan_state hot xs i start cnt" and "i \<le> length xs" and "i = length xs \<or> \<not> hot (xs ! i)"
    and "1 \<le> m"
  shows "runs_from hot m xs i = (if m \<le> cnt then {(start, i)} else {}) \<union> runs_from hot m xs (Suc i)"
proof -
  have "cnt \<noteq> 0 \<Longrightarrow> cnt = int i - int start" using assms(1) by (auto simp: scan_state_def)
  then have "(s, i) \<in> runs_from hot m xs i \<longleftrightarrow> m \<le> cnt \<and> s = start" for s
    using run_ending_here [OF assms(1-3), of s] assms(4) by (auto simp: runs_from_def)
  moreover have "(s, e) \<in> runs_from hot m xs i \<longleftrightarrow> (s, e) \<in> runs_from hot m xs (Suc i)" if "e \<noteq> i" for s e
    using that by (auto simp: runs_from_def)
  moreover have "(s, i) \<notin> runs_from hot m xs (Suc i)" for s by (simp add: runs_from_def)
  ultimately show ?thesis by (auto split: if_splits) (metis)+
qed

lemma runs_from_after_cold:
  assumes "(s, e) \<in> runs_from hot m xs (Suc i)" and "\<not> hot (xs ! i)"
  shows "i < s"
proof (rule ccontr)
  assume "\<not> i < s"
  with assms(1) have "hot (xs ! i)" by (auto simp: runs_from_def max_run_def)
  with assms(2) show False by simp
qed

definition run_result :: "(nat \<Rightarrow> nat \<Rightarrow> int \<Rightarrow> 'o) \<Rightarrow> (nat \<times> nat) set \<Rightarrow> 'o list option \<Rightarrow> bool" where
  "run_result mk R res \<longleftrightarrow>
     (\<exists>rs. res = Some (map (\<lambda>(s, e). mk s e (int e - int s)) rs)
        \<and> sorted_wrt (\<lambda>(s, e) (s', e'). e < s') rs \<and> set rs = R)"

lemma sustained_scan_runs:
  assumes "1 \<le> m" and "scan_state hot xs i start cnt" and "i \<le> length xs" and "ys = drop i xs"
  shows "run_result mk (runs_from hot m xs i) (sustained_scan hot m mk ys i start cnt)"
  using assms
proof (induction ys arbitrary: i start cnt)
  case Nil
  then have i: "i = length xs" by simp
  have "runs_from hot m xs (Suc i) = {}" by (auto simp: runs_from_def max_run_def i)
  with Nil i have R: "runs_from hot m xs i = (if m \<le> cnt then {(start, i)} else {})"
    using runs_from_step [of hot xs i start cnt m] by simp
  from Nil have "m \<le> cnt \<Longrightarrow> i \<noteq> 0 \<and> cnt = int i - int start" by (auto simp: scan_state_def)
  then show ?case
    unfolding run_result_def R
    by (cases "m \<le> cnt") (auto intro: exI [of _ "[(start, i)]"])
next
  case (Cons y ys)
  then have il: "i < length xs" and y: "y = xs ! i" and ys: "ys = drop (Suc i) xs"
    by (metis drop_eq_Nil list.distinct(1) not_le, metis hd_drop_conv_nth drop_eq_Nil list.distinct(1)
        list.sel(1) not_le, metis drop_Suc tl_drop list.sel(3))
  show ?case
  proof (cases "hot y")
    case True
    have "run_result mk (runs_from hot m xs (Suc i))
        (sustained_scan hot m mk ys (Suc i) (if cnt = 0 then i else start) (cnt + 1))"
      using Cons.prems(1,2) True y il ys by (intro Cons.IH scan_state_hot) auto
    then show ?thesis using True runs_from_hot [of i xs hot m] il y by simp
  next
    case False
    then obtain rs where rs: "sustained_scan hot m mk ys (Suc i) start 0
          = Some (map (\<lambda>(s, e). mk s e (int e - int s)) rs)"
        "sorted_wrt (\<lambda>(s, e) (s', e'). e < s') rs" "set rs = runs_from hot m xs (Suc i)"
      using Cons.IH [of "Suc i" start 0] Cons.prems(1) y il ys scan_state_cold [of hot xs i start]
      by (auto simp: run_result_def)
    have R: "runs_from hot m xs i = (if m \<le> cnt then {(start, i)} else {}) \<union> runs_from hot m xs (Suc i)"
      using Cons.prems(1-3) False y by (intro runs_from_step) auto
    have after: "\<forall>(s, e) \<in> set rs. i < s"
      using rs(3) runs_from_after_cold False y by fastforce
    show ?thesis
    proof (cases "m \<le> cnt")
      case True
      then have "i \<noteq> 0" "cnt = int i - int start"
        using Cons.prems(1,2) by (auto simp: scan_state_def)
      with True False rs R after show ?thesis
        unfolding run_result_def by (intro exI [of _ "(start, i) # rs"]) auto
    next
      case notmin: False
      with False rs R show ?thesis unfolding run_result_def by auto
    qed
  qed
qed

lemma sustained_scan_spec:
  "1 \<le> m \<Longrightarrow> run_result mk (runs_from hot m xs 0) (sustained_scan hot m mk xs 0 0 0)"
  by (rule sustained_scan_runs) (simp_all add: scan_state_def)

subsection \<open>The freeze loop stays in range\<close>

lemma freeze_scan_total:
  assumes "i + length ys = length samples" and "0 < cnt \<Longrightarrow> Suc (start + cnt) = i"
  shows "freeze_scan samples ys i start cnt \<noteq> None"
  using assms
proof (induction ys arbitrary: i start cnt)
  case Nil
  then show ?case by (auto simp: freeze_obs_def Let_def)
next
  case (Cons y ys)
  have IH: "freeze_scan samples ys (Suc i) st c \<noteq> None" if "0 < c \<Longrightarrow> Suc (st + c) = Suc i" for st c
    using Cons.IH [of "Suc i" c st] Cons.prems(1) that by auto
  have ob: "0 < cnt \<Longrightarrow> freeze_obs samples start (start + cnt) \<noteq> None"
    using Cons.prems by (auto simp: freeze_obs_def Let_def)
  show ?case using IH ob Cons.prems by (auto split: option.splits)
qed

lemma freeze_scan_constant:
  assumes "\<forall>x \<in> set samples. VideoFreezeCount x = c" and "set ys \<subseteq> set samples"
    and "i + length ys = length samples"
  shows "freeze_scan samples ys i start 0 = Some []"
  using assms
proof (induction ys arbitrary: i)
  case (Cons y ys)
  then have "0 < i \<longrightarrow> samples ! (i - 1) \<in> set samples" by auto
  with Cons show ?case by auto
qed simp

subsection \<open>Averages of bounded samples\<close>

lemma foldl_i32_sum:
  assumes "\<forall>x \<in> set xs. lo \<le> f x \<and> f x \<le> hi" and "0 \<le> lo" and "0 \<le> s"
    and "s + int (length xs) * hi < 2 ^ 31"
  shows "foldl (\<lambda>s x. i32 (s + f x)) s xs = s + (\<Sum>x\<leftarrow>xs. f x)
       \<and> int (length xs) * lo \<le> (\<Sum>x\<leftarrow>xs. f x) \<and> (\<Sum>x\<leftarrow>xs. f x) \<le> int (length xs) * hi"
  using assms
proof (induction xs arbitrary: s)
  case (Cons x xs)
  have lohi: "0 \<le> f x" "lo \<le> f x" "f x \<le> hi" using Cons.prems(1,2) by auto
  then have nn: "0 \<le> int (length xs) * hi" by (intro mult_nonneg_nonneg) auto
  have eq: "int (length (x # xs)) * hi = hi + int (length xs) * hi" by (simp add: algebra_simps)
  have "s + f x < 2 ^ 31" using Cons.prems(4) nn lohi(3) unfolding eq by linarith
  with Cons.prems(3) lohi(1) have "in_i32 (s + f x)" by (simp add: in_i32_def)
  moreover have "s + f x + int (length xs) * hi < 2 ^ 31"
    using Cons.prems(4) lohi by (simp add: algebra_simps)
  ultimately show ?case
    using Cons.IH [of "s + f x"] Cons.prems(1-3) lohi by (simp add: algebra_simps)
qed simp

lemma averageInt32_between:
  assumes ne: "samples \<noteq> []" and b: "\<forall>x \<in> set samples. lo \<le> f x \<and> f x \<le> hi"
    and "0 \<le> lo" and lim: "int (length samples) * hi < 2 ^ 31" and pos: "0 < hi"
  shows "lo \<le> averageInt32 f samples \<and> averageInt32 f samples \<le> hi"
proof -
  let ?n = "int (length samples)" and ?s = "\<Sum>x\<leftarrow>samples. f x"
  have n: "0 < ?n" using ne by simp
  have "?n * 1 \<le> ?n * hi" using pos n by (intro mult_left_mono) auto
  then have "?n < 2 ^ 31" using lim by linarith
  then have "i32 ?n = ?n" using n by (intro i32_id) (simp add: in_i32_def)
  moreover have s: "foldl (\<lambda>s x. i32 (s + f x)) 0 samples = ?s" "?n * lo \<le> ?s" "?s \<le> ?n * hi"
    using foldl_i32_sum [of samples lo f hi 0] assms by auto
  moreover have "0 \<le> ?s" using s(2) n assms(3) by (meson mult_nonneg_nonneg less_imp_le order_trans)
  ultimately have "averageInt32 f samples = ?s div ?n"
    using ne n by (simp add: averageInt32_def quot_nonneg)
  moreover have "lo \<le> ?s div ?n"
    using zdiv_mono1 [OF s(2) n] n by simp
  moreover have "?s div ?n \<le> hi"
    using zdiv_mono1 [OF s(3) n] n by simp
  ultimately show ?thesis by simp
qed

subsection \<open>Properties\<close>

definition hot_loss :: "thresholds \<Rightarrow> StatRow \<Rightarrow> bool" where
  "hot_loss th s \<longleftrightarrow>
     PacketLossRatio s > floatThreshold th ''packet_loss_sustained.threshold'' (f64 (5 / 100))"

definition hot_rtt :: "thresholds \<Rightarrow> StatRow \<Rightarrow> bool" where
  "hot_rtt th s \<longleftrightarrow> RTT s > go_int32 (floatThreshold th ''rtt_high.threshold'' 300)"

definition hot_jitter :: "thresholds \<Rightarrow> StatRow \<Rightarrow> bool" where
  "hot_jitter th s \<longleftrightarrow> Jitter s > go_int32 (floatThreshold th ''jitter_high.threshold'' 50)"

definition hot_concealment :: "thresholds \<Rightarrow> StatRow \<Rightarrow> bool" where
  "hot_concealment th s \<longleftrightarrow>
     AudioConcealmentRatio s > floatThreshold th ''audio_concealment_high.threshold'' (f64 (10 / 100))"

text \<open>\<open>reports_runs hot m samples r\<close>: the result \<open>r\<close> is a list of observations, one for
  each maximal run of at least \<open>m\<close> hot samples and none else, in time order, each spanning
  its run from the first to the last sample.\<close>

definition reports_runs :: "(StatRow \<Rightarrow> bool) \<Rightarrow> int \<Rightarrow> StatRow list \<Rightarrow> Observation list option \<Rightarrow> bool" where
  "reports_runs hot m samples res \<longleftrightarrow>
     (\<exists>obs rs. res = Some obs
        \<and> map (\<lambda>ob. (StartTS ob, EndTS ob)) obs
            = map (\<lambda>(s, e). (Timestamp (samples ! s), Timestamp (samples ! (e - 1)))) rs
        \<and> sorted_wrt (\<lambda>(s, e) (s', e'). e < s') rs
        \<and> set rs = {(s, e). max_run hot samples s e \<and> m \<le> int e - int s})"

lemma reports_runsI:
  assumes "1 \<le> m" and "\<And>s e n. StartTS (mk s e n) = Timestamp (samples ! s)"
    and "\<And>s e n. EndTS (mk s e n) = Timestamp (samples ! (e - 1))"
  shows "reports_runs hot m samples (sustained_scan hot m mk samples 0 0 0)"
proof -
  obtain rs where
    "sustained_scan hot m mk samples 0 0 0 = Some (map (\<lambda>(s, e). mk s e (int e - int s)) rs)"
    "sorted_wrt (\<lambda>(s, e) (s', e'). e < s') rs" "set rs = runs_from hot m samples 0"
    using sustained_scan_spec [OF assms(1), of mk hot samples] by (auto simp: run_result_def)
  then show ?thesis
    unfolding reports_runs_def
    by (intro exI [of _ "map (\<lambda>(s, e). mk s e (int e - int s)) rs"] exI [of _ rs])
      (auto simp: assms(2,3) runs_from_def)
qed

text \<open>(C15) Each of the four sustained rules (packet loss, round trip, jitter, audio concealment),
  configured with a minimum of at least one sample, terminates without a panic and reports exactly
  the maximal runs of samples above its threshold that are at least the minimum long: one
  observation per run, in time order, spanning the run from its first to its last sample.\<close>
theorem sustained_rules_report_maximal_runs:
  "(1 \<le> go_int (floatThreshold th ''packet_loss_sustained.min_samples'' 3) \<longrightarrow>
      reports_runs (hot_loss th) (go_int (floatThreshold th ''packet_loss_sustained.min_samples'' 3))
        samples (evaluatePacketLossSustained samples th))
 \<and> (1 \<le> go_int (floatThreshold th ''rtt_high.min_samples'' 2) \<longrightarrow>
      reports_runs (hot_rtt th) (go_int (floatThreshold th ''rtt_high.min_samples'' 2))
        samples (evaluateRTTHigh samples th))
 \<and> (1 \<le> go_int (floatThreshold th ''jitter_high.min_samples'' 3) \<longrightarrow>
      reports_runs (hot_jitter th) (go_int (floatThreshold th ''jitter_high.min_samples'' 3))
        samples (evaluateJitterHigh samples th))
 \<and> (1 \<le> go_int (floatThreshold th ''audio_concealment_high.min_samples'' 3) \<longrightarrow>
      reports_runs (hot_concealment th) (go_int (floatThreshold th ''audio_concealment_high.min_samples'' 3))
        samples (evaluateAudioConcealmentHigh samples th))"
  unfolding evaluatePacketLossSustained_def evaluateRTTHigh_def evaluateJitterHigh_def
    evaluateAudioConcealmentHigh_def Let_def hot_loss_def [abs_def] hot_rtt_def [abs_def]
    hot_jitter_def [abs_def] hot_concealment_def [abs_def]
  by (intro conjI impI reports_runsI) simp_all

definition flat_sample :: "instant \<Rightarrow> rat \<Rightarrow> int \<Rightarrow> StatRow" where
  "flat_sample t loss rtt = \<lparr>Timestamp = t, PacketLossRatio = loss, RTT = rtt, Jitter = 0,
     VideoFreezeCount = 0, AudioConcealmentRatio = 0, OutboundBitrate = 0\<rparr>"

theorem sustained_rules_report_maximal_runs_witness:
  "reports_runs (hot_rtt (\<lambda>_. None)) 2 [flat_sample 1 0 400, flat_sample 2 0 500, flat_sample 3 0 10]
     (evaluateRTTHigh [flat_sample 1 0 400, flat_sample 2 0 500, flat_sample 3 0 10] (\<lambda>_. None))"
proof -
  have "go_int (floatThreshold (\<lambda>_. None) ''rtt_high.min_samples'' 2) = 2"
    by (simp add: floatThreshold_def go_int_def ftrunc_def in_i64_def)
  then show ?thesis
    using sustained_rules_report_maximal_runs
      [of "\<lambda>_. None" "[flat_sample 1 0 400, flat_sample 2 0 500, flat_sample 3 0 10]"] by simp
qed

text \<open>A configured minimum of zero samples makes the packet-loss rule panic on the first sample
  that is not above the threshold: the code then reads \<open>samples[-1]\<close>.  Nothing between the
  stored \<open>observation_config\<close> and the rule excludes such a value.\<close>
theorem zero_min_samples_panics:
  assumes "go_int (floatThreshold th ''packet_loss_sustained.min_samples'' 3) \<le> 0"
    and "\<not> hot_loss th s"
  shows "evaluatePacketLossSustained (s # samples) th = None"
  using assms by (simp add: evaluatePacketLossSustained_def hot_loss_def)

theorem zero_min_samples_panics_witness:
  "evaluatePacketLossSustained [flat_sample 1 0 40]
     [''packet_loss_sustained.min_samples'' \<mapsto> JNum 0] = None"
proof (rule zero_min_samples_panics)
  show "go_int (floatThreshold [''packet_loss_sustained.min_samples'' \<mapsto> JNum 0]
      ''packet_loss_sustained.min_samples'' 3) \<le> 0"
    by (simp add: floatThreshold_def go_int_def ftrunc_def in_i64_def)
  have "0 \<le> f64 (5 / 100)" by (rule f64.nonneg) simp
  then show "\<not> hot_loss [''packet_loss_sustained.min_samples'' \<mapsto> JNum 0] (flat_sample 1 0 40)"
    by (simp add: hot_loss_def floatThreshold_def flat_sample_def)
qed

text \<open>The repeated-freeze rule never reads out of range, and it reports nothing when the freeze
  counter of the samples does not change.\<close>
theorem video_freeze_safe:
  "evaluateVideoFreezeRepeated samples th \<noteq> None
 \<and> ((\<forall>x \<in> set samples. VideoFreezeCount x = c) \<longrightarrow> evaluateVideoFreezeRepeated samples th = Some [])"
  unfolding evaluateVideoFreezeRepeated_def
  using freeze_scan_total [of 0 samples samples 0 0] freeze_scan_constant [of samples c samples 0 0]
  by simp

theorem video_freeze_safe_witness:
  "evaluateVideoFreezeRepeated [flat_sample 1 0 40, flat_sample 2 0 50] (\<lambda>_. None) = Some []"
  using video_freeze_safe [of "[flat_sample 1 0 40, flat_sample 2 0 50]" "\<lambda>_. None" 0]
  by (simp add: flat_sample_def)

text \<open>The \<open>int32\<close> average of round-trip times or jitter values lies between the bounds
  of the samples as long as their sum cannot leave the \<open>int32\<close> range.\<close>
theorem average_rtt_jitter_bounds:
  assumes "samples \<noteq> []" and "0 \<le> lo" and "0 < hi" and "int (length samples) * hi < 2 ^ 31"
  shows "((\<forall>x \<in> set samples. lo \<le> RTT x \<and> RTT x \<le> hi) \<longrightarrow>
            lo \<le> averageRTT samples \<and> averageRTT samples \<le> hi)
       \<and> ((\<forall>x \<in> set samples. lo \<le> Jitter x \<and> Jitter x \<le> hi) \<longrightarrow>
            lo \<le> averageJitter samples \<and> averageJitter samples \<le> hi)"
  using averageInt32_between [OF assms(1) _ assms(2,4,3)]
  unfolding averageRTT_def averageJitter_def by blast

theorem average_rtt_jitter_bounds_witness:
  "100 \<le> averageRTT [flat_sample 1 0 100, flat_sample 2 0 300]
 \<and> averageRTT [flat_sample 1 0 100, flat_sample 2 0 300] \<le> 300"
  using average_rtt_jitter_bounds [of "[flat_sample 1 0 100, flat_sample 2 0 300]" 100 300]
  by (simp add: flat_sample_def)

end
