(* ===== verification/Observations.thy ===== *)
theory Observations
  imports Emos_Compute Emos_Rules Database
begin

text \<open>
  The eMOS job and the observation engine, \<^verbatim>\<open>internal/emos/job.go\<close> and
  \<^verbatim>\<open>internal/emos/observations.go\<close>, over the database of theory \<open>Database\<close>.

  Queries are list comprehensions over the tables; where SQL leaves the order open the order of the
  table is used.  \<open>scan_int32\<close> is how the driver converts a \<open>real\<close> column to a Go
  \<open>int32\<close> destination (\<open>None\<close> when it refuses to); it is a parameter.  A time
  formatted with \<open>time.RFC3339\<close> keeps whole seconds (\<open>rfc3339\<close>).  \<open>Panicked\<close>
  is a run-time panic in a rule, which no caller recovers.
\<close>

subsection \<open>Definitions\<close>

datatype job_error = Failed string | Panicked

definition rfc3339 :: "instant \<Rightarrow> instant" where
  "rfc3339 t = t div 1000000000 * 1000000000"

definition default_thresholds :: "(string \<times> jval) list" where
  "default_thresholds =
     [(''packet_loss_sustained.threshold'', JNum (f64 (1 / 20))),
      (''packet_loss_spike.threshold'', JNum (f64 (3 / 20))),
      (''rtt_high.threshold'', JNum 300),
      (''rtt_spike_delta.threshold'', JNum 100),
      (''jitter_high.threshold'', JNum 50),
      (''audio_concealment_high.threshold'', JNum (f64 (1 / 10))),
      (''bitrate_collapse_ratio.threshold'', JNum (1 / 2)),
      (''packet_loss_sustained.min_samples'', JNum 3),
      (''rtt_high.min_samples'', JNum 2),
      (''jitter_high.min_samples'', JNum 3),
      (''audio_concealment_high.min_samples'', JNum 3)]"

record ObservationEngine =
  rules :: "ObservationRule list"
  defaults :: "(string \<times> jval) list"

definition NewObservationEngine :: ObservationEngine where
  "NewObservationEngine = \<lparr>rules = DefaultRules, defaults = default_thresholds\<rparr>"

definition scan_stat :: "(rat \<Rightarrow> int option) \<Rightarrow> stats_row \<Rightarrow> StatRow option" where
  "scan_stat scan_int32 r =
     (case (scan_int32 (cs_rtt_ms r), scan_int32 (cs_jitter_ms r)) of
        (Some rtt, Some jitter) \<Rightarrow> Some
          \<lparr>Timestamp = cs_ts r, PacketLossRatio = cs_packets_lost_rate r, RTT = rtt, Jitter = jitter,
           VideoFreezeCount = 0, AudioConcealmentRatio = cs_concealment_ratio r,
           OutboundBitrate = cs_bitrate_out_kbps r * 1000\<rparr>
      | _ \<Rightarrow> None)"

definition loadConnectionStats ::
  "faults \<Rightarrow> (rat \<Rightarrow> int option) \<Rightarrow> database \<Rightarrow> int \<Rightarrow> job_error + StatRow list" where
  "loadConnectionStats ft scan_int32 d connectionID =
     (if ft ''emos: query stats'' then Inl (Failed ''emos: query stats'')
      else let found = sort_key cs_ts (filter (\<lambda>r. cs_connection_id r = connectionID) (connection_stats d));
               scanned = map (scan_stat scan_int32) found in
           if None \<in> set scanned then Inl (Failed ''emos: scan row'')
           else if ft ''emos: iterate rows'' then Inl (Failed ''emos: iterate rows'')
           else Inr (map the scanned))"

definition app_config :: "database \<Rightarrow> int \<Rightarrow> jval option" where
  "app_config d appID =
     (case List.find (\<lambda>a. app_id a = appID) (apps d) of
        None \<Rightarrow> None
      | Some a \<Rightarrow> Some (case observation_config a of None \<Rightarrow> JObj [] | Some j \<Rightarrow> j))"

definition loadThresholds ::
  "faults \<Rightarrow> ObservationEngine \<Rightarrow> database \<Rightarrow> int \<Rightarrow> job_error + thresholds" where
  "loadThresholds ft e d appID =
     (if ft ''emos: query app config'' then Inl (Failed ''emos: query app config'')
      else case app_config d appID of
             None \<Rightarrow> Inl (Failed ''emos: query app config'')
           | Some (JObj kvs) \<Rightarrow> Inr (map_of (defaults e) ++ map_of kvs)
           | Some _ \<Rightarrow> Inr (map_of (defaults e)))"

definition payload_str :: "jval \<Rightarrow> string \<Rightarrow> jval option" where
  "payload_str j k = (case j of JObj kvs \<Rightarrow> map_of kvs k | _ \<Rightarrow> None)"

definition evaluateICEFailure :: "faults \<Rightarrow> database \<Rightarrow> int \<Rightarrow> job_error + Observation list" where
  "evaluateICEFailure ft d connectionID =
     (if ft ''emos: query ice failures'' then Inl (Failed ''emos: query ice failures'')
      else if ft ''emos: iterate ice failures'' then Inl (Failed ''emos: iterate ice failures'')
      else Inr (map (\<lambda>ev. \<lparr>RuleName = ''ice_failure'', Severity = ''critical'',
                          Message = ''ICE connection failed'', StartTS = ev_ts ev, EndTS = ev_ts ev,
                          Context = [(''event_type'', JStr ''ice_connection_state_change'')]\<rparr>)
                 (sort_key ev_ts (filter (\<lambda>ev. ev_connection_id ev = Some connectionID
                     \<and> ev_event_type ev = ''ice_connection_state_change''
                     \<and> payload_str (ev_payload ev) ''state'' = Some (JStr ''failed'')) (events d)))))"

definition observation_payload :: "Observation \<Rightarrow> jval" where
  "observation_payload obs =
     JObj [(''rule_name'', JStr (RuleName obs)), (''severity'', JStr (Severity obs)),
           (''message'', JStr (Message obs)), (''start_ts'', JTime (rfc3339 (StartTS obs))),
           (''end_ts'', JTime (rfc3339 (EndTS obs))), (''context'', JObj (Context obs))]"

definition observation_exists :: "database \<Rightarrow> int \<Rightarrow> Observation \<Rightarrow> bool" where
  "observation_exists d connectionID obs \<longleftrightarrow>
     (\<exists>ev \<in> set (events d). ev_connection_id ev = Some connectionID \<and> ev_event_type ev = ''observation''
        \<and> payload_str (ev_payload ev) ''rule_name'' = Some (JStr (RuleName obs))
        \<and> payload_str (ev_payload ev) ''start_ts'' = Some (JTime (StartTS obs))
        \<and> payload_str (ev_payload ev) ''end_ts'' = Some (JTime (EndTS obs)))"

definition insertObservationIfNew :: "faults \<Rightarrow> database \<Rightarrow> int \<Rightarrow> Observation \<Rightarrow> job_error option \<times> database" where
  "insertObservationIfNew ft d connectionID obs =
     (if ft ''emos: check duplicate'' then (Some (Failed ''emos: check duplicate''), d)
      else if observation_exists d connectionID obs then (None, d)
      else if ft ''emos: insert observation'' then (Some (Failed ''emos: insert observation''), d)
      else case List.find (\<lambda>c. conn_id c = connectionID) (connections d) of
             None \<Rightarrow> (None, d)
           | Some c \<Rightarrow>
               (None, d\<lparr>events := events d @ [\<lparr>ev_id = next_event d, ev_connection_id = Some connectionID,
                            ev_session_id = Some (conn_session_id c), ev_ts = StartTS obs,
                            ev_event_type = ''observation'', ev_payload = observation_payload obs\<rparr>],
                        next_event := next_event d + 1\<rparr>))"

fun evaluate_rules ::
  "faults \<Rightarrow> database \<Rightarrow> int \<Rightarrow> StatRow list \<Rightarrow> thresholds \<Rightarrow> ObservationRule list \<Rightarrow> Observation list option" where
  "evaluate_rules ft d connectionID stats th [] = Some []"
| "evaluate_rules ft d connectionID stats th (r # rs) =
     (let now = (if Name r = ''ice_failure''
                 then (case evaluateICEFailure ft d connectionID of Inl e \<Rightarrow> Some [] | Inr os \<Rightarrow> Some os)
                 else Evaluate r stats th)
      in case now of None \<Rightarrow> None
         | Some os \<Rightarrow> map_option (\<lambda>os'. os @ os') (evaluate_rules ft d connectionID stats th rs))"

definition EvaluateConnection ::
  "faults \<Rightarrow> (rat \<Rightarrow> int option) \<Rightarrow> ObservationEngine \<Rightarrow> int \<Rightarrow> int \<Rightarrow> database \<Rightarrow> job_error option \<times> database" where
  "EvaluateConnection ft scan_int32 e connectionID appID d =
     (case loadConnectionStats ft scan_int32 d connectionID of
        Inl err \<Rightarrow> (Some err, d)
      | Inr stats \<Rightarrow>
          if stats = [] then (None, d)
          else case loadThresholds ft e d appID of
                 Inl err \<Rightarrow> (Some err, d)
               | Inr th \<Rightarrow>
                   case evaluate_rules ft d connectionID stats th (rules e) of
                     None \<Rightarrow> (Some Panicked, d)
                   | Some os \<Rightarrow> (None, fold (\<lambda>obs d'. snd (insertObservationIfNew ft d' connectionID obs)) os d))"

subsection \<open>The job\<close>

definition median :: "rat list \<Rightarrow> rat" where
  "median xs =
     (let ys = sort xs; n = length ys; lo = ys ! ((n - 1) div 2); hi = ys ! (n div 2)
      in if odd n then hi else f64 (lo + f64 (1 / 2 * f64 (hi - lo))))"

definition session_stats :: "database \<Rightarrow> int \<Rightarrow> stats_row list" where
  "session_stats d sid =
     [cs. conn \<leftarrow> connections d, conn_session_id conn = sid, cs \<leftarrow> connection_stats d, cs_connection_id cs = conn_id conn]"

definition conference_sessions :: "database \<Rightarrow> int \<Rightarrow> int list" where
  "conference_sessions d conferenceID =
     [sess_id s. s \<leftarrow> sessions d,
        list_ex (\<lambda>p. part_id p = sess_participant_id s \<and> part_conference_id p = conferenceID) (participants d)]"

definition quality_rows :: "database \<Rightarrow> int \<Rightarrow> (int \<times> rat \<times> rat) list" where
  "quality_rows d conferenceID =
     [(sid, median (map cs_packets_lost_rate (session_stats d sid)), median (map cs_rtt_ms (session_stats d sid))).
        sid \<leftarrow> conference_sessions d conferenceID, session_stats d sid \<noteq> []]"

definition upsert_quality :: "quality_row \<Rightarrow> quality_row list \<Rightarrow> quality_row list" where
  "upsert_quality q rows =
     (if \<exists>r \<in> set rows. q_session_id r = q_session_id q
      then map (\<lambda>r. if q_session_id r = q_session_id q then q else r) rows else rows @ [q])"

fun write_quality ::
  "faults \<Rightarrow> instant \<Rightarrow> rat \<Rightarrow> (int \<times> rat \<times> rat) list \<Rightarrow> database \<Rightarrow> job_error option \<times> database" where
  "write_quality ft now k [] d = (if ft ''emos job: rows'' then Some (Failed ''emos job: rows'') else None, d)"
| "write_quality ft now k ((sid, loss, rtt) # qs) d =
     (let (emos, outcome) = ComputeEMOS loss rtt k in
      if ft (''emos job: upsert session_quality '' @ FormatInt sid)
      then (Some (Failed ''emos job: upsert session_quality''), d)
      else write_quality ft now k qs
             (d\<lparr>session_quality := upsert_quality \<lparr>q_session_id = sid, q_emos = emos, q_outcome = outcome,
                  q_computed_at = pg_time now\<rparr> (session_quality d)\<rparr>))"

definition conference_connections :: "database \<Rightarrow> int \<Rightarrow> (int \<times> int) list" where
  "conference_connections d conferenceID =
     remdups [(conn_id n, conf_app_id c). n \<leftarrow> connections d, s \<leftarrow> sessions d, sess_id s = conn_session_id n,
        p \<leftarrow> participants d, part_id p = sess_participant_id s \<and> part_conference_id p = conferenceID,
        c \<leftarrow> conferences d, conf_id c = part_conference_id p]"

fun evaluate_connections ::
  "faults \<Rightarrow> (rat \<Rightarrow> int option) \<Rightarrow> (int \<times> int) list \<Rightarrow> database \<Rightarrow> job_error option \<times> database" where
  "evaluate_connections ft sc [] d =
     (if ft ''emos job: iterate connections'' then Some (Failed ''emos job: iterate connections'') else None, d)"
| "evaluate_connections ft sc ((connectionID, appID) # cs) d =
     (case EvaluateConnection ft sc NewObservationEngine connectionID appID d of
        (Some Panicked, d') \<Rightarrow> (Some Panicked, d')
      | (_, d') \<Rightarrow> evaluate_connections ft sc cs d')"

definition runObservations :: "faults \<Rightarrow> (rat \<Rightarrow> int option) \<Rightarrow> int \<Rightarrow> database \<Rightarrow> job_error option \<times> database" where
  "runObservations ft sc conferenceID d =
     (if ft ''emos job: query connections'' then (Some (Failed ''emos job: query connections''), d)
      else evaluate_connections ft sc (conference_connections d conferenceID) d)"

definition RunJob ::
  "faults \<Rightarrow> (rat \<Rightarrow> int option) \<Rightarrow> instant \<Rightarrow> rat \<Rightarrow> int \<Rightarrow> database \<Rightarrow> job_error option \<times> database" where
  "RunJob ft sc now lossCoeff conferenceID d =
     (if ft ''emos job: query sessions'' then (Some (Failed ''emos job: query sessions''), d)
      else case write_quality ft now lossCoeff (quality_rows d conferenceID) d of
             (Some e, d') \<Rightarrow> (Some e, d')
           | (None, d') \<Rightarrow>
               (case runObservations ft sc conferenceID d' of
                  (Some Panicked, d'') \<Rightarrow> (Some Panicked, d'')
                | (_, d'') \<Rightarrow> (None, d'')))"

subsection \<open>What the job leaves alone\<close>

definition same_data :: "database \<Rightarrow> database \<Rightarrow> bool" where
  "same_data d d' \<longleftrightarrow>
     apps d' = apps d \<and> conferences d' = conferences d \<and> participants d' = participants d
   \<and> sessions d' = sessions d \<and> connections d' = connections d
   \<and> connection_stats d' = connection_stats d \<and> partitions d' = partitions d
   \<and> next_conf d' = next_conf d \<and> next_part d' = next_part d \<and> next_sess d' = next_sess d \<and> next_conn d' = next_conn d"

lemma same_data_trans: "same_data d d' \<Longrightarrow> same_data d' d'' \<Longrightarrow> same_data d d''"
  by (simp add: same_data_def)

lemma insert_keeps:
  "same_data d (snd (insertObservationIfNew ft d c obs))
   \<and> session_quality (snd (insertObservationIfNew ft d c obs)) = session_quality d"
  by (auto simp: insertObservationIfNew_def same_data_def split: option.splits)

lemma fold_insert_keeps:
  "same_data d (fold (\<lambda>obs d'. snd (insertObservationIfNew ft d' c obs)) os d)
   \<and> session_quality (fold (\<lambda>obs d'. snd (insertObservationIfNew ft d' c obs)) os d) = session_quality d"
proof (induction os arbitrary: d)
  case (Cons ob os)
  then show ?case using insert_keeps [of d ft c ob] by (auto intro: same_data_trans)
qed (simp add: same_data_def)

lemma EvaluateConnection_keeps:
  "EvaluateConnection ft sc e c a d = (r, d') \<Longrightarrow> same_data d d' \<and> session_quality d' = session_quality d"
  using fold_insert_keeps [of d ft c]
  by (auto simp: EvaluateConnection_def same_data_def split: sum.splits if_splits option.splits)

lemma evaluate_connections_keeps:
  "same_data d (snd (evaluate_connections ft sc cs d))
   \<and> session_quality (snd (evaluate_connections ft sc cs d)) = session_quality d"
proof (induction cs arbitrary: d)
  case Nil
  then show ?case by (simp add: same_data_def)
next
  case (Cons x cs)
  obtain c a where x: "x = (c, a)" by (cases x)
  obtain r d1 where 1: "EvaluateConnection ft sc NewObservationEngine c a d = (r, d1)"
    by (cases "EvaluateConnection ft sc NewObservationEngine c a d")
  show ?case
    using EvaluateConnection_keeps [OF 1] Cons.IH [of d1] 1 x
    by (auto intro: same_data_trans split: option.splits job_error.splits)
qed

lemma runObservations_keeps:
  "same_data d (snd (runObservations ft sc c d))
   \<and> session_quality (snd (runObservations ft sc c d)) = session_quality d"
  using evaluate_connections_keeps by (simp add: runObservations_def same_data_def)

subsection \<open>Session quality\<close>

lemma upsert_quality_spec:
  assumes "distinct (map q_session_id rows)"
  shows "filter (\<lambda>r. q_session_id r = s) (upsert_quality q rows)
       = (if s = q_session_id q then [q] else filter (\<lambda>r. q_session_id r = s) rows)"
    and "distinct (map q_session_id (upsert_quality q rows))"
proof -
  have f: "filter (\<lambda>r. q_session_id r = s) (map (\<lambda>r. if q_session_id r = q_session_id q then q else r) rows)
      = (if s = q_session_id q \<and> s \<in> q_session_id ` set rows then [q]
         else if s = q_session_id q then [] else filter (\<lambda>r. q_session_id r = s) rows)"
    using assms
  proof (induction rows)
    case (Cons r rows)
    have "filter (\<lambda>r. q_session_id r = s) rows = []" if "s \<notin> q_session_id ` set rows"
      using that by (auto simp: filter_empty_conv)
    with Cons show ?case by auto
  qed simp
  have m: "map q_session_id (map (\<lambda>r. if q_session_id r = q_session_id q then q else r) rows) = map q_session_id rows"
    by simp
  show "filter (\<lambda>r. q_session_id r = s) (upsert_quality q rows)
       = (if s = q_session_id q then [q] else filter (\<lambda>r. q_session_id r = s) rows)"
  proof (cases "\<exists>r \<in> set rows. q_session_id r = q_session_id q")
    case True
    then have "q_session_id q \<in> q_session_id ` set rows" by (auto simp: image_iff) metis
    with True f show ?thesis by (simp add: upsert_quality_def)
  next
    case False
    then show ?thesis by (auto simp: upsert_quality_def filter_empty_conv)
  qed
  show "distinct (map q_session_id (upsert_quality q rows))"
    using assms by (auto simp: upsert_quality_def simp del: map_map simp add: m)
qed

definition quality_of :: "instant \<Rightarrow> rat \<Rightarrow> int \<times> rat \<times> rat \<Rightarrow> quality_row" where
  "quality_of now k q = (case q of (sid, loss, rtt) \<Rightarrow>
     \<lparr>q_session_id = sid, q_emos = fst (ComputeEMOS loss rtt k), q_outcome = snd (ComputeEMOS loss rtt k),
      q_computed_at = pg_time now\<rparr>)"

lemma write_quality_ok:
  assumes "\<forall>sid. \<not> ft (''emos job: upsert session_quality '' @ FormatInt sid)" and "\<not> ft ''emos job: rows''"
  shows "write_quality ft now k qs d
     = (None, d\<lparr>session_quality := fold (\<lambda>q. upsert_quality (quality_of now k q)) qs (session_quality d)\<rparr>)"
proof (induction qs arbitrary: d)
  case (Cons q qs)
  obtain sid loss rtt where q: "q = (sid, loss, rtt)" by (cases q)
  show ?case using assms Cons by (simp add: q quality_of_def case_prod_unfold Let_def)
qed (simp add: assms)

lemma fold_quality:
  assumes "distinct (map q_session_id rows)" and "distinct (map fst qs)"
  shows "distinct (map q_session_id (fold (\<lambda>q. upsert_quality (quality_of now k q)) qs rows))
     \<and> filter (\<lambda>r. q_session_id r = s) (fold (\<lambda>q. upsert_quality (quality_of now k q)) qs rows)
       = (case List.find (\<lambda>q. fst q = s) qs of Some q \<Rightarrow> [quality_of now k q]
          | None \<Rightarrow> filter (\<lambda>r. q_session_id r = s) rows)"
  using assms
proof (induction qs arbitrary: rows)
  case (Cons q qs)
  have sid: "q_session_id (quality_of now k q) = fst q" by (simp add: quality_of_def split: prod.splits)
  have no: "List.find (\<lambda>x. fst x = fst q) qs = None" using Cons.prems(2)
    by (metis (mono_tags, lifting) distinct.simps(2) find_None_iff image_eqI list.set_map list.simps(9))
  note u1 = upsert_quality_spec(1) [OF Cons.prems(1), of s "quality_of now k q"]
    and u2 = upsert_quality_spec(2) [OF Cons.prems(1), of "quality_of now k q"]
  from Cons.IH [OF u2] Cons.prems(2) u1 sid no show ?case by (auto split: option.splits)
qed simp

lemma quality_rows_find:
  assumes "db_ok d"
  shows "distinct (map fst (quality_rows d c))"
    and "List.find (\<lambda>q. fst q = s) (quality_rows d c) =
      (if s \<in> set (conference_sessions d c) \<and> session_stats d s \<noteq> []
       then Some (s, median (map cs_packets_lost_rate (session_stats d s)), median (map cs_rtt_ms (session_stats d s)))
       else None)"
proof -
  have rows: "quality_rows d c = map (\<lambda>sid. (sid, median (map cs_packets_lost_rate (session_stats d sid)),
      median (map cs_rtt_ms (session_stats d sid)))) (filter (\<lambda>sid. session_stats d sid \<noteq> []) (conference_sessions d c))"
    unfolding quality_rows_def by (rule concat_map_if)
  have sess: "conference_sessions d c = map sess_id (filter (\<lambda>s. list_ex (\<lambda>p. part_id p = sess_participant_id s
      \<and> part_conference_id p = c) (participants d)) (sessions d))"
    unfolding conference_sessions_def by (rule concat_map_if)
  have "distinct (map sess_id (sessions d))" using assms by (simp add: db_ok_def table_ok_def)
  then have "distinct (conference_sessions d c)" unfolding sess by (rule distinct_map_filter)
  then show "distinct (map fst (quality_rows d c))" by (simp add: rows comp_def)
  show "List.find (\<lambda>q. fst q = s) (quality_rows d c) =
      (if s \<in> set (conference_sessions d c) \<and> session_stats d s \<noteq> []
       then Some (s, median (map cs_packets_lost_rate (session_stats d s)), median (map cs_rtt_ms (session_stats d s)))
       else None)"
    unfolding rows by (rule find_keyed)
qed

text \<open>Sample data for the witnesses: one session with one statistics row.\<close>

definition sample_job_db :: database where
  "sample_job_db = empty_db\<lparr>
     apps := [\<lparr>app_id = 7, app_org_id = 1, retention_days = 90, observation_config = None,
               server_api_key = None, server_api_secret_enc = None, app_name = [], app_api_key_hash = [], app_created_at = 0, app_server_key_created_at = None\<rparr>],
     conferences := [\<lparr>conf_id = 1, conf_app_id = 7, conf_external_id = ''c'', conf_started_at = 0, conf_ended_at = None, conf_participant_count = 0\<rparr>],
     participants := [\<lparr>part_id = 2, part_conference_id = 1, part_user_id = ''u'', part_joined_at = 0, part_display_name = [], part_left_at = None\<rparr>],
     sessions := [\<lparr>sess_id = 3, sess_participant_id = 2, sess_external_id = ''s'', sess_browser = [], sess_os = [], sess_country = [], sess_city = [], sess_network_type = []\<rparr>],
     connections := [\<lparr>conn_id = 4, conn_session_id = 3, conn_external_id = ''n'', conn_started_at = 0, conn_peer_id = [], conn_ended_at = None, conn_ice_state = [], conn_codec_audio = [], conn_codec_video = []\<rparr>],
     connection_stats := [\<lparr>cs_connection_id = 4, cs_ts = 1000, cs_source = ''browser'', cs_packets_lost_rate = 1 / 4,
       cs_jitter_ms = 1, cs_rtt_ms = 20, cs_bitrate_in_kbps = 1, cs_bitrate_out_kbps = 1,
       cs_ewma_packets_lost_rate = 0, cs_ewma_jitter_ms = 0, cs_ewma_rtt_ms = 0, cs_ewma_bitrate_in_kbps = 0,
       cs_ewma_bitrate_out_kbps = 0, cs_fps = 0, cs_frame_width = 0, cs_frame_height = 0, cs_audio_level = 0,
       cs_concealment_ratio = 0\<rparr>],
     next_conf := 10, next_part := 10, next_sess := 10, next_conn := 10\<rparr>"

lemma sample_job_db_ok: "db_ok sample_job_db"
  by (simp add: sample_job_db_def empty_db_def db_ok_def table_ok_def)



text \<open>(C17) Deduplication of observations works for whole-second timestamps only.  Storing a new
  observation of an existing connection twice adds one event if both its timestamps are whole
  seconds and two otherwise: the payload keeps RFC 3339 seconds, the lookup compares it with the
  full timestamps.\<close>
theorem observation_dedupe:
  assumes "\<not> ft ''emos: check duplicate''" and "\<not> ft ''emos: insert observation''"
    and "c \<in> conn_id ` set (connections d)" and "\<not> observation_exists d c obs"
  shows "length (events (snd (insertObservationIfNew ft (snd (insertObservationIfNew ft d c obs)) c obs)))
     = length (events d) + (if rfc3339 (StartTS obs) = StartTS obs \<and> rfc3339 (EndTS obs) = EndTS obs then 1 else 2)"
proof -
  obtain x where x: "List.find (\<lambda>y. conn_id y = c) (connections d) = Some x"
    using assms(3) by (cases "List.find (\<lambda>y. conn_id y = c) (connections d)") (auto simp: find_None_iff)
  let ?d1 = "snd (insertObservationIfNew ft d c obs)"
  have ev: "events ?d1 = events d @ [\<lparr>ev_id = next_event d, ev_connection_id = Some c,
      ev_session_id = Some (conn_session_id x), ev_ts = StartTS obs, ev_event_type = ''observation'',
      ev_payload = observation_payload obs\<rparr>]" "connections ?d1 = connections d"
    using assms x by (simp_all add: insertObservationIfNew_def)
  have "observation_exists ?d1 c obs \<longleftrightarrow> rfc3339 (StartTS obs) = StartTS obs \<and> rfc3339 (EndTS obs) = EndTS obs"
    using assms(4) by (auto simp: observation_exists_def ev observation_payload_def payload_str_def)
  then show ?thesis using assms x ev by (auto simp: insertObservationIfNew_def [of ft ?d1])
qed

theorem observation_dedupe_witness:
  "length (events (snd (insertObservationIfNew (\<lambda>_. False) (snd (insertObservationIfNew (\<lambda>_. False) sample_job_db 4
       \<lparr>RuleName = ''rtt_high'', Severity = ''warning'', Message = [], StartTS = 1500000000, EndTS = 2000000000, Context = []\<rparr>)) 4
       \<lparr>RuleName = ''rtt_high'', Severity = ''warning'', Message = [], StartTS = 1500000000, EndTS = 2000000000, Context = []\<rparr>))) = 2"
  using observation_dedupe [of "\<lambda>_. False" 4 sample_job_db
      "\<lparr>RuleName = ''rtt_high'', Severity = ''warning'', Message = [], StartTS = 1500000000, EndTS = 2000000000, Context = []\<rparr>"]
  by (simp add: sample_job_db_def empty_db_def observation_exists_def rfc3339_def)

text \<open>The repeated-freeze rule is dead code in the service: the statistics the engine loads
  never carry a freeze count, so on every connection and configuration the rule reports nothing.\<close>
theorem freeze_rule_never_fires:
  assumes "loadConnectionStats ft sc d c = Inr stats"
  shows "evaluateVideoFreezeRepeated stats th = Some []"
proof -
  have "\<forall>x \<in> set stats. VideoFreezeCount x = 0"
  proof
    fix x assume "x \<in> set stats"
    with assms obtain r where "x = the (scan_stat sc r)" "scan_stat sc r \<noteq> None"
      by (fastforce simp: loadConnectionStats_def Let_def image_iff split: if_splits)
    then show "VideoFreezeCount x = 0" by (auto simp: scan_stat_def split: option.splits)
  qed
  then show ?thesis unfolding evaluateVideoFreezeRepeated_def using freeze_scan_constant [of stats 0 stats 0 0] by simp
qed

theorem freeze_rule_never_fires_witness:
  "\<exists>stats. loadConnectionStats (\<lambda>_. False) (Some \<circ> floor) sample_job_db 4 = Inr stats \<and> stats \<noteq> []
     \<and> evaluateVideoFreezeRepeated stats Map.empty = Some []"
proof -
  have "(case loadConnectionStats (\<lambda>_. False) (Some \<circ> floor) sample_job_db 4 of Inl e \<Rightarrow> False | Inr stats \<Rightarrow> stats \<noteq> [])"
    by code_simp
  then obtain stats where "loadConnectionStats (\<lambda>_. False) (Some \<circ> floor) sample_job_db 4 = Inr stats" "stats \<noteq> []"
    by (auto split: sum.splits)
  with freeze_rule_never_fires [OF this(1), of Map.empty] show ?thesis by blast
qed

end
