(* ===== verification/Redis_KV.thy ===== *)
theory Redis_KV
  imports Model
begin

text \<open>
  The string commands of Redis the services use: \<open>GET\<close>, \<open>SET\<close> with a time to live,
  \<open>SETNX\<close> with a time to live, \<open>DEL\<close>.  They are the fields of \<open>kv_api\<close>, an
  argument of the definitions that call them; each takes the time at which the server runs it.  The
  locale \<open>kv_server\<close> states their documented behaviour through \<open>GET\<close>.  A stored JSON
  document is represented by the value it encodes, so the type of values is a parameter.
\<close>

record ('s, 'v) kv_api =
  GET :: "'s \<Rightarrow> instant \<Rightarrow> string \<Rightarrow> 'v option"
  SET :: "'s \<Rightarrow> instant \<Rightarrow> string \<Rightarrow> 'v \<Rightarrow> int \<Rightarrow> 's"
  SETNX :: "'s \<Rightarrow> instant \<Rightarrow> string \<Rightarrow> 'v \<Rightarrow> int \<Rightarrow> bool \<times> 's"
  DEL :: "'s \<Rightarrow> instant \<Rightarrow> string \<Rightarrow> 's"

locale kv_server =
  fixes api :: "('s, 'v) kv_api"
  assumes set_same: "t \<le> t' \<Longrightarrow> 0 < ttl \<Longrightarrow> GET api (SET api s t k v ttl) t' k = (if t' < t + ttl then Some v else None)"
    and set_other: "t \<le> t' \<Longrightarrow> k' \<noteq> k \<Longrightarrow> GET api (SET api s t k v ttl) t' k' = GET api s t' k'"
    and setnx_taken: "fst (SETNX api s t k v ttl) \<longleftrightarrow> GET api s t k = None"
    and setnx_same: "t \<le> t' \<Longrightarrow> 0 < ttl \<Longrightarrow> GET api s t k = None
       \<Longrightarrow> GET api (snd (SETNX api s t k v ttl)) t' k = (if t' < t + ttl then Some v else None)"
    and setnx_other: "t \<le> t' \<Longrightarrow> k' \<noteq> k \<or> GET api s t k \<noteq> None
       \<Longrightarrow> GET api (snd (SETNX api s t k v ttl)) t' k' = GET api s t' k'"
    and del_same: "t \<le> t' \<Longrightarrow> GET api (DEL api s t k) t' k = None"
    and del_other: "t \<le> t' \<Longrightarrow> k' \<noteq> k \<Longrightarrow> GET api (DEL api s t k) t' k' = GET api s t' k'"
    and expired: "t \<le> t' \<Longrightarrow> GET api s t k = None \<Longrightarrow> GET api s t' k = None"
begin

text \<open>A key claimed with \<open>SETNX\<close> cannot be claimed again before it expires.\<close>

lemma setnx_once:
  assumes "fst (SETNX api s t k v ttl)" and "t \<le> t'" and "t' < t + ttl"
  shows "\<not> fst (SETNX api (snd (SETNX api s t k v ttl)) t' k v' ttl')"
  using assms setnx_same [of t t' ttl s k v] by (simp add: setnx_taken)

end

subsection \<open>A server that meets the contract\<close>

type_synonym 'v kv_store = "string \<Rightarrow> ('v \<times> instant) option"

definition kv_get :: "'v kv_store \<Rightarrow> instant \<Rightarrow> string \<Rightarrow> 'v option" where
  "kv_get s t k = (case s k of None \<Rightarrow> None | Some (v, e) \<Rightarrow> if t < e then Some v else None)"

definition map_server :: "('v kv_store, 'v) kv_api" where
  "map_server = \<lparr>GET = kv_get,
     SET = (\<lambda>s t k v ttl. s(k \<mapsto> (v, t + ttl))),
     SETNX = (\<lambda>s t k v ttl. if kv_get s t k = None then (True, s(k \<mapsto> (v, t + ttl))) else (False, s)),
     DEL = (\<lambda>s t k. s(k := None))\<rparr>"

interpretation map_server: kv_server map_server
  by unfold_locales (auto simp: map_server_def kv_get_def split: option.splits if_splits)

end
