(* ===== verification/Auth.thy ===== *)
theory Auth
  imports Redis_KV Database GoStd
begin

text \<open>
  Authentication of the ingest service, \<^verbatim>\<open>internal/auth\<close>: JWT for the browser SDK
  (\<^verbatim>\<open>auth.go\<close>), and server keys with HMAC-signed requests (\<^verbatim>\<open>apikey.go\<close>,
  \<^verbatim>\<open>apikey_middleware.go\<close>).

  The JWT library is the argument \<open>jwt_parse\<close>: what \<open>jwt.ParseWithClaims\<close> restricted
  to HS256 returns for a token and a secret.  AES-GCM, SHA-256 and HMAC are the fields of the record
  \<open>crypto\<close>; \<open>gcm_ok\<close> states what is used of the first.  Random bytes and
  the clock are arguments.  A middleware returns the status and message of the error response it
  writes (\<open>Inl\<close>) or the claims it puts into the context of the next handler (\<open>Inr\<close>).
\<close>

type_synonym reject = "nat \<times> string"

subsection \<open>JWT\<close>

record Claims =
  CAppID :: string
  CConferenceID :: string
  CUserID :: string

datatype token_error = ErrTokenExpired | ErrToken string

definition VerifyToken ::
  "(string \<Rightarrow> string \<Rightarrow> token_error + (bool \<times> Claims)) \<Rightarrow> string \<Rightarrow> string \<Rightarrow> token_error + Claims" where
  "VerifyToken jwt_parse tokenString secret =
     (case jwt_parse tokenString secret of
        Inl ErrTokenExpired \<Rightarrow> Inl ErrTokenExpired
      | Inl (ErrToken e) \<Rightarrow> Inl (ErrToken ''auth: parse token'')
      | Inr (valid, claims) \<Rightarrow>
          if \<not> valid then Inl (ErrToken ''auth: token is invalid'')
          else if CAppID claims = [] then Inl (ErrToken ''auth: missing required claim: app_id'')
          else if CConferenceID claims = [] then Inl (ErrToken ''auth: missing required claim: conference_id'')
          else if CUserID claims = [] then Inl (ErrToken ''auth: missing required claim: user_id'')
          else Inr claims)"

definition Authenticate ::
  "(string \<Rightarrow> string \<Rightarrow> token_error + (bool \<times> Claims)) \<Rightarrow> string \<Rightarrow> string \<Rightarrow> reject + Claims" where
  "Authenticate jwt_parse secret header =
     (if header = [] then Inl (401, ''missing token'')
      else if \<not> HasPrefix header ''Bearer '' then Inl (401, ''missing token'')
      else let tokenString = TrimPrefix header ''Bearer '' in
           if tokenString = [] then Inl (401, ''missing token'')
           else case VerifyToken jwt_parse tokenString secret of
                  Inl ErrTokenExpired \<Rightarrow> Inl (401, ''token expired'')
                | Inl (ErrToken e) \<Rightarrow> Inl (401, ''invalid token'')
                | Inr claims \<Rightarrow> Inr claims)"

subsection \<open>Server keys\<close>

record crypto =
  gcm_seal :: "string \<Rightarrow> string \<Rightarrow> string \<Rightarrow> string"
  gcm_open :: "string \<Rightarrow> string \<Rightarrow> string \<Rightarrow> string option"
  sha256 :: "string \<Rightarrow> string"
  hmac_sha256 :: "string \<Rightarrow> string \<Rightarrow> string"

text \<open>What the code relies on: opening undoes sealing, and the tag is 16 bytes long.\<close>

definition gcm_ok :: "crypto \<Rightarrow> bool" where
  "gcm_ok c \<longleftrightarrow> (\<forall>key nonce p. length key = 32 \<longrightarrow> length nonce = 12 \<longrightarrow>
     gcm_open c key nonce (gcm_seal c key nonce p) = Some p \<and> length (gcm_seal c key nonce p) = length p + 16)"

definition GenerateKeyPair :: "faults \<Rightarrow> string \<Rightarrow> string \<Rightarrow> string + (string \<times> string)" where
  "GenerateKeyPair ft keyBytes secretBytes =
     (if ft ''apikey: generate key'' then Inl ''apikey: generate key''
      else if ft ''apikey: generate secret'' then Inl ''apikey: generate secret''
      else Inr (hex_EncodeToString keyBytes, hex_EncodeToString secretBytes))"

definition EncryptSecret :: "crypto \<Rightarrow> faults \<Rightarrow> string \<Rightarrow> string \<Rightarrow> string \<Rightarrow> string + string" where
  "EncryptSecret c ft nonce masterKey plaintext =
     (if length masterKey \<noteq> 32 then Inl ''apikey: master key must be 32 bytes''
      else if ft ''apikey: generate nonce'' then Inl ''apikey: generate nonce''
      else Inr (b64_encode URLAlphabet (nonce @ gcm_seal c masterKey nonce plaintext)))"

definition DecryptSecret :: "crypto \<Rightarrow> string \<Rightarrow> string \<Rightarrow> string + string" where
  "DecryptSecret c masterKey encoded =
     (case b64_decode URLAlphabet encoded of
        None \<Rightarrow> Inl ''apikey: base64 decode''
      | Some raw \<Rightarrow>
          if length raw < 12 + 16 then Inl ''apikey: blob too short''
          else if length masterKey \<notin> {16, 24, 32} then Inl ''apikey: create cipher''
          else case gcm_open c masterKey (take 12 raw) (drop 12 raw) of
                 None \<Rightarrow> Inl ''apikey: decrypt''
               | Some plaintext \<Rightarrow> Inr plaintext)"

definition BuildCanonical :: "crypto \<Rightarrow> string \<Rightarrow> string \<Rightarrow> int \<Rightarrow> string \<Rightarrow> string" where
  "BuildCanonical c meth path ts body =
     Join [meth, path, FormatInt ts, hex_EncodeToString (sha256 c body)] [CHR 0x0A]"

definition VerifyHMAC :: "crypto \<Rightarrow> string \<Rightarrow> string \<Rightarrow> string \<Rightarrow> int \<Rightarrow> string \<Rightarrow> string \<Rightarrow> bool" where
  "VerifyHMAC c secret meth path ts body sigHex =
     (let expected = hmac_sha256 c secret (BuildCanonical c meth path ts body) in
      case hex_DecodeString sigHex of None \<Rightarrow> False | Some got \<Rightarrow> expected = got)"

record ServerClaims =
  SAppID :: int
  SOrgID :: int
  APIKey :: string

record request =
  X_API_Key :: string
  X_Timestamp :: string
  X_Signature :: string
  Method :: string
  URL_Path :: string
  Body :: string

definition defaultLookup :: "faults \<Rightarrow> database \<Rightarrow> string \<Rightarrow> string + (int \<times> int \<times> string)" where
  "defaultLookup ft d apiKey =
     (if ft ''apikey: db lookup'' then Inl ''apikey: db lookup''
      else case List.find (\<lambda>a. server_api_key a = Some apiKey) (apps d) of
             None \<Rightarrow> Inl ''apikey: server_api_key not found''
           | Some a \<Rightarrow> (case server_api_secret_enc a of
                          None \<Rightarrow> Inl ''apikey: db lookup''
                        | Some enc \<Rightarrow> Inr (app_id a, app_org_id a, enc)))"

definition defaultNonce :: "('s, string) kv_api \<Rightarrow> faults \<Rightarrow> instant \<Rightarrow> string \<Rightarrow> int \<Rightarrow> 's \<Rightarrow> (string + bool) \<times> 's" where
  "defaultNonce api ft now nonceKey ttl s =
     (if ft ''apikey: Redis nonce check failed, replay protection disabled'' then (Inl ''redis'', s)
      else case SETNX api s now nonceKey ''1'' ttl of (taken, s') \<Rightarrow> (Inr taken, s'))"

definition nonce_key :: "string \<Rightarrow> int \<Rightarrow> string \<Rightarrow> string" where
  "nonce_key apiKey ts sigHex = ''server_nonce:'' @ apiKey @ '':'' @ FormatInt ts @ '':'' @ take 16 sigHex"

text \<open>Everything before the nonce: headers, timestamp window, key lookup, decryption, signature.\<close>

definition check_signed ::
  "crypto \<Rightarrow> faults \<Rightarrow> instant \<Rightarrow> string \<Rightarrow> database \<Rightarrow> request \<Rightarrow> reject + (int \<times> ServerClaims)" where
  "check_signed c ft now masterKey d r =
     (if X_API_Key r = [] \<or> X_Timestamp r = [] \<or> X_Signature r = []
      then Inl (401, ''missing authentication headers'')
      else case ParseInt (X_Timestamp r) of
        None \<Rightarrow> Inl (401, ''invalid timestamp'')
      | Some ts \<Rightarrow>
          let diff = i64 (now div 1000000000 - ts) in
          if diff < - 300 \<or> diff > 300 then Inl (401, ''timestamp out of window'')
          else case defaultLookup ft d (X_API_Key r) of
            Inl e \<Rightarrow> Inl (401, ''invalid credentials'')
          | Inr (appID, orgID, secretEnc) \<Rightarrow>
              (case DecryptSecret c masterKey secretEnc of
                 Inl e \<Rightarrow> Inl (500, ''internal error'')
               | Inr secretBytes \<Rightarrow>
                   if ft ''cannot read request body'' then Inl (400, ''cannot read request body'')
                   else if \<not> VerifyHMAC c secretBytes (Method r) (URL_Path r) ts (Body r) (X_Signature r)
                   then Inl (401, ''invalid credentials'')
                   else Inr (ts, \<lparr>SAppID = appID, SOrgID = orgID, APIKey = X_API_Key r\<rparr>)))"

definition AuthenticateAPIKey ::
  "crypto \<Rightarrow> ('s, string) kv_api \<Rightarrow> faults \<Rightarrow> instant \<Rightarrow> string \<Rightarrow> database \<Rightarrow> request \<Rightarrow> 's
     \<Rightarrow> (reject + ServerClaims) \<times> 's" where
  "AuthenticateAPIKey c api ft now masterKey d r s =
     (case check_signed c ft now masterKey d r of
        Inl rep \<Rightarrow> (Inl rep, s)
      | Inr (ts, claims) \<Rightarrow>
          (case defaultNonce api ft now (nonce_key (X_API_Key r) ts (X_Signature r)) (600 * 1000000000) s of
             (Inr False, s') \<Rightarrow> (Inl (401, ''duplicate request''), s')
           | (_, s') \<Rightarrow> (Inr claims, s')))"

subsection \<open>Properties\<close>

text \<open>The JWT middleware lets a request through exactly when its Authorization header is
  \<open>Bearer\<close> with a non-empty token that the library accepts as a valid HS256 token and that
  carries all three application claims; every other request is answered 401 and goes no further.\<close>
theorem Authenticate_iff:
  "(Authenticate jwt_parse secret header = Inr claims \<longleftrightarrow>
      (\<exists>tok. header = ''Bearer '' @ tok \<and> tok \<noteq> [] \<and> jwt_parse tok secret = Inr (True, claims)
         \<and> CAppID claims \<noteq> [] \<and> CConferenceID claims \<noteq> [] \<and> CUserID claims \<noteq> []))
 \<and> (case Authenticate jwt_parse secret header of Inl rep \<Rightarrow> fst rep = 401 | Inr _ \<Rightarrow> True)"
proof -
  have pre: "HasPrefix header ''Bearer '' \<longleftrightarrow> (\<exists>tok. header = ''Bearer '' @ tok)"
  proof
    assume "HasPrefix header ''Bearer ''"
    then have "take (length ''Bearer '') header = ''Bearer ''" unfolding HasPrefix_def .
    then show "\<exists>tok. header = ''Bearer '' @ tok" using append_take_drop_id [of "length ''Bearer ''" header] by metis
  qed (auto simp: HasPrefix_def)
  have trim: "TrimPrefix (''Bearer '' @ tok) ''Bearer '' = tok" for tok
    by (simp add: TrimPrefix_def HasPrefix_def)
  show ?thesis
  proof (cases "HasPrefix header ''Bearer ''")
    case False
    then show ?thesis using pre by (auto simp: Authenticate_def)
  next
    case True
    then obtain tok where h: "header = ''Bearer '' @ tok" using pre by blast
    show ?thesis using True trim
      by (auto simp: Authenticate_def VerifyToken_def h Let_def split: sum.splits token_error.splits if_splits)
  qed
qed

text \<open>Decryption undoes encryption.\<close>

lemma DecryptSecret_EncryptSecret:
  assumes "gcm_ok c" and "length nonce = 12" and "EncryptSecret c ft nonce masterKey plaintext = Inr enc"
  shows "DecryptSecret c masterKey enc = Inr plaintext"
proof -
  have k: "length masterKey = 32" and enc: "enc = b64_encode URLAlphabet (nonce @ gcm_seal c masterKey nonce plaintext)"
    using assms(3) by (auto simp: EncryptSecret_def split: if_splits)
  have "gcm_open c masterKey nonce (gcm_seal c masterKey nonce plaintext) = Some plaintext"
    "length (gcm_seal c masterKey nonce plaintext) = length plaintext + 16"
    using assms(1,2) k by (auto simp: gcm_ok_def)
  then show ?thesis using k assms(2) by (simp add: DecryptSecret_def enc b64_decode_encode)
qed

text \<open>Decrypting a stored server secret with the master key it was encrypted with gives the
  secret back, for every plaintext and nonce.\<close>
theorem secret_roundtrip:
  assumes "gcm_ok c" and "length nonce = 12" and "EncryptSecret c ft nonce masterKey plaintext = Inr enc"
  shows "DecryptSecret c masterKey enc = Inr plaintext"
  using assms by (rule DecryptSecret_EncryptSecret)

definition demo_crypto :: crypto where
  "demo_crypto = \<lparr>gcm_seal = (\<lambda>k n p. p @ replicate 16 (CHR ''t'')), gcm_open = (\<lambda>k n b. Some (take (length b - 16) b)),
     sha256 = (\<lambda>b. ''digest''), hmac_sha256 = (\<lambda>k m. [CHR 0xAB])\<rparr>"

lemma demo_gcm_ok: "gcm_ok demo_crypto"
  by (simp add: gcm_ok_def demo_crypto_def)

definition demo_key :: string where
  "demo_key = replicate 32 (CHR ''k'')"

definition demo_enc :: string where
  "demo_enc = b64_encode URLAlphabet (replicate 12 (CHR ''n'') @ ''secret'' @ replicate 16 (CHR ''t''))"

lemma demo_encrypt: "EncryptSecret demo_crypto (\<lambda>_. False) (replicate 12 (CHR ''n'')) demo_key ''secret'' = Inr demo_enc"
  by (simp add: EncryptSecret_def demo_key_def demo_enc_def demo_crypto_def)

theorem secret_roundtrip_witness: "DecryptSecret demo_crypto demo_key demo_enc = Inr ''secret''"
  using secret_roundtrip [OF demo_gcm_ok _ demo_encrypt] by simp

text \<open>The canonical request string determines what is signed: two requests whose methods
  contain no newline have the same canonical string only if method, path, timestamp and body digest
  agree, even if a decoded path contains newlines.\<close>
theorem BuildCanonical_inject:
  assumes "CHR 0x0A \<notin> set m" and "CHR 0x0A \<notin> set m'"
  shows "BuildCanonical c m p ts b = BuildCanonical c m' p' ts' b'
     \<longleftrightarrow> m = m' \<and> p = p' \<and> ts = ts' \<and> sha256 c b = sha256 c b'"
proof
  let ?n = "CHR 0x0A"
  assume "BuildCanonical c m p ts b = BuildCanonical c m' p' ts' b'"
  then have e: "m @ ?n # p @ ?n # FormatInt ts @ ?n # hex_EncodeToString (sha256 c b)
      = m' @ ?n # p' @ ?n # FormatInt ts' @ ?n # hex_EncodeToString (sha256 c b')"
    by (simp add: BuildCanonical_def)
  from append_sep_inject [OF e assms] have m: "m = m'"
    and e2: "(p @ ?n # FormatInt ts) @ ?n # hex_EncodeToString (sha256 c b)
      = (p' @ ?n # FormatInt ts') @ ?n # hex_EncodeToString (sha256 c b')" by simp_all
  from append_sep_inject_rev [OF e2] have h: "sha256 c b = sha256 c b'"
    and e3: "p @ ?n # FormatInt ts = p' @ ?n # FormatInt ts'" by simp_all
  from append_sep_inject_rev [OF e3] m h show "m = m' \<and> p = p' \<and> ts = ts' \<and> sha256 c b = sha256 c b'" by simp
qed (simp add: BuildCanonical_def)

theorem BuildCanonical_inject_witness:
  "BuildCanonical demo_crypto ''POST'' ''/a'' 5 ''x'' \<noteq> BuildCanonical demo_crypto ''POST'' ''/b'' 5 ''x''"
  using BuildCanonical_inject [of "''POST''" "''POST''" demo_crypto "''/a''" 5 "''x''" "''/b''" 5 "''x''"] by simp

lemma window_exact:
  assumes "0 \<le> now" and "now < 2 ^ 62" and "in_i64 ts"
  shows "(i64 (now - ts) < - 300 \<or> i64 (now - ts) > 300) \<longleftrightarrow> 300 < \<bar>now - ts\<bar>"
proof (cases "in_i64 (now - ts)")
  case True
  then show ?thesis by auto
next
  case False
  then have "2 ^ 63 \<le> now - ts" using assms by (auto simp: in_i64_def)
  then have "in_i64 (now - ts - 2 ^ 64)" using assms by (auto simp: in_i64_def)
  then have "i64 (now - ts) = now - ts - 2 ^ 64"
    using i64_id [of "now - ts - 2 ^ 64"] i64_shift [of "now - ts"] by metis
  then show ?thesis using assms \<open>2 ^ 63 \<le> now - ts\<close> by (auto simp: in_i64_def)
qed

lemma check_signed_Inr:
  assumes "0 \<le> now" and "now < 2 ^ 62"
  shows "check_signed c ft now masterKey d r = Inr (ts, claims) \<longleftrightarrow>
      X_API_Key r \<noteq> [] \<and> X_Timestamp r \<noteq> [] \<and> X_Signature r \<noteq> [] \<and> ParseInt (X_Timestamp r) = Some ts
    \<and> \<bar>now div 1000000000 - ts\<bar> \<le> 300 \<and> \<not> ft ''apikey: db lookup'' \<and> \<not> ft ''cannot read request body''
    \<and> (\<exists>a enc secret. List.find (\<lambda>a. server_api_key a = Some (X_API_Key r)) (apps d) = Some a
         \<and> server_api_secret_enc a = Some enc \<and> DecryptSecret c masterKey enc = Inr secret
         \<and> hex_DecodeString (X_Signature r)
             = Some (hmac_sha256 c secret (BuildCanonical c (Method r) (URL_Path r) ts (Body r)))
         \<and> claims = \<lparr>SAppID = app_id a, SOrgID = app_org_id a, APIKey = X_API_Key r\<rparr>)" (is "?L \<longleftrightarrow> ?R")
proof (cases "ParseInt (X_Timestamp r)")
  case None
  then show ?thesis by (simp add: check_signed_def)
next
  case (Some ts')
  have n: "0 \<le> now div 1000000000" "now div 1000000000 < 2 ^ 62" using assms by (auto simp: pos_imp_zdiv_nonneg_iff)
  have w: "(i64 (now div 1000000000 - ts') < - 300 \<or> i64 (now div 1000000000 - ts') > 300)
      \<longleftrightarrow> \<not> \<bar>now div 1000000000 - ts'\<bar> \<le> 300"
    using window_exact [OF n ParseInt_in [OF Some]] by auto
  show ?thesis
    unfolding check_signed_def Some option.case Let_def w
    by (auto simp: defaultLookup_def VerifyHMAC_def Let_def split: option.splits sum.splits if_splits)
qed

lemma AuthenticateAPIKey_Inr:
  assumes "\<not> ft ''apikey: Redis nonce check failed, replay protection disabled''"
  shows "fst (AuthenticateAPIKey c api ft now masterKey d r s) = Inr claims \<longleftrightarrow>
     (\<exists>ts. check_signed c ft now masterKey d r = Inr (ts, claims)
        \<and> fst (SETNX api s now (nonce_key (X_API_Key r) ts (X_Signature r)) ''1'' (600 * 1000000000)))"
  using assms
  by (auto simp: AuthenticateAPIKey_def defaultNonce_def case_prod_unfold split: sum.splits prod.splits bool.splits)

text \<open>Sample data for the witnesses.\<close>

definition demo_auth_db :: database where
  "demo_auth_db = empty_db\<lparr>apps := [\<lparr>app_id = 7, app_org_id = 1, retention_days = 90, observation_config = None,
     server_api_key = Some ''k1'', server_api_secret_enc = Some demo_enc, app_name = [], app_api_key_hash = [], app_created_at = 0, app_server_key_created_at = None\<rparr>]\<rparr>"

definition demo_request :: request where
  "demo_request = \<lparr>X_API_Key = ''k1'', X_Timestamp = ''1000'', X_Signature = ''ab'', Method = ''POST'',
     URL_Path = ''/v1/server/events'', Body = ''x''\<rparr>"

definition demo_claims :: ServerClaims where
  "demo_claims = \<lparr>SAppID = 7, SOrgID = 1, APIKey = ''k1''\<rparr>"

definition demo_run :: "instant \<Rightarrow> request \<Rightarrow> string kv_store \<Rightarrow> (reject + ServerClaims) \<times> string kv_store" where
  "demo_run t r s = AuthenticateAPIKey demo_crypto map_server (\<lambda>_. False) t demo_key demo_auth_db r s"

lemma demo_decrypt: "DecryptSecret demo_crypto demo_key demo_enc = Inr ''secret''"
  by code_simp

lemma demo_hmac: "hmac_sha256 demo_crypto k m = [CHR 0xAB]"
  by (simp add: demo_crypto_def)

lemma demo_first:
  "AuthenticateAPIKey demo_crypto map_server (\<lambda>_. False) 700000000000 demo_key demo_auth_db demo_request (\<lambda>_. None)
     = (Inr demo_claims, snd (demo_run 700000000000 demo_request (\<lambda>_. None)))"
proof -
  have "fst (demo_run 700000000000 demo_request (\<lambda>_. None)) = Inr demo_claims" by code_simp
  then show ?thesis by (simp add: demo_run_def prod_eq_iff)
qed

lemma demo_second:
  "fst (AuthenticateAPIKey demo_crypto map_server (\<lambda>_. False) 1300500000000 demo_key demo_auth_db demo_request
     (snd (demo_run 700000000000 demo_request (\<lambda>_. None)))) = Inr demo_claims"
  by code_simp



lemma check_signed_window:
  assumes "0 \<le> now" and "now < 2 ^ 62" and "check_signed c ft now masterKey d r = Inr (ts, claims)"
  shows "ParseInt (X_Timestamp r) = Some ts \<and> (ts - 300) * 1000000000 \<le> now \<and> now < (ts + 301) * 1000000000"
proof -
  have ts: "ParseInt (X_Timestamp r) = Some ts" and w: "\<bar>now div 1000000000 - ts\<bar> \<le> 300"
    using assms(3) unfolding check_signed_Inr [OF assms(1,2)] by blast+
  have "now = 1000000000 * (now div 1000000000) + now mod 1000000000"
    "0 \<le> now mod 1000000000" "now mod 1000000000 < 1000000000" by simp_all
  moreover from w have "ts - 300 \<le> now div 1000000000" "now div 1000000000 \<le> ts + 300" by linarith+
  ultimately have "(ts - 300) * 1000000000 \<le> now" "now < (ts + 301) * 1000000000"
    unfolding left_diff_distrib distrib_right by linarith+
  with ts show ?thesis by blast
qed



text \<open>(C23) The nonce can be side-stepped.  It is keyed by the text of the signature, while the
  signature is compared after hexadecimal decoding: presenting an admitted request again with the
  same signature in different letter case within its first 16 characters is admitted at once.\<close>
theorem replay_by_letter_case:
  assumes "kv_server api" and "0 \<le> t" and "t < 2 ^ 62"
    and "\<not> ft ''apikey: Redis nonce check failed, replay protection disabled''"
    and "AuthenticateAPIKey c api ft t key d r s = (Inr claims, s1)"
    and "hex_DecodeString sig2 = hex_DecodeString (X_Signature r)" and "sig2 \<noteq> []"
    and "take 16 sig2 \<noteq> take 16 (X_Signature r)"
    and "\<forall>ts. GET api s t (nonce_key (X_API_Key r) ts sig2) = None"
  shows "fst (AuthenticateAPIKey c api ft t key d (r\<lparr>X_Signature := sig2\<rparr>) s1) = Inr claims"
proof -
  obtain ts where 1: "check_signed c ft t key d r = Inr (ts, claims)"
    "fst (SETNX api s t (nonce_key (X_API_Key r) ts (X_Signature r)) ''1'' (600 * 1000000000))"
    using assms(5) AuthenticateAPIKey_Inr [of ft c api t key d r s claims] assms(4) by auto
  have s1: "s1 = snd (SETNX api s t (nonce_key (X_API_Key r) ts (X_Signature r)) ''1'' (600 * 1000000000))"
    using assms(4,5) 1 by (auto simp: AuthenticateAPIKey_def defaultNonce_def case_prod_unfold split: bool.splits)
  have "check_signed c ft t key d (r\<lparr>X_Signature := sig2\<rparr>) = Inr (ts, claims)"
    using 1(1) assms(6,7) unfolding check_signed_Inr [OF assms(2,3)] by simp
  moreover have "nonce_key (X_API_Key r) ts sig2 \<noteq> nonce_key (X_API_Key r) ts (X_Signature r)"
    using assms(8) by (simp add: nonce_key_def)
  then have "GET api s1 t (nonce_key (X_API_Key r) ts sig2) = None"
    using kv_server.setnx_other [OF assms(1), of t t] s1 assms(9) by simp
  then have "fst (SETNX api s1 t (nonce_key (X_API_Key r) ts sig2) ''1'' (600 * 1000000000))"
    using kv_server.setnx_taken [OF assms(1)] by blast
  ultimately show ?thesis
    using AuthenticateAPIKey_Inr [of ft c api t key d "r\<lparr>X_Signature := sig2\<rparr>" s1 claims] assms(4) by auto
qed

theorem replay_by_letter_case_witness:
  "fst (AuthenticateAPIKey demo_crypto map_server (\<lambda>_. False) 700000000000 demo_key demo_auth_db
      (demo_request\<lparr>X_Signature := ''AB''\<rparr>) (snd (demo_run 700000000000 demo_request (\<lambda>_. None)))) = Inr demo_claims"
proof -
  have "hex_DecodeString ''AB'' = hex_DecodeString (X_Signature demo_request)" by code_simp
  moreover have "GET map_server (\<lambda>_. None :: (string \<times> instant) option) t k = None" for t k by (simp add: map_server_def kv_get_def)
  ultimately show ?thesis
    by (intro replay_by_letter_case [OF map_server.kv_server_axioms _ _ _ demo_first]) (simp_all add: demo_request_def)
qed

end
