(* ===== verification/RateLimit.thy ===== *)
theory RateLimit
  imports Model GoStd "HOL-Library.AList"
begin

text \<open>
  The sliding-window rate limiter, \<^verbatim>\<open>internal/ratelimit/ratelimit.go\<close>.

  The Lua script is a definition over the four sorted-set commands it calls.  The commands are
  Redis' own: they are the fields of the record \<open>zset_api\<close>, an argument of every definition,
  and the locale \<open>zset_server\<close> states what their documentation promises of them; each takes
  the time at which the server runs it.  The theory ends with a server that keeps its sorted sets in
  association lists and meets these laws.  The clocks of the service and of Redis are taken to
  agree.

  The reference for the decisions is \<open>sliding\<close>: a request is admitted when fewer than the
  maximum were admitted in the last window.
\<close>

subsection \<open>Definitions\<close>

record 's zset_api =
  ZREMRANGEBYSCORE :: "'s \<Rightarrow> instant \<Rightarrow> string \<Rightarrow> int \<Rightarrow> int \<Rightarrow> 's"
  ZCARD :: "'s \<Rightarrow> instant \<Rightarrow> string \<Rightarrow> nat"
  ZADD :: "'s \<Rightarrow> instant \<Rightarrow> string \<Rightarrow> int \<Rightarrow> string \<Rightarrow> 's"
  EXPIRE :: "'s \<Rightarrow> instant \<Rightarrow> string \<Rightarrow> int \<Rightarrow> 's"

definition rateLimitScript ::
  "'s zset_api \<Rightarrow> instant \<Rightarrow> string \<Rightarrow> int \<Rightarrow> int \<Rightarrow> int \<Rightarrow> string \<Rightarrow> 's \<Rightarrow> int \<times> 's" where
  "rateLimitScript api t key limit window now uid s =
     (let s1 = ZREMRANGEBYSCORE api s t key 0 (now - window);
          count = int (ZCARD api s1 t key) in
      if count \<ge> limit then (0, s1)
      else let s2 = ZADD api s1 t key now uid in (1, EXPIRE api s2 t key window))"

record Config =
  Max :: int
  WindowSecs :: int

definition defaultClock :: "instant \<Rightarrow> int \<times> string" where
  "defaultClock now = (now div 1000000000, FormatInt now)"

text \<open>On a Redis error the request is allowed; the script may or may not have run.\<close>

definition Allow :: "'s zset_api \<Rightarrow> faults \<Rightarrow> instant \<Rightarrow> Config \<Rightarrow> string \<Rightarrow> 's \<Rightarrow> bool \<times> 's" where
  "Allow api ft t cfg appID s =
     (let (nowSecs, uid) = defaultClock t;
          (result, s') = rateLimitScript api t (''ratelimit:'' @ appID) (Max cfg) (WindowSecs cfg) nowSecs uid s in
      if ft ''ratelimit: Redis eval failed, allowing request''
      then (True, if ft ''ratelimit: script not run'' then s else s')
      else (result = 1, s'))"

text \<open>The middleware writes a response and stops (\<open>Some\<close>) or calls the next handler
  (\<open>None\<close>).\<close>

definition MiddlewareWithKeyFn ::
  "'s zset_api \<Rightarrow> faults \<Rightarrow> instant \<Rightarrow> Config \<Rightarrow> ('r \<Rightarrow> string) \<Rightarrow> 'r \<Rightarrow> 's \<Rightarrow> 'b resp option \<times> 's" where
  "MiddlewareWithKeyFn api ft t cfg keyFn r s =
     (let key = keyFn r in
      if key = [] then (None, s)
      else let (allowed, s') = Allow api ft t cfg key s in
           if \<not> allowed then (Some (busy_reply ''rate limit exceeded''), s') else (None, s'))"

text \<open>The key extractors: \<open>AppID\<close> of the JWT claims, and \<open>APIKey\<close> of the server
  claims when there are any.\<close>

definition Middleware ::
  "'s zset_api \<Rightarrow> faults \<Rightarrow> instant \<Rightarrow> Config \<Rightarrow> ('r \<Rightarrow> string) \<Rightarrow> 'r \<Rightarrow> 's \<Rightarrow> 'b resp option \<times> 's" where
  "Middleware api ft t cfg claims_AppID = MiddlewareWithKeyFn api ft t cfg claims_AppID"

definition ServerMiddleware ::
  "'s zset_api \<Rightarrow> faults \<Rightarrow> instant \<Rightarrow> Config \<Rightarrow> ('r \<Rightarrow> string option) \<Rightarrow> 'r \<Rightarrow> 's \<Rightarrow> 'b resp option \<times> 's" where
  "ServerMiddleware api ft t cfg claims_APIKey =
     MiddlewareWithKeyFn api ft t cfg (\<lambda>r. case claims_APIKey r of None \<Rightarrow> [] | Some k \<Rightarrow> k)"

subsection \<open>Reference behaviour\<close>

fun sliding :: "int \<Rightarrow> int \<Rightarrow> int list \<Rightarrow> int list \<Rightarrow> bool list" where
  "sliding mx w hist [] = []"
| "sliding mx w hist (n # ns) =
     (let ok = int (length (filter (\<lambda>h. n - w < h) hist)) < mx
      in ok # sliding mx w (if ok then n # hist else hist) ns)"

fun decisions :: "'s zset_api \<Rightarrow> Config \<Rightarrow> 's \<Rightarrow> (string \<times> instant) list \<Rightarrow> (string \<times> bool) list" where
  "decisions api cfg s [] = []"
| "decisions api cfg s ((app, t) # rs) =
     (let (ok, s') = Allow api (\<lambda>_. False) t cfg app s in (app, ok) # decisions api cfg s' rs)"

subsection \<open>The server's contract\<close>

text \<open>\<open>members s t k\<close>: the live members of the set at \<open>k\<close> at time \<open>t\<close> with their
  scores.  \<open>deadline s k\<close>: when the key expires.\<close>

locale zset_server =
  fixes api :: "'s zset_api"
    and members :: "'s \<Rightarrow> instant \<Rightarrow> string \<Rightarrow> string \<rightharpoonup> int"
    and deadline :: "'s \<Rightarrow> string \<Rightarrow> instant option"
  assumes finite_members: "finite (dom (members s t k))"
    and zcard: "ZCARD api s t k = card (dom (members s t k))"
    and zrem: "members (ZREMRANGEBYSCORE api s t k lo hi) t k' =
       (if k' = k then (\<lambda>m. case members s t k m of None \<Rightarrow> None
          | Some x \<Rightarrow> if lo \<le> x \<and> x \<le> hi then None else Some x) else members s t k')"
    and zrem_deadline: "k' \<noteq> k \<or> members (ZREMRANGEBYSCORE api s t k lo hi) t k \<noteq> Map.empty
       \<Longrightarrow> deadline (ZREMRANGEBYSCORE api s t k lo hi) k' = deadline s k'"
    and zadd: "members (ZADD api s t k x m) t k' = (if k' = k then (members s t k)(m \<mapsto> x) else members s t k')"
    and zadd_deadline: "k' \<noteq> k \<Longrightarrow> deadline (ZADD api s t k x m) k' = deadline s k'"
    and expire: "0 < w \<Longrightarrow> members (EXPIRE api s t k w) t k' = members s t k'"
    and expire_deadline: "members s t k \<noteq> Map.empty
       \<Longrightarrow> deadline (EXPIRE api s t k w) k' = (if k' = k then Some (t + w * 1000000000) else deadline s k')"
    and passing: "t \<le> t' \<Longrightarrow> members s t' k
       = (case deadline s k of None \<Rightarrow> members s t k | Some e \<Rightarrow> if e \<le> t' then Map.empty else members s t k)"
begin

text \<open>What the state must hold for the requests admitted so far: a key whose newest entry was
  admitted at time \<open>u\<close> keeps every entry that is still inside the window.\<close>

definition holds :: "int \<Rightarrow> 's \<Rightarrow> instant \<Rightarrow> string \<Rightarrow> instant list \<Rightarrow> bool" where
  "holds w s t k hist \<longleftrightarrow>
     (\<forall>u \<in> set hist. 0 \<le> u \<and> u \<le> t) \<and> distinct hist
   \<and> (\<forall>t' \<ge> t.
        (\<forall>m x. members s t' k m = Some x \<longrightarrow> (\<exists>u \<in> set hist. m = FormatInt u \<and> x = u div 1000000000))
      \<and> (\<forall>u \<in> set hist. t' div 1000000000 - w < u div 1000000000
           \<longrightarrow> members s t' k (FormatInt u) = Some (u div 1000000000)))"

lemma window_members:
  assumes "holds w s t0 k hist" and "t0 \<le> t" and "0 \<le> t"
  defines "s1 \<equiv> ZREMRANGEBYSCORE api s t k 0 (t div 1000000000 - w)"
  shows "members s1 t k m = Some x \<longleftrightarrow>
      (\<exists>u \<in> set hist. m = FormatInt u \<and> x = u div 1000000000 \<and> t div 1000000000 - w < x)"
proof -
  have 1: "members s t k m = Some x \<Longrightarrow> \<exists>u \<in> set hist. m = FormatInt u \<and> x = u div 1000000000" for m x
    using assms(1,2) unfolding holds_def by blast
  have 2: "u \<in> set hist \<Longrightarrow> t div 1000000000 - w < u div 1000000000 \<Longrightarrow> members s t k (FormatInt u) = Some (u div 1000000000)" for u
    using assms(1,2) unfolding holds_def by blast
  have 3: "u \<in> set hist \<Longrightarrow> 0 \<le> u div 1000000000" for u
    using assms(1) unfolding holds_def by (simp add: pos_imp_zdiv_nonneg_iff)
  show ?thesis
  proof
    assume "members s1 t k m = Some x"
    then have x: "members s t k m = Some x" "\<not> (0 \<le> x \<and> x \<le> t div 1000000000 - w)"
      by (auto simp: s1_def zrem split: option.splits if_splits)
    from 1 [OF x(1)] obtain u where "u \<in> set hist" "m = FormatInt u" "x = u div 1000000000" by blast
    with 3 x(2) show "\<exists>u \<in> set hist. m = FormatInt u \<and> x = u div 1000000000 \<and> t div 1000000000 - w < x" by fastforce
  next
    assume "\<exists>u \<in> set hist. m = FormatInt u \<and> x = u div 1000000000 \<and> t div 1000000000 - w < x"
    with 2 show "members s1 t k m = Some x" by (auto simp: s1_def zrem)
  qed
qed

lemma window_count:
  assumes "holds w s t0 k hist" and "t0 \<le> t" and "0 \<le> t"
  shows "ZCARD api (ZREMRANGEBYSCORE api s t k 0 (t div 1000000000 - w)) t k
     = length (filter (\<lambda>h. t div 1000000000 - w < h) (map (\<lambda>u. u div 1000000000) hist))"
proof -
  let ?P = "\<lambda>u. t div 1000000000 - w < u div (1000000000 :: int)"
  have d: "dom (members (ZREMRANGEBYSCORE api s t k 0 (t div 1000000000 - w)) t k) = FormatInt ` set (filter ?P hist)"
    using window_members [OF assms] by (auto simp: dom_def)
  have "distinct hist" using assms(1) by (simp add: holds_def)
  then have "card (FormatInt ` set (filter ?P hist)) = length (filter ?P hist)"
    using distinct_card [of "filter ?P hist"] by (subst card_image) (auto simp: inj_on_def)
  then show ?thesis by (simp add: zcard d filter_map comp_def)
qed

lemma other_key:
  assumes "k' \<noteq> k" and "t \<le> t'"
  shows "members (ZREMRANGEBYSCORE api s t k lo hi) t' k' = members s t' k'"
    "members (ZADD api s t k x m) t' k' = members s t' k'"
    "0 < w \<Longrightarrow> members s t k \<noteq> Map.empty \<Longrightarrow> members (EXPIRE api s t k w) t' k' = members s t' k'"
  using assms
  by (simp_all add: passing [of t t'] zrem zrem_deadline zadd zadd_deadline expire expire_deadline
      split: option.split)

lemma holds_pruned:
  assumes "holds w s t0 k hist" and "t0 \<le> t" and "0 \<le> t"
  shows "holds w (ZREMRANGEBYSCORE api s t k 0 (t div 1000000000 - w)) t k hist"
proof -
  let ?s1 = "ZREMRANGEBYSCORE api s t k 0 (t div 1000000000 - w)"
  note W = window_members [OF assms]
  have "(\<forall>m x. members ?s1 t' k m = Some x \<longrightarrow> (\<exists>u \<in> set hist. m = FormatInt u \<and> x = u div 1000000000))
      \<and> (\<forall>u \<in> set hist. t' div 1000000000 - w < u div 1000000000
           \<longrightarrow> members ?s1 t' k (FormatInt u) = Some (u div 1000000000))" if t': "t \<le> t'" for t'
  proof (intro conjI allI impI ballI)
    fix m x assume "members ?s1 t' k m = Some x"
    then have "members ?s1 t k m = Some x"
      using passing [OF t', of ?s1 k] by (auto split: option.splits if_splits)
    then show "\<exists>u \<in> set hist. m = FormatInt u \<and> x = u div 1000000000" using W by blast
  next
    fix u assume u: "u \<in> set hist" "t' div 1000000000 - w < u div 1000000000"
    have "t div 1000000000 \<le> t' div 1000000000" using t' by (rule zdiv_mono1) simp
    with u(2) have "t div 1000000000 - w < u div 1000000000" by linarith
    with u(1) have in1: "members ?s1 t k (FormatInt u) = Some (u div 1000000000)" using W by blast
    then have "deadline ?s1 k = deadline s k" by (intro zrem_deadline) auto
    moreover have "members s t' k (FormatInt u) = Some (u div 1000000000)"
      using assms(1,2) u t' unfolding holds_def by auto
    then have "deadline s k = None \<or> (\<exists>e. deadline s k = Some e \<and> t' < e)"
      using passing [OF t', of s k] by (auto split: option.splits if_splits)
    ultimately show "members ?s1 t' k (FormatInt u) = Some (u div 1000000000)"
      using passing [OF t', of ?s1 k] in1 by auto
  qed
  moreover have "\<forall>u \<in> set hist. 0 \<le> u \<and> u \<le> t" "distinct hist"
    using assms unfolding holds_def by auto
  ultimately show ?thesis unfolding holds_def by blast
qed

lemma holds_admitted:
  assumes "holds w s t0 k hist" and "t0 < t" and "0 \<le> t" and "0 < w"
  defines "s1 \<equiv> ZREMRANGEBYSCORE api s t k 0 (t div 1000000000 - w)"
  shows "holds w (EXPIRE api (ZADD api s1 t k (t div 1000000000) (FormatInt t)) t k w) t k (t # hist)"
proof -
  let ?n = "t div 1000000000" and ?s2 = "ZADD api s1 t k (t div 1000000000) (FormatInt t)"
  let ?s3 = "EXPIRE api ?s2 t k w"
  have W: "members s1 t k m = Some x \<longleftrightarrow>
      (\<exists>u \<in> set hist. m = FormatInt u \<and> x = u div 1000000000 \<and> ?n - w < x)" for m x
    unfolding s1_def using window_members [OF assms(1)] assms(2,3) by simp
  have hist: "\<forall>u \<in> set hist. 0 \<le> u \<and> u < t" "distinct hist"
    using assms(1,2) unfolding holds_def by auto
  have now: "members ?s3 t k = (members s1 t k)(FormatInt t \<mapsto> ?n)"
    using assms(4) by (simp add: expire zadd)
  have ne: "members ?s2 t k \<noteq> Map.empty" by (simp add: zadd)
  then have dl: "deadline ?s3 k = Some (t + w * 1000000000)" by (simp add: expire_deadline)
  have "(\<forall>m x. members ?s3 t' k m = Some x \<longrightarrow> (\<exists>u \<in> set (t # hist). m = FormatInt u \<and> x = u div 1000000000))
      \<and> (\<forall>u \<in> set (t # hist). t' div 1000000000 - w < u div 1000000000
           \<longrightarrow> members ?s3 t' k (FormatInt u) = Some (u div 1000000000))" if t': "t \<le> t'" for t'
  proof (intro conjI allI impI ballI)
    fix m x assume "members ?s3 t' k m = Some x"
    then have "members ?s3 t k m = Some x"
      using passing [OF t', of ?s3 k] by (auto split: option.splits if_splits)
    then show "\<exists>u \<in> set (t # hist). m = FormatInt u \<and> x = u div 1000000000"
      using now W by (auto split: if_splits)
  next
    fix u assume u: "u \<in> set (t # hist)" "t' div 1000000000 - w < u div 1000000000"
    have "u \<le> t" using u(1) hist(1) by auto
    then have "u div 1000000000 \<le> ?n" by (rule zdiv_mono1) simp
    with u(2) have "t' div 1000000000 < ?n + w" by linarith
    then have "t' < t + w * 1000000000" by linarith
    then have "members ?s3 t' k = members ?s3 t k" using passing [OF t', of ?s3 k] dl by simp
    moreover have "?n - w < u div 1000000000"
      using u(2) zdiv_mono1 [OF t', of 1000000000] by linarith
    ultimately show "members ?s3 t' k (FormatInt u) = Some (u div 1000000000)"
      using u(1) now W by (cases "u = t") auto
  qed
  then show ?thesis using hist assms(3) unfolding holds_def by auto
qed

lemma Allow_step:
  assumes "holds (WindowSecs cfg) s t0 (''ratelimit:'' @ app) hist" and "t0 < t" and "0 \<le> t" and "0 < WindowSecs cfg"
  defines "r \<equiv> Allow api (\<lambda>_. False) t cfg app s"
  shows "fst r \<longleftrightarrow> int (length (filter (\<lambda>h. t div 1000000000 - WindowSecs cfg < h)
            (map (\<lambda>u. u div 1000000000) hist))) < Max cfg"
    and "holds (WindowSecs cfg) (snd r) t (''ratelimit:'' @ app) (if fst r then t # hist else hist)"
  using window_count [OF assms(1) _ assms(3)] holds_pruned [OF assms(1) _ assms(3)]
    holds_admitted [OF assms(1-4)] assms(2)
  by (auto simp: r_def Allow_def rateLimitScript_def defaultClock_def Let_def)

lemma Allow_other:
  assumes "holds w s t0 k hist" and "t0 \<le> t" and "k \<noteq> ''ratelimit:'' @ app" and "0 < WindowSecs cfg"
  shows "holds w (snd (Allow api (\<lambda>_. False) t cfg app s)) t k hist"
proof -
  have "members (snd (Allow api (\<lambda>_. False) t cfg app s)) t' k = members s t' k" if "t \<le> t'" for t'
    using that assms(3,4) by (simp add: Allow_def rateLimitScript_def defaultClock_def Let_def other_key zadd)
  moreover have "t0 \<le> t'" if "t \<le> t'" for t' using that assms(2) by simp
  moreover have "\<forall>u \<in> set hist. 0 \<le> u \<and> u \<le> t" "distinct hist" using assms(1,2) unfolding holds_def by auto
  ultimately show ?thesis using assms(1) unfolding holds_def by metis
qed

lemma holds_empty: "(\<And>t. members s t k = Map.empty) \<Longrightarrow> holds w s t k []"
  by (simp add: holds_def)

lemma decisions_sliding:
  assumes "sorted_wrt (<) (t0 # map snd rs)" and "0 \<le> t0" and "0 < WindowSecs cfg"
    and "holds (WindowSecs cfg) s t0 (''ratelimit:'' @ app) hist"
  shows "map snd (filter (\<lambda>r. fst r = app) (decisions api cfg s rs))
       = sliding (Max cfg) (WindowSecs cfg) (map (\<lambda>u. u div 1000000000) hist)
           (map (\<lambda>r. snd r div 1000000000) (filter (\<lambda>r. fst r = app) rs))"
  using assms
proof (induction rs arbitrary: s t0 hist)
  case (Cons r rs)
  obtain a t where r: "r = (a, t)" by (cases r)
  have t: "t0 < t" "0 \<le> t" "sorted_wrt (<) (t # map snd rs)" using Cons.prems(1,2) r by auto
  obtain ok s' where A: "Allow api (\<lambda>_. False) t cfg a s = (ok, s')" by (cases "Allow api (\<lambda>_. False) t cfg a s")
  show ?case
  proof (cases "a = app")
    case True
    note step = Allow_step [OF Cons.prems(4) t(1,2) Cons.prems(3)]
    from step(2) A True have "holds (WindowSecs cfg) s' t (''ratelimit:'' @ app) (if ok then t # hist else hist)" by simp
    from Cons.IH [OF t(3,2) Cons.prems(3) this] step(1) A True r show ?thesis by (auto simp: Let_def)
  next
    case False
    have "holds (WindowSecs cfg) s' t (''ratelimit:'' @ app) hist"
      using Allow_other [OF Cons.prems(4), of t a cfg] t(1) Cons.prems(3) A False by simp
    from Cons.IH [OF t(3,2) Cons.prems(3) this] A False r show ?thesis by simp
  qed
qed simp

end

subsection \<open>The reference keeps the limit\<close>

definition admitted :: "bool list \<Rightarrow> int list \<Rightarrow> int list" where
  "admitted bs ns = map fst (filter snd (zip ns bs))"

lemma length_sliding [simp]: "length (sliding mx w hist ns) = length ns"
  by (induction ns arbitrary: hist) (simp_all add: Let_def)

lemma sliding_limit_aux:
  assumes "sorted (rev hist @ ns)" and "0 \<le> mx"
    and "\<forall>t. int (length (filter (\<lambda>h. t - w < h \<and> h \<le> t) hist)) \<le> mx"
  shows "int (length (filter (\<lambda>h. t - w < h \<and> h \<le> t) (admitted (sliding mx w hist ns) ns @ hist))) \<le> mx"
  using assms
proof (induction ns arbitrary: hist)
  case Nil
  then show ?case by (simp add: admitted_def)
next
  case (Cons n ns)
  let ?ok = "int (length (filter (\<lambda>h. n - w < h) hist)) < mx"
  have le: "\<forall>h \<in> set hist. h \<le> n" using Cons.prems(1) by (auto simp: sorted_append)
  show ?case
  proof (cases ?ok)
    case True
    have "int (length (filter (\<lambda>h. t - w < h \<and> h \<le> t) (n # hist))) \<le> mx" for t
    proof (cases "t - w < n \<and> n \<le> t")
      case True
      then have "length (filter (\<lambda>h. t - w < h \<and> h \<le> t) hist) \<le> length (filter (\<lambda>h. n - w < h) hist)"
        by (induction hist) auto
      with \<open>?ok\<close> True show ?thesis by simp
    next
      case False
      then show ?thesis using Cons.prems(3) by auto
    qed
    moreover have "sorted (rev (n # hist) @ ns)" using Cons.prems(1) by simp
    ultimately have "int (length (filter (\<lambda>h. t - w < h \<and> h \<le> t) (admitted (sliding mx w (n # hist) ns) ns @ n # hist))) \<le> mx"
      using Cons.IH [of "n # hist"] Cons.prems(2) by blast
    moreover have "length (filter P (xs @ n # ys)) = length (filter P ((n # xs) @ ys))" for P xs and ys :: "int list"
      by simp
    moreover have "admitted (sliding mx w hist (n # ns)) (n # ns) = n # admitted (sliding mx w (n # hist) ns) ns"
      using True by (simp add: admitted_def Let_def)
    ultimately show ?thesis by metis
  next
    case False
    have "sorted (rev hist @ ns)" using Cons.prems(1) by (auto simp: sorted_append)
    with Cons.IH [of hist] Cons.prems(2,3) False show ?thesis by (simp add: admitted_def Let_def)
  qed
qed

lemma sliding_limit:
  assumes "sorted ns" and "0 \<le> mx"
  shows "int (length (filter (\<lambda>h. t - w < h \<and> h \<le> t) (admitted (sliding mx w [] ns) ns))) \<le> mx"
  using sliding_limit_aux [of "[]" ns mx w t] assms by simp

subsection \<open>A server that meets the contract\<close>

text \<open>Sorted sets as association lists with a deadline each; an absent key is an empty set.\<close>

type_synonym zstore = "string \<Rightarrow> (string \<times> int) list \<times> instant option"

definition live_set :: "zstore \<Rightarrow> instant \<Rightarrow> string \<Rightarrow> (string \<times> int) list \<times> instant option" where
  "live_set s t k = (case snd (s k) of Some e \<Rightarrow> if e \<le> t then ([], None) else s k | None \<Rightarrow> s k)"

definition list_server :: "zstore zset_api" where
  "list_server = \<lparr>
     ZREMRANGEBYSCORE = (\<lambda>s t k lo hi. case live_set s t k of (ms, e) \<Rightarrow>
        s(k := (filter (\<lambda>p. snd p < lo \<or> hi < snd p) (AList.clearjunk ms), e))),
     ZCARD = (\<lambda>s t k. card (fst ` set (fst (live_set s t k)))),
     ZADD = (\<lambda>s t k x m. case live_set s t k of (ms, e) \<Rightarrow> s(k := (AList.update m x ms, e))),
     EXPIRE = (\<lambda>s t k w. case live_set s t k of (ms, e) \<Rightarrow> s(k := (ms, Some (t + w * 1000000000))))\<rparr>"

definition list_members :: "zstore \<Rightarrow> instant \<Rightarrow> string \<Rightarrow> string \<rightharpoonup> int" where
  "list_members s t k = map_of (fst (live_set s t k))"

definition list_deadline :: "zstore \<Rightarrow> string \<Rightarrow> instant option" where
  "list_deadline s k = snd (s k)"

lemma map_of_filter_clearjunk:
  "map_of (filter (\<lambda>p. Q (snd p)) (AList.clearjunk ms)) m
     = (case map_of ms m of None \<Rightarrow> None | Some x \<Rightarrow> if Q x then Some x else None)"
proof -
  have "map_of (filter (\<lambda>p. Q (snd p)) xs) m
     = (case map_of xs m of None \<Rightarrow> None | Some x \<Rightarrow> if Q x then Some x else None)" if "distinct (map fst xs)" for xs
    using that
  proof (induction xs)
    case (Cons p xs)
    then show ?case by (cases "map_of xs (fst p)") (auto simp: map_of_eq_None_iff split: option.splits)
  qed simp
  from this [of "AList.clearjunk ms"] show ?thesis by (simp add: distinct_clearjunk map_of_clearjunk)
qed

interpretation list_server: zset_server list_server list_members list_deadline
proof (unfold_locales, goal_cases)
  case (1 s t k)
  then show ?case by (simp add: list_members_def finite_dom_map_of)
next
  case (2 s t k)
  then show ?case by (simp add: list_members_def list_server_def dom_map_of_conv_image_fst)
next
  case (3 s t k lo hi k')
  obtain ms e where l: "live_set s t k = (ms, e)" by (cases "live_set s t k")
  then have "live_set (s(k := (filter (\<lambda>p. snd p < lo \<or> hi < snd p) (AList.clearjunk ms), e))) t k
      = (filter (\<lambda>p. snd p < lo \<or> hi < snd p) (AList.clearjunk ms), e)"
    by (auto simp: live_set_def split: option.splits if_splits)
  moreover have "live_set (s(k := v)) t j = live_set s t j" if "j \<noteq> k" for v j
    using that by (simp add: live_set_def split: option.split)
  ultimately have "list_members (ZREMRANGEBYSCORE list_server s t k lo hi) t k'
      = (if k' = k then map_of (filter (\<lambda>p. snd p < lo \<or> hi < snd p) (AList.clearjunk ms)) else list_members s t k')"
    using l by (simp add: list_members_def list_server_def)
  with l show ?case
    by (auto simp: list_members_def map_of_filter_clearjunk [of "\<lambda>x. x < lo \<or> hi < x"] fun_eq_iff split: option.splits)
next
  case (4 k' k s t lo hi)
  then show ?case
    by (auto simp: list_members_def list_server_def list_deadline_def live_set_def
        split: option.splits prod.splits if_splits)
next
  case (5 s t k x m k')
  then show ?case
    by (auto simp: list_members_def list_server_def live_set_def update_conv split: option.splits prod.splits if_splits)
next
  case (6 k' k s t x m)
  then show ?case by (auto simp: list_server_def list_deadline_def split: prod.splits)
next
  case (7 w s t k k')
  then show ?case
    by (auto simp: list_members_def list_server_def live_set_def split: option.splits prod.splits if_splits)
next
  case (8 s t k w k')
  then show ?case by (auto simp: list_server_def list_deadline_def split: prod.splits)
next
  case (9 t t' s k)
  then show ?case
    by (auto simp: list_members_def list_deadline_def live_set_def split: option.splits if_splits)
qed

lemma decisions_from_empty:
  assumes "zset_server api members deadline" and "\<forall>t. members s t (''ratelimit:'' @ app) = Map.empty"
    and "sorted_wrt (<) (0 # map snd rs)" and "0 < WindowSecs cfg"
  shows "map snd (filter (\<lambda>r. fst r = app) (decisions api cfg s rs))
       = sliding (Max cfg) (WindowSecs cfg) [] (map (\<lambda>r. snd r div 1000000000) (filter (\<lambda>r. fst r = app) rs))"
proof -
  note D = zset_server.decisions_sliding [OF assms(1), of 0 rs cfg s app "[]"]
  have "zset_server.holds members (WindowSecs cfg) s 0 (''ratelimit:'' @ app) []"
    by (rule zset_server.holds_empty [OF assms(1)]) (rule spec [OF assms(2)])
  then show ?thesis using D assms(3,4) by simp
qed

text \<open>(C18) The limiter decides exactly as the sliding window prescribes.  Against any server that
  keeps the contract of the sorted-set commands, started with no entries for the application, a
  run of requests at increasing times of several applications, interleaved in any way, is
  answered for each application as \<open>sliding\<close> answers that application's requests alone: a
  request is admitted if and only if fewer than \<open>Max\<close> of its requests were admitted in the
  last \<open>WindowSecs\<close> seconds.  Expiry of the key never loosens or tightens the limit.\<close>
theorem rate_limiter_exact:
  assumes "zset_server api members deadline" and "\<forall>t. members s t (''ratelimit:'' @ app) = Map.empty"
    and "sorted_wrt (<) (0 # map snd rs)" and "0 < WindowSecs cfg"
  shows "map snd (filter (\<lambda>r. fst r = app) (decisions api cfg s rs))
       = sliding (Max cfg) (WindowSecs cfg) [] (map (\<lambda>r. snd r div 1000000000) (filter (\<lambda>r. fst r = app) rs))"
  using decisions_from_empty [of api members deadline s app rs cfg, OF assms] .

definition demo_requests :: "(string \<times> instant) list" where
  "demo_requests = [(''a'', 1000000000), (''a'', 1500000000), (''b'', 1600000000), (''a'', 1700000000), (''a'', 3000000000)]"

theorem rate_limiter_exact_witness:
  "map snd (filter (\<lambda>r. fst r = ''a'') (decisions list_server \<lparr>Max = 2, WindowSecs = 2\<rparr> (\<lambda>_. ([], None)) demo_requests))
     = [True, True, False, True]"
proof -
  have "\<forall>t. list_members (\<lambda>_. ([], None)) t (''ratelimit:'' @ ''a'') = Map.empty"
    by (simp add: list_members_def live_set_def)
  from rate_limiter_exact [where s = "\<lambda>_. ([], None)" and app = "''a''", OF list_server.zset_server_axioms this, where rs = demo_requests and cfg = "\<lparr>Max = 2, WindowSecs = 2\<rparr>"]
  have "map snd (filter (\<lambda>r. fst r = ''a'') (decisions list_server \<lparr>Max = 2, WindowSecs = 2\<rparr> (\<lambda>_. ([], None)) demo_requests))
     = sliding 2 2 [] [1, 1, 1, 3]"
    by (simp add: demo_requests_def)
  also have "\<dots> = [True, True, False, True]" by code_simp
  finally show ?thesis .
qed



end
