(* ===== verification/Ingest_API.thy ===== *)
theory Ingest_API
  imports Worker Auth RateLimit
begin

text \<open>
  The HTTP surface of the ingest service, \<^verbatim>\<open>services/ingest-api\<close>: the handlers of
  \<^verbatim>\<open>handler/*.go\<close> and the router of \<^verbatim>\<open>server/server.go\<close> with its
  middleware chains.

  A request body is the value its JSON text decodes to (\<open>None\<close> when decoding fails).  The
  handlers that enqueue are written against an enqueue function, as in the source (never nil in the
  service, where \<^verbatim>\<open>main.go\<close> passes the pool's); what they need of it is the locale \<open>enqueue_fn\<close> of theory \<open>Worker\<close>.  \<open>emosTrigger\<close> is the
  non-blocking send to the channel of 256 conferences set up in \<^verbatim>\<open>main.go\<close>.
\<close>

subsection \<open>Validation\<close>

definition maxEvents :: nat where
  "maxEvents = 200"

definition numeric_fields :: "StatSnapshot \<Rightarrow> (string \<times> rat) list" where
  "numeric_fields s =
     [(''rtt_ms'', RTTMs s), (''jitter_ms'', JitterMs s), (''packet_loss_rate'', PacketLossRate s),
      (''bitrate_in_kbps'', BitrateInKbps s), (''bitrate_out_kbps'', BitrateOutKbps s),
      (''packet_rate_in'', PacketRateIn s), (''packet_rate_out'', PacketRateOut s),
      (''available_bandwidth_kbps'', AvailableBandwidthKbps s), (''audio_level'', AudioLevel s),
      (''local_audio_level'', LocalAudioLevel s), (''concealment_ratio'', ConcealmentRatio s),
      (''fps'', FPS s), (''send_fps'', SendFPS s), (''freeze_duration_ms'', FreezeDurationMs s),
      (''frame_drop_rate'', FrameDropRate s), (''target_bitrate_kbps'', TargetBitrateKbps s)]"

definition validateStatSnapshot :: "StatSnapshot \<Rightarrow> nat \<Rightarrow> string option" where
  "validateStatSnapshot s idx =
     (case List.find (\<lambda>f. snd f < 0) (numeric_fields s) of
        None \<Rightarrow> None
      | Some f \<Rightarrow> Some (''events['' @ dec_nat idx @ '']: '' @ fst f @ '' must be >= 0''))"

fun validateEvents :: "nat \<Rightarrow> StatSnapshot list \<Rightarrow> string option" where
  "validateEvents i [] = None"
| "validateEvents i (ev # evs) =
     (if TS ev \<le> 0
      then Some (''events['' @ dec_nat i @ '']: ts must be a positive Unix millisecond timestamp'')
      else case validateStatSnapshot ev i of Some e \<Rightarrow> Some e | None \<Rightarrow> validateEvents (Suc i) evs)"

definition validatePayload :: "IngestPayload \<Rightarrow> string option" where
  "validatePayload p =
     (if ConferenceID p = [] then Some ''conference_id is required''
      else if SessionID p = [] then Some ''session_id is required''
      else if ConnectionID p = [] then Some ''connection_id is required''
      else if Events p = [] then Some ''events must not be empty''
      else if length (Events p) > maxEvents then Some (''events exceeds maximum of '' @ dec_nat maxEvents)
      else validateEvents 0 (Events p))"

subsection \<open>Handlers\<close>

definition HandleEvents ::
  "(IngestPayload \<Rightarrow> 'w \<Rightarrow> worker_error option \<times> 'w) \<Rightarrow> Claims \<Rightarrow> IngestPayload option \<Rightarrow> 'w \<Rightarrow> unit resp \<times> 'w" where
  "HandleEvents enqueue claims body w =
     (case body of
        None \<Rightarrow> (err_reply 400 ''invalid JSON'', w)
      | Some payload \<Rightarrow>
          (case validatePayload payload of
             Some e \<Rightarrow> (err_reply 400 e, w)
           | None \<Rightarrow>
               (case enqueue (payload\<lparr>AppID := CAppID claims, UserID := CUserID claims\<rparr>) w of
                  (Some ErrChannelFull, w') \<Rightarrow> (busy_reply ''service busy, retry later'', w')
                | (None, w') \<Rightarrow> (reply 202 NoBody, w'))))"

definition HandleServerEvents ::
  "(IngestPayload \<Rightarrow> 'w \<Rightarrow> worker_error option \<times> 'w) \<Rightarrow> ServerClaims option \<Rightarrow> IngestPayload option \<Rightarrow> 'w \<Rightarrow> unit resp \<times> 'w" where
  "HandleServerEvents enqueue claims body w =
     (case claims of
        None \<Rightarrow> (err_reply 401 ''missing authentication'', w)
      | Some sc \<Rightarrow>
     case body of
        None \<Rightarrow> (err_reply 400 ''invalid JSON'', w)
      | Some payload \<Rightarrow>
          (case validatePayload payload of
             Some e \<Rightarrow> (err_reply 400 e, w)
           | None \<Rightarrow>
               (case enqueue (payload\<lparr>AppID := FormatInt (SAppID sc), Source := ''server''\<rparr>) w of
                  (Some ErrChannelFull, w') \<Rightarrow> (busy_reply ''service busy, retry later'', w')
                | (None, w') \<Rightarrow> (reply 202 NoBody, w'))))"

definition resolveAppID :: "Claims option \<Rightarrow> ServerClaims option \<Rightarrow> int option" where
  "resolveAppID claims sclaims =
     (case claims of
        Some c \<Rightarrow> if CAppID c \<noteq> [] then ParseInt (CAppID c) else map_option SAppID sclaims
      | None \<Rightarrow> map_option SAppID sclaims)"

text \<open>What ending a conference touches: the database, the eMOS channel, and the keys of the
  analytics cache.\<close>

record end_state =
  edb :: database
  emosCh :: "int list"
  analytics_keys :: "string list"

definition emosTrigger :: "int \<Rightarrow> int list \<Rightarrow> int list" where
  "emosTrigger confID q = (if length q < 256 then q @ [confID] else q)"

definition end_update :: "instant \<Rightarrow> int \<Rightarrow> conference_row list \<Rightarrow> conference_row list" where
  "end_update now confDBID rows =
     map (\<lambda>c. if conf_id c = confDBID \<and> conf_ended_at c = None then c\<lparr>conf_ended_at := Some (pg_time now)\<rparr> else c) rows"

definition invalidate :: "int \<Rightarrow> string list \<Rightarrow> string list" where
  "invalidate app keys =
     filter (\<lambda>k. \<not> HasPrefix k (''overview:'' @ FormatInt app @ '':'')
               \<and> \<not> HasPrefix k (''breakdown:'' @ FormatInt app @ '':'')) keys"

definition HandleEndConference ::
  "faults \<Rightarrow> instant \<Rightarrow> Claims option \<Rightarrow> ServerClaims option \<Rightarrow> string \<Rightarrow> end_state \<Rightarrow> unit resp \<times> end_state" where
  "HandleEndConference ft now claims sclaims externalID s =
     (case resolveAppID claims sclaims of
        None \<Rightarrow> (err_reply 401 ''invalid app_id in token'', s)
      | Some callerAppID \<Rightarrow>
          if ft ''end_conference: lookup failed'' \<or> \<not> pg_text externalID then (err_reply 500 ''internal error'', s)
          else case List.find (\<lambda>c. conf_external_id c = externalID) (conferences (edb s)) of
            None \<Rightarrow> (err_reply 404 ''conference not found'', s)
          | Some c \<Rightarrow>
              if conf_app_id c \<noteq> callerAppID then (err_reply 403 ''access denied'', s)
              else if ft ''end_conference: update failed'' then (err_reply 500 ''internal error'', s)
              else (reply 202 NoBody,
                    s\<lparr>edb := (edb s)\<lparr>conferences := end_update now (conf_id c) (conferences (edb s))\<rparr>,
                      emosCh := emosTrigger (conf_id c) (emosCh s),
                      analytics_keys := invalidate (conf_app_id c) (analytics_keys s)\<rparr>))"

record HealthResponse =
  Status :: string
  DB :: string
  Redis :: string

definition HandleHealth :: "faults \<Rightarrow> HealthResponse resp" where
  "HandleHealth ft =
     (let db_bad = ft ''health check: db ping failed''; redis_bad = ft ''health check: redis ping failed'' in
      reply (if db_bad \<or> redis_bad then 503 else 200)
        (OkBody \<lparr>Status = (if db_bad \<or> redis_bad then ''error'' else ''ok''),
                 DB = (if db_bad then ''error'' else ''ok''), Redis = (if redis_bad then ''error'' else ''ok'')\<rparr>))"

subsection \<open>Router\<close>

text \<open>The state behind the router; \<open>limits\<close> are the sorted sets of the rate limiter,
  \<open>nonces\<close> the strings of the replay protection.\<close>

record ('w, 'z, 'k) service =
  queue :: 'w
  limits :: 'z
  nonces :: 'k
  ends :: end_state

record ('w, 'z, 'k) Server =
  srv_enqueue :: "IngestPayload \<Rightarrow> 'w \<Rightarrow> worker_error option \<times> 'w"
  srv_jwt_parse :: "string \<Rightarrow> string \<Rightarrow> token_error + (bool \<times> Claims)"
  srv_crypto :: crypto
  srv_zset :: "'z zset_api"
  srv_kv :: "('k, string) kv_api"
  jwtSecret :: string
  rateLimiter :: RateLimit.Config
  serverMasterKey :: string
  serverRateLimiter :: RateLimit.Config

datatype endpoint = Events_ep | End_ep string

datatype route = Health | Swagger | JWT_route endpoint | Server_route endpoint | Wrong_method | No_route

text \<open>The paths of the two authenticated groups, all of them registered for POST; those of the
  server group only when the master key has 32 bytes.  Paths are taken without percent escapes.\<close>

definition post_route :: "('w, 'z, 'k) Server \<Rightarrow> string \<Rightarrow> route" where
  "post_route srv path =
     (case Split (CHR ''/'') path of
        [r, v, a] \<Rightarrow> if r = [] \<and> v = ''v1'' \<and> a = ''events'' then JWT_route Events_ep else No_route
      | [r, v, a, b] \<Rightarrow>
          if r = [] \<and> v = ''v1'' \<and> a = ''server'' \<and> b = ''events'' \<and> length (serverMasterKey srv) = 32
          then Server_route Events_ep else No_route
      | [r, v, a, b, e] \<Rightarrow>
          if r = [] \<and> v = ''v1'' \<and> a = ''conferences'' \<and> b \<noteq> [] \<and> e = ''end'' then JWT_route (End_ep b) else No_route
      | [r, v, x, a, b, e] \<Rightarrow>
          if r = [] \<and> v = ''v1'' \<and> x = ''server'' \<and> a = ''conferences'' \<and> b \<noteq> [] \<and> e = ''end''
             \<and> length (serverMasterKey srv) = 32 then Server_route (End_ep b) else No_route
      | _ \<Rightarrow> No_route)"

text \<open>A path that is registered for another method is answered 405, an unregistered one 404.\<close>

definition setupRoutes :: "('w, 'z, 'k) Server \<Rightarrow> string \<Rightarrow> string \<Rightarrow> route" where
  "setupRoutes srv meth path =
     (if path = ''/health'' then (if meth = ''GET'' then Health else Wrong_method)
      else if HasPrefix path ''/swagger/'' then (if meth = ''GET'' then Swagger else Wrong_method)
      else case post_route srv path of
        No_route \<Rightarrow> No_route
      | rt \<Rightarrow> if meth = ''POST'' then rt else Wrong_method)"

record http_request =
  req :: request
  Authorization :: string
  decoded :: "IngestPayload option"

definition jwt_group ::
  "('w, 'z, 'k) Server \<Rightarrow> faults \<Rightarrow> instant \<Rightarrow> endpoint \<Rightarrow> http_request \<Rightarrow> ('w, 'z, 'k) service \<Rightarrow> unit resp \<times> ('w, 'z, 'k) service" where
  "jwt_group srv ft now ep r s =
     (case Authenticate (srv_jwt_parse srv) (jwtSecret srv) (Authorization r) of
        Inl (st, msg) \<Rightarrow> (err_reply st msg, s)
      | Inr claims \<Rightarrow>
          (case Middleware (srv_zset srv) ft now (rateLimiter srv) (\<lambda>_. CAppID claims) r (limits s) of
             (Some rep, z) \<Rightarrow> (rep, s\<lparr>limits := z\<rparr>)
           | (None, z) \<Rightarrow>
               (case ep of
                       Events_ep \<Rightarrow> (case HandleEvents (srv_enqueue srv) claims (decoded r) (queue s) of
                                      (rep', q) \<Rightarrow> (rep', s\<lparr>limits := z, queue := q\<rparr>))
                     | End_ep ext \<Rightarrow> (case HandleEndConference ft now (Some claims) None ext (ends s) of
                                      (rep', e) \<Rightarrow> (rep', s\<lparr>limits := z, ends := e\<rparr>)))))"

definition server_group ::
  "('w, 'z, 'k) Server \<Rightarrow> faults \<Rightarrow> instant \<Rightarrow> endpoint \<Rightarrow> http_request \<Rightarrow> ('w, 'z, 'k) service \<Rightarrow> unit resp \<times> ('w, 'z, 'k) service" where
  "server_group srv ft now ep r s =
     (case AuthenticateAPIKey (srv_crypto srv) (srv_kv srv) ft now (serverMasterKey srv) (edb (ends s)) (req r) (nonces s) of
        (Inl (st, msg), k) \<Rightarrow> (err_reply st msg, s\<lparr>nonces := k\<rparr>)
      | (Inr claims, k) \<Rightarrow>
          (case ServerMiddleware (srv_zset srv) ft now (serverRateLimiter srv) (\<lambda>_. Some (APIKey claims)) r (limits s) of
             (Some rep, z) \<Rightarrow> (rep, s\<lparr>nonces := k, limits := z\<rparr>)
           | (None, z) \<Rightarrow>
               (case ep of
                       Events_ep \<Rightarrow> (case HandleServerEvents (srv_enqueue srv) (Some claims) (decoded r) (queue s) of
                                      (rep', q) \<Rightarrow> (rep', s\<lparr>nonces := k, limits := z, queue := q\<rparr>))
                     | End_ep ext \<Rightarrow> (case HandleEndConference ft now None (Some claims) ext (ends s) of
                                      (rep', e) \<Rightarrow> (rep', s\<lparr>nonces := k, limits := z, ends := e\<rparr>)))))"

text \<open>The documentation pages under \<^verbatim>\<open>/swagger/\<close> are static; their body is not
  modelled.\<close>

definition ServeHTTP ::
  "('w, 'z, 'k) Server \<Rightarrow> faults \<Rightarrow> instant \<Rightarrow> http_request \<Rightarrow> ('w, 'z, 'k) service \<Rightarrow> unit resp \<times> ('w, 'z, 'k) service" where
  "ServeHTTP srv ft now r s =
     (case setupRoutes srv (Method (req r)) (URL_Path (req r)) of
        Health \<Rightarrow> (reply (status (HandleHealth ft)) NoBody, s)
      | JWT_route ep \<Rightarrow> jwt_group srv ft now ep r s
      | Server_route ep \<Rightarrow> server_group srv ft now ep r s
      | Swagger \<Rightarrow> (reply 200 NoBody, s)
      | Wrong_method \<Rightarrow> (reply 405 NoBody, s)
      | No_route \<Rightarrow> (reply 404 NoBody, s))"

subsection \<open>Validation and enqueueing\<close>

definition valid_event :: "StatSnapshot \<Rightarrow> bool" where
  "valid_event ev \<longleftrightarrow> 0 < TS ev \<and> (\<forall>f \<in> set (numeric_fields ev). 0 \<le> snd f)"

definition valid_payload :: "IngestPayload \<Rightarrow> bool" where
  "valid_payload p \<longleftrightarrow> ConferenceID p \<noteq> [] \<and> SessionID p \<noteq> [] \<and> ConnectionID p \<noteq> []
     \<and> 1 \<le> length (Events p) \<and> length (Events p) \<le> 200 \<and> (\<forall>ev \<in> set (Events p). valid_event ev)"

lemma validateStatSnapshot_None: "validateStatSnapshot ev i = None \<longleftrightarrow> (\<forall>f \<in> set (numeric_fields ev). 0 \<le> snd f)"
proof (cases "List.find (\<lambda>f. snd f < 0) (numeric_fields ev)")
  case None
  then have "\<forall>f \<in> set (numeric_fields ev). 0 \<le> snd f" using find_NoneD not_less by metis
  then show ?thesis using None by (simp add: validateStatSnapshot_def)
next
  case (Some f)
  then have "f \<in> set (numeric_fields ev) \<and> snd f < 0" by (rule find_SomeD)
  then show ?thesis using Some by (auto simp: validateStatSnapshot_def not_le)
qed

lemma validateEvents_None: "validateEvents i evs = None \<longleftrightarrow> (\<forall>ev \<in> set evs. valid_event ev)"
proof (induction evs arbitrary: i)
  case (Cons ev evs)
  show ?case
  proof (cases "validateStatSnapshot ev i")
    case None
    then show ?thesis using Cons validateStatSnapshot_None [of ev i] by (auto simp: valid_event_def)
  next
    case (Some e)
    then show ?thesis using validateStatSnapshot_None [of ev i] by (auto simp: valid_event_def)
  qed
qed simp

lemma validatePayload_None: "validatePayload p = None \<longleftrightarrow> valid_payload p"
  by (auto simp: validatePayload_def valid_payload_def validateEvents_None maxEvents_def Suc_le_eq)

text \<open>The enqueue function of the ingest service, for payloads.  Both event handlers, for any
  enqueue function of the contract: the queue grows by the stamped payload exactly when the answer
  is 202, and is untouched otherwise.\<close>

locale ingest_queue = enqueue_fn enq taken
  for enq :: "IngestPayload \<Rightarrow> 's \<Rightarrow> worker_error option \<times> 's" and taken :: "'s \<Rightarrow> IngestPayload list"
begin

lemma enqueue_cases:
  obtains (taken) s' where "enq p s = (None, s')" "taken s' = taken s @ [p]"
  | (refused) "enq p s = (Some ErrChannelFull, s)"
proof (cases "enq p s")
  case (Pair r s')
  show ?thesis
  proof (cases r)
    case None
    with Pair that(1) show ?thesis using enq_ok by blast
  next
    case (Some e)
    with Pair that(2) show ?thesis using enq_err by (cases e) auto
  qed
qed

lemma HandleEvents_queue:
  defines "stamped \<equiv> \<lambda>claims p. p\<lparr>AppID := CAppID claims, UserID := CUserID claims\<rparr>"
  shows "case HandleEvents enq claims body s of (rep, s') \<Rightarrow>
     (\<exists>p. body = Some p \<and> valid_payload p \<and> status rep = 202 \<and> taken s' = taken s @ [stamped claims p]
        \<and> fst (enq (stamped claims p) s) = None)
   \<or> (body = None \<or> \<not> valid_payload (the body)) \<and> status rep = 400 \<and> s' = s
   \<or> (\<exists>p. body = Some p \<and> valid_payload p \<and> status rep = 429 \<and> retry_after rep \<and> s' = s
        \<and> fst (enq (stamped claims p) s) = Some ErrChannelFull)"
proof (cases body)
  case None
  then show ?thesis by (simp add: HandleEvents_def)
next
  case (Some p)
  show ?thesis
  proof (cases "valid_payload p")
    case True
    then have "validatePayload p = None" by (simp add: validatePayload_None)
    with True Some show ?thesis
      by (cases rule: enqueue_cases [of "stamped claims p" s]) (auto simp: HandleEvents_def stamped_def)
  next
    case False
    then obtain e where "validatePayload p = Some e" by (cases "validatePayload p") (auto simp: validatePayload_None)
    with False Some show ?thesis by (simp add: HandleEvents_def)
  qed
qed

lemma HandleServerEvents_queue:
  defines "stamped \<equiv> \<lambda>sc p. p\<lparr>AppID := FormatInt (SAppID sc), Source := ''server''\<rparr>"
  shows "case HandleServerEvents enq (Some sc) body s of (rep, s') \<Rightarrow>
     (\<exists>p. body = Some p \<and> valid_payload p \<and> status rep = 202 \<and> taken s' = taken s @ [stamped sc p])
   \<or> (body = None \<or> \<not> valid_payload (the body)) \<and> status rep = 400 \<and> s' = s
   \<or> (\<exists>p. body = Some p \<and> valid_payload p \<and> status rep = 429 \<and> retry_after rep \<and> s' = s)"
proof (cases body)
  case None
  then show ?thesis by (simp add: HandleServerEvents_def)
next
  case (Some p)
  show ?thesis
  proof (cases "valid_payload p")
    case True
    then have "validatePayload p = None" by (simp add: validatePayload_None)
    with True Some show ?thesis
      by (cases rule: enqueue_cases [of "stamped sc p" s]) (auto simp: HandleServerEvents_def stamped_def)
  next
    case False
    then obtain e where "validatePayload p = Some e" by (cases "validatePayload p") (auto simp: validatePayload_None)
    with False Some show ?thesis by (simp add: HandleServerEvents_def)
  qed
qed

end

interpretation ingest_pool: ingest_queue "Enqueue cfg" accepted for cfg
  by unfold_locales

subsection \<open>Properties\<close>

text \<open>Validation is exact: the error is nil if and only if the three identifiers are present,
  there are between 1 and 200 events, every event has a positive timestamp and every one of its
  sixteen real-valued statistics is non-negative.\<close>
theorem validatePayload_iff:
  "validatePayload p = None \<longleftrightarrow>
     ConferenceID p \<noteq> [] \<and> SessionID p \<noteq> [] \<and> ConnectionID p \<noteq> []
   \<and> 1 \<le> length (Events p) \<and> length (Events p) \<le> 200
   \<and> (\<forall>ev \<in> set (Events p). 0 < TS ev \<and> (\<forall>f \<in> set (numeric_fields ev). 0 \<le> snd f))"
  using validatePayload_None [of p] by (simp add: valid_payload_def valid_event_def)

theorem validatePayload_iff_witness:
  "validatePayload \<lparr>AppID = [], UserID = [], Source = [], ConferenceID = ''c'', SessionID = ''s'', ConnectionID = ''n'',
     Events = [zero_snapshot\<lparr>TS := 1\<rparr>]\<rparr> = None"
  using validatePayload_iff [of "\<lparr>AppID = [], UserID = [], Source = [], ConferenceID = ''c'', SessionID = ''s'',
     ConnectionID = ''n'', Events = [zero_snapshot\<lparr>TS := 1\<rparr>]\<rparr>"]
  by (simp add: numeric_fields_def zero_snapshot_def)

text \<open>(C24) Provenance of queued payloads.  Whatever request reaches the router, the worker pool
  either stays as it is or takes exactly one more payload; then the answer is 202, the payload passed
  validation, and it carries the application (and for browsers the user) of credentials that were
  verified for this very request: JWT claims, or the server key's application with source
  \<open>server\<close>.\<close>
theorem queued_payload_provenance:
  assumes "srv_enqueue srv = Enqueue cfg" and "ServeHTTP srv ft now r s = (rep, s')"
  shows "queue s' = queue s
   \<or> status rep = 202 \<and> (\<exists>p q. decoded r = Some p \<and> valid_payload p \<and> accepted (queue s') = accepted (queue s) @ [q]
        \<and> ((\<exists>claims. Authenticate (srv_jwt_parse srv) (jwtSecret srv) (Authorization r) = Inr claims
              \<and> q = p\<lparr>AppID := CAppID claims, UserID := CUserID claims\<rparr>)
         \<or> (\<exists>sc. fst (AuthenticateAPIKey (srv_crypto srv) (srv_kv srv) ft now (serverMasterKey srv)
                        (edb (ends s)) (req r) (nonces s)) = Inr sc
              \<and> q = p\<lparr>AppID := FormatInt (SAppID sc), Source := ''server''\<rparr>)))"
proof (cases "setupRoutes srv (Method (req r)) (URL_Path (req r))")
  case Health
  then show ?thesis using assms(2) by (simp add: ServeHTTP_def)
next
  case Swagger
  then show ?thesis using assms(2) by (simp add: ServeHTTP_def)
next
  case Wrong_method
  then show ?thesis using assms(2) by (simp add: ServeHTTP_def)
next
  case No_route
  then show ?thesis using assms(2) by (simp add: ServeHTTP_def)
next
  case (JWT_route ep)
  then have g: "jwt_group srv ft now ep r s = (rep, s')" using assms(2) by (simp add: ServeHTTP_def)
  show ?thesis
  proof (cases "Authenticate (srv_jwt_parse srv) (jwtSecret srv) (Authorization r)")
    case (Inl e)
    then show ?thesis using g by (auto simp: jwt_group_def split: prod.splits)
  next
    case (Inr claims)
    then show ?thesis
      using g ingest_pool.HandleEvents_queue [where cfg = cfg and claims = claims and body = "decoded r" and s = "queue s"] assms(1)
      by (auto simp: jwt_group_def split: prod.splits option.splits endpoint.splits)
  qed
next
  case (Server_route ep)
  then have g: "server_group srv ft now ep r s = (rep, s')" using assms(2) by (simp add: ServeHTTP_def)
  obtain a k where a: "AuthenticateAPIKey (srv_crypto srv) (srv_kv srv) ft now (serverMasterKey srv)
      (edb (ends s)) (req r) (nonces s) = (a, k)" by fastforce
  show ?thesis
  proof (cases a)
    case (Inl e)
    then show ?thesis using g a by (auto simp: server_group_def split: prod.splits)
  next
    case (Inr sc)
    then show ?thesis
      using g a ingest_pool.HandleServerEvents_queue [where cfg = cfg and sc = sc and body = "decoded r" and s = "queue s"] assms(1)
      by (auto simp: server_group_def split: prod.splits option.splits endpoint.splits)
  qed
qed

text \<open>Sample data for the witnesses.\<close>

definition sample_body :: IngestPayload where
  "sample_body = \<lparr>AppID = ''999'', UserID = ''mallory'', Source = [], ConferenceID = ''c'', SessionID = ''s'',
     ConnectionID = ''n'', Events = [zero_snapshot\<lparr>TS := 1\<rparr>]\<rparr>"

definition sample_server :: "(IngestPayload Pool, zstore, string kv_store) Server" where
  "sample_server = \<lparr>srv_enqueue = Enqueue sample_cfg,
     srv_jwt_parse = (\<lambda>tok secret. Inr (True, \<lparr>CAppID = ''7'', CConferenceID = ''c'', CUserID = ''u''\<rparr>)),
     srv_crypto = demo_crypto, srv_zset = list_server, srv_kv = map_server, jwtSecret = ''secret'',
     rateLimiter = \<lparr>RateLimit.Config.Max = 10, WindowSecs = 1\<rparr>, serverMasterKey = demo_key,
     serverRateLimiter = \<lparr>RateLimit.Config.Max = 10, WindowSecs = 1\<rparr>\<rparr>"

definition sample_service :: "(IngestPayload Pool, zstore, string kv_store) service" where
  "sample_service = \<lparr>queue = \<lparr>ch = [], closed = False, workers = [Running []], flushes = [], accepted = []\<rparr>,
     limits = (\<lambda>_. ([], None)), nonces = (\<lambda>_. None),
     ends = \<lparr>edb = demo_auth_db, emosCh = [], analytics_keys = []\<rparr>\<rparr>"

definition sample_http :: http_request where
  "sample_http = \<lparr>req = demo_request\<lparr>URL_Path := ''/v1/events''\<rparr>, Authorization = ''Bearer t'', decoded = Some sample_body\<rparr>"

theorem queued_payload_provenance_witness:
  "\<exists>q. accepted (queue (snd (ServeHTTP sample_server (\<lambda>_. False) 5 sample_http sample_service))) = [q] \<and> AppID q = ''7''"
proof -
  let ?r = "ServeHTTP sample_server (\<lambda>_. False) 5 sample_http sample_service"
  have changed: "accepted (queue (snd ?r)) \<noteq> accepted (queue sample_service)" by code_simp
  have e: "srv_enqueue sample_server = Enqueue sample_cfg" by (simp add: sample_server_def)
  have no_key: "fst (AuthenticateAPIKey (srv_crypto sample_server) (srv_kv sample_server) (\<lambda>_. False) 5
      (serverMasterKey sample_server) (edb (ends sample_service)) (req sample_http) (nonces sample_service)) \<noteq> Inr sc" for sc
  proof -
    have "(case fst (AuthenticateAPIKey (srv_crypto sample_server) (srv_kv sample_server) (\<lambda>_. False) 5
      (serverMasterKey sample_server) (edb (ends sample_service)) (req sample_http) (nonces sample_service)) of
      Inl _ \<Rightarrow> True | Inr _ \<Rightarrow> False)" by code_simp
    then show ?thesis by (auto split: sum.splits)
  qed
  have jwt: "Authenticate (srv_jwt_parse sample_server) (jwtSecret sample_server) (Authorization sample_http)
      = Inr \<lparr>CAppID = ''7'', CConferenceID = ''c'', CUserID = ''u''\<rparr>" by code_simp
  show ?thesis
    using queued_payload_provenance [OF e, where ft = "\<lambda>_. False" and now = 5 and r = sample_http and s = sample_service
        and rep = "fst ?r" and s' = "snd ?r"] changed jwt no_key
    by (auto simp: sample_service_def)
qed


definition two_conferences :: end_state where
  "two_conferences = \<lparr>edb = empty_db\<lparr>conferences :=
     [\<lparr>conf_id = 1, conf_app_id = 7, conf_external_id = ''daily'', conf_started_at = 0, conf_ended_at = None, conf_participant_count = 0\<rparr>,
      \<lparr>conf_id = 2, conf_app_id = 8, conf_external_id = ''daily'', conf_started_at = 0, conf_ended_at = None, conf_participant_count = 0\<rparr>]\<rparr>,
     emosCh = [], analytics_keys = [''overview:7:x'']\<rparr>"

definition claims_of :: "string \<Rightarrow> Claims" where
  "claims_of app = \<lparr>CAppID = app, CConferenceID = ''daily'', CUserID = ''u''\<rparr>"


text \<open>Conference ids are unique per application only, but the lookup ignores the application:
  when two applications use the same id, the one whose conference is found second is refused with
  403 although it owns a conference of that name, which therefore cannot be ended.\<close>
theorem end_conference_other_app:
  "status (fst (HandleEndConference (\<lambda>_. False) 9000 (Some (claims_of ''8'')) None ''daily'' two_conferences)) = 403
 \<and> (\<exists>c \<in> set (conferences (edb two_conferences)). conf_app_id c = 8 \<and> conf_external_id c = ''daily'')"
  by code_simp

end
