(* ===== verification/Stale.thy ===== *)
theory Stale
  imports Ingest_API
begin

text \<open>
  The stale-conference job, \<^verbatim>\<open>internal/stale/job.go\<close>: one pass finds the open
  conferences without recent statistics, closes each with a guarded update and triggers the eMOS
  computation for those it closed.  \<open>clk 0\<close> is the server's clock at the query and
  \<open>clk (Suc i)\<close> at the \<open>i\<close>-th update.  The trigger is the bounded channel of
  \<^verbatim>\<open>main.go\<close> (\<open>emosTrigger\<close> of theory \<open>Ingest_API\<close>).
\<close>

text \<open>\<open>time.Duration\<close> values become intervals with microsecond resolution.\<close>

definition pg_interval :: "int \<Rightarrow> int" where
  "pg_interval dur = quot dur 1000 * 1000"

definition recent_stats :: "database \<Rightarrow> int \<Rightarrow> instant \<Rightarrow> bool" where
  "recent_stats d conf since \<longleftrightarrow>
     (\<exists>p \<in> set (participants d). part_conference_id p = conf
      \<and> (\<exists>s \<in> set (sessions d). sess_participant_id s = part_id p
      \<and> (\<exists>conn \<in> set (connections d). conn_session_id conn = sess_id s
      \<and> (\<exists>cs \<in> set (connection_stats d). cs_connection_id cs = conn_id conn \<and> cs_ts cs > since))))"

definition is_stale :: "instant \<Rightarrow> int \<Rightarrow> database \<Rightarrow> conference_row \<Rightarrow> bool" where
  "is_stale now idleThreshold d c \<longleftrightarrow>
     conf_ended_at c = None \<and> \<not> recent_stats d (conf_id c) (pg_time now - pg_interval idleThreshold)"

fun close_loop :: "faults \<Rightarrow> (nat \<Rightarrow> instant) \<Rightarrow> nat \<Rightarrow> int list \<Rightarrow> end_state \<Rightarrow> string option \<times> end_state" where
  "close_loop ft clk i [] s = (None, s)"
| "close_loop ft clk i (confID # ids) s =
     (if ft (''stale job: update ended_at: '' @ FormatInt confID) then (Some ''stale job: update ended_at'', s)
      else let confs = conferences (edb s);
               n = length (filter (\<lambda>c. conf_id c = confID \<and> conf_ended_at c = None) confs);
               s1 = s\<lparr>edb := (edb s)\<lparr>conferences := end_update (clk (Suc i)) confID confs\<rparr>\<rparr> in
           close_loop ft clk (Suc i) ids (if n = 0 then s1 else s1\<lparr>emosCh := emosTrigger confID (emosCh s1)\<rparr>))"

definition RunOnce :: "faults \<Rightarrow> (nat \<Rightarrow> instant) \<Rightarrow> int \<Rightarrow> end_state \<Rightarrow> string option \<times> end_state" where
  "RunOnce ft clk idleThreshold s =
     (if ft ''stale job: scan failed'' then (Some ''stale job: scan failed'', s)
      else close_loop ft clk 0 (map conf_id (filter (is_stale (clk 0) idleThreshold (edb s)) (conferences (edb s)))) s)"

text \<open>Closing a list of open conferences.\<close>

definition closed_at :: "(int \<Rightarrow> instant) \<Rightarrow> int set \<Rightarrow> conference_row list \<Rightarrow> conference_row list" where
  "closed_at \<tau> ids = map (\<lambda>c. if conf_id c \<in> ids then c\<lparr>conf_ended_at := Some (\<tau> (conf_id c))\<rparr> else c)"

lemma take_emosTrigger: "length q \<le> 256 \<Longrightarrow> take 256 (emosTrigger x q @ xs) = take 256 (q @ x # xs) \<and> length (emosTrigger x q) \<le> 256"
  by (auto simp: emosTrigger_def take_Cons')

lemma close_loop_open:
  assumes "\<forall>l. \<not> ft l" and "distinct (map conf_id (conferences (edb s)))" and "distinct ids" and "length (emosCh s) \<le> 256"
    and "\<forall>x \<in> set ids. \<exists>c \<in> set (conferences (edb s)). conf_id c = x \<and> conf_ended_at c = None"
  shows "\<exists>\<tau>. (\<forall>x \<in> set ids. \<exists>k \<ge> i. \<tau> x = pg_time (clk (Suc k)))
     \<and> close_loop ft clk i ids s = (None, s\<lparr>edb := (edb s)\<lparr>conferences := closed_at \<tau> (set ids) (conferences (edb s))\<rparr>,
           emosCh := take 256 (emosCh s @ ids)\<rparr>)"
  using assms(2-)
proof (induction ids arbitrary: i s)
  case Nil
  then show ?case by (simp add: closed_at_def)
next
  case (Cons x ids)
  let ?confs = "conferences (edb s)"
  define confs where "confs = end_update (clk (Suc i)) x ?confs"
  define s1 where "s1 = s\<lparr>edb := (edb s)\<lparr>conferences := confs\<rparr>, emosCh := emosTrigger x (emosCh s)\<rparr>"
  have open_x: "conf_ended_at c = None" if "c \<in> set ?confs" "conf_id c = x" for c
    using that Cons.prems(1,4) by (auto simp: distinct_map dest: inj_onD)
  have confs: "confs = closed_at (\<lambda>_. pg_time (clk (Suc i))) {x} ?confs"
    using open_x by (auto simp: confs_def end_update_def closed_at_def)
  have n: "length (filter (\<lambda>c. conf_id c = x \<and> conf_ended_at c = None) ?confs) \<noteq> 0"
    using Cons.prems(4) by (auto simp: filter_empty_conv)
  have run: "close_loop ft clk i (x # ids) s = close_loop ft clk (Suc i) ids s1"
    using assms(1) n by (simp add: Let_def s1_def confs_def)
  have ids1: "map conf_id confs = map conf_id ?confs" by (simp add: confs_def end_update_def)
  have still: "\<forall>y \<in> set ids. \<exists>c \<in> set (conferences (edb s1)). conf_id c = y \<and> conf_ended_at c = None"
  proof
    fix y assume y: "y \<in> set ids"
    then obtain c where "c \<in> set ?confs" "conf_id c = y" "conf_ended_at c = None" using Cons.prems(4) by auto
    moreover have "y \<noteq> x" using y Cons.prems(2) by auto
    ultimately show "\<exists>c \<in> set (conferences (edb s1)). conf_id c = y \<and> conf_ended_at c = None"
      by (auto simp: s1_def confs_def end_update_def intro!: bexI [of _ c])
  qed
  have "\<exists>\<tau>. (\<forall>y \<in> set ids. \<exists>k \<ge> Suc i. \<tau> y = pg_time (clk (Suc k)))
     \<and> close_loop ft clk (Suc i) ids s1 = (None, s1\<lparr>edb := (edb s1)\<lparr>conferences := closed_at \<tau> (set ids) (conferences (edb s1))\<rparr>,
           emosCh := take 256 (emosCh s1 @ ids)\<rparr>)"
    by (rule Cons.IH) (use Cons.prems ids1 still take_emosTrigger [of "emosCh s" x] in \<open>simp_all add: s1_def\<close>)
  then obtain \<tau> where \<tau>: "\<forall>y \<in> set ids. \<exists>k \<ge> Suc i. \<tau> y = pg_time (clk (Suc k))"
    "close_loop ft clk (Suc i) ids s1 = (None, s1\<lparr>edb := (edb s1)\<lparr>conferences := closed_at \<tau> (set ids) (conferences (edb s1))\<rparr>,
           emosCh := take 256 (emosCh s1 @ ids)\<rparr>)" by blast
  have "x \<notin> set ids" using Cons.prems(2) by simp
  then have "closed_at \<tau> (set ids) confs = closed_at (\<tau>(x := pg_time (clk (Suc i)))) (set (x # ids)) ?confs"
    unfolding confs by (auto simp: closed_at_def)
  moreover have "take 256 (emosTrigger x (emosCh s) @ ids) = take 256 (emosCh s @ x # ids)"
    using take_emosTrigger [of "emosCh s" x ids] Cons.prems(3) by blast
  ultimately have "close_loop ft clk i (x # ids) s = (None, s\<lparr>edb := (edb s)\<lparr>conferences :=
      closed_at (\<tau>(x := pg_time (clk (Suc i)))) (set (x # ids)) ?confs\<rparr>, emosCh := take 256 (emosCh s @ x # ids)\<rparr>)"
    using run \<tau>(2) by (simp add: s1_def)
  moreover have "\<forall>y \<in> set (x # ids). \<exists>k \<ge> i. (\<tau>(x := pg_time (clk (Suc i)))) y = pg_time (clk (Suc k))"
    using \<tau>(1) by (auto intro: Suc_leD)
  ultimately show ?case by blast
qed

text \<open>Sample data for the witness: two open conferences, the first with a recent sample.\<close>

definition stale_state :: end_state where
  "stale_state = \<lparr>edb = empty_db\<lparr>
     apps := [\<lparr>app_id = 7, app_org_id = 1, retention_days = 30, observation_config = None, server_api_key = None, server_api_secret_enc = None, app_name = [], app_api_key_hash = [], app_created_at = 0, app_server_key_created_at = None\<rparr>],
     conferences := [\<lparr>conf_id = 1, conf_app_id = 7, conf_external_id = ''a'', conf_started_at = 0, conf_ended_at = None, conf_participant_count = 0\<rparr>,
                     \<lparr>conf_id = 2, conf_app_id = 7, conf_external_id = ''b'', conf_started_at = 0, conf_ended_at = None, conf_participant_count = 0\<rparr>],
     participants := [\<lparr>part_id = 1, part_conference_id = 1, part_user_id = ''u'', part_joined_at = 0, part_display_name = [], part_left_at = None\<rparr>],
     sessions := [\<lparr>sess_id = 1, sess_participant_id = 1, sess_external_id = ''s'', sess_browser = [], sess_os = [], sess_country = [], sess_city = [], sess_network_type = []\<rparr>],
     connections := [\<lparr>conn_id = 1, conn_session_id = 1, conn_external_id = ''n'', conn_started_at = 0, conn_peer_id = [], conn_ended_at = None, conn_ice_state = [], conn_codec_audio = [], conn_codec_video = []\<rparr>],
     connection_stats := [\<lparr>cs_connection_id = 1, cs_ts = 4000, cs_source = ''client'', cs_packets_lost_rate = 0, cs_jitter_ms = 0, cs_rtt_ms = 0,
       cs_bitrate_in_kbps = 0, cs_bitrate_out_kbps = 0, cs_ewma_packets_lost_rate = 0, cs_ewma_jitter_ms = 0, cs_ewma_rtt_ms = 0,
       cs_ewma_bitrate_in_kbps = 0, cs_ewma_bitrate_out_kbps = 0, cs_fps = 0, cs_frame_width = 0, cs_frame_height = 0,
       cs_audio_level = 0, cs_concealment_ratio = 0\<rparr>],
     next_conf := 3, next_part := 2, next_sess := 2, next_conn := 2\<rparr>,
     emosCh = [], analytics_keys = []\<rparr>"

text \<open>(C27) A pass of the stale job without faults closes exactly the open conferences that have no
  statistics newer than the idle threshold, each at the time of its update; nothing else in the
  database changes.  The conferences it closed are queued for the eMOS computation in order, but
  only as far as the channel of 256 has room: the rest is dropped, and as these conferences are
  closed now, no later pass will queue them.\<close>
theorem stale_pass:
  assumes "\<forall>l. \<not> ft l" and "db_ok (edb s)" and "length (emosCh s) \<le> 256"
    and "RunOnce ft clk idleThreshold s = (err, s')"
  defines "stale \<equiv> filter (is_stale (clk 0) idleThreshold (edb s)) (conferences (edb s))"
  shows "err = None
   \<and> (\<exists>\<tau>. (\<forall>c \<in> set stale. \<exists>k. \<tau> (conf_id c) = pg_time (clk (Suc k)))
        \<and> s' = s\<lparr>edb := (edb s)\<lparr>conferences := map (\<lambda>c. if c \<in> set stale then c\<lparr>conf_ended_at := Some (\<tau> (conf_id c))\<rparr> else c)
                                           (conferences (edb s))\<rparr>,
                 emosCh := take 256 (emosCh s @ map conf_id stale)\<rparr>)
   \<and> (\<forall>c \<in> set (conferences (edb s')). conf_id c \<in> conf_id ` set stale \<longrightarrow> \<not> is_stale now' idle' (edb s') c)"
proof -
  have d: "distinct (map conf_id (conferences (edb s)))" using assms(2) by (simp add: db_ok_def table_ok_def)
  have "\<forall>x \<in> set (map conf_id stale). \<exists>c \<in> set (conferences (edb s)). conf_id c = x \<and> conf_ended_at c = None"
    by (auto simp: stale_def is_stale_def)
  from close_loop_open [OF assms(1) d _ assms(3) this, of 0 clk] obtain \<tau>
    where \<tau>: "\<forall>x \<in> set (map conf_id stale). \<exists>k \<ge> 0. \<tau> x = pg_time (clk (Suc k))"
      "close_loop ft clk 0 (map conf_id stale) s = (None, s\<lparr>edb := (edb s)\<lparr>conferences := closed_at \<tau> (set (map conf_id stale)) (conferences (edb s))\<rparr>,
           emosCh := take 256 (emosCh s @ map conf_id stale)\<rparr>)"
    using d by (auto simp: stale_def distinct_map_filter)
  have mem: "conf_id c \<in> set (map conf_id stale) \<longleftrightarrow> c \<in> set stale" if "c \<in> set (conferences (edb s))" for c
    using d that by (auto simp: stale_def distinct_map dest: inj_onD)
  have confs: "closed_at \<tau> (set (map conf_id stale)) (conferences (edb s))
      = map (\<lambda>c. if c \<in> set stale then c\<lparr>conf_ended_at := Some (\<tau> (conf_id c))\<rparr> else c) (conferences (edb s))"
    unfolding closed_at_def using mem by (intro map_cong) auto
  have run: "RunOnce ft clk idleThreshold s = close_loop ft clk 0 (map conf_id stale) s"
    using assms(1) by (simp add: RunOnce_def stale_def)
  have s': "err = None" "s' = s\<lparr>edb := (edb s)\<lparr>conferences := map (\<lambda>c. if c \<in> set stale then c\<lparr>conf_ended_at := Some (\<tau> (conf_id c))\<rparr> else c)
        (conferences (edb s))\<rparr>, emosCh := take 256 (emosCh s @ map conf_id stale)\<rparr>"
    using assms(4) run \<tau>(2) confs by auto
  have "\<not> is_stale now' idle' (edb s') c" if c: "c \<in> set (conferences (edb s'))" "conf_id c \<in> conf_id ` set stale" for c
  proof -
    obtain c0 where "c0 \<in> set (conferences (edb s))"
      "c = (if c0 \<in> set stale then c0\<lparr>conf_ended_at := Some (\<tau> (conf_id c0))\<rparr> else c0)"
      using c(1) s'(2) by auto
    then show ?thesis using c(2) mem [of c0] by (auto simp: is_stale_def split: if_splits)
  qed
  then show ?thesis using s' \<tau>(1) by auto
qed

theorem stale_pass_witness:
  "emosCh (snd (RunOnce (\<lambda>_. False) (\<lambda>_. 5000) 900000000000 stale_state)) = [2]
 \<and> fst (RunOnce (\<lambda>_. False) (\<lambda>_. 5000) 900000000000 stale_state) = None"
proof -
  let ?r = "RunOnce (\<lambda>_. False) (\<lambda>_. 5000) 900000000000 stale_state"
  have ok: "db_ok (edb stale_state)" by (simp add: stale_state_def db_ok_def empty_db_def table_ok_def)
  have one: "map conf_id (filter (is_stale 5000 900000000000 (edb stale_state)) (conferences (edb stale_state))) = [2]" by code_simp
  have q: "emosCh stale_state = []" by (simp add: stale_state_def)
  show ?thesis
    using stale_pass [where ft = "\<lambda>_. False" and clk = "\<lambda>_. 5000" and s = stale_state and idleThreshold = 900000000000
        and err = "fst ?r" and s' = "snd ?r" and now' = 0 and idle' = 0] ok one q by auto
qed

end
