(* ===== verification/GoTime.thy ===== *)
theory GoTime
  imports Model
begin

text \<open>
  The calendar of Go's package \<open>time\<close>, in UTC: \<open>Date\<close>, the accessors
  \<open>Year\<close>, \<open>Month\<close>, \<open>Day\<close>, and \<open>AddDate\<close> by days.  An instant is a
  number of nanoseconds since the Unix epoch; the calendar is the proleptic Gregorian one, and years
  are taken small enough for the seconds to fit 64 bits.

  The year of a day is found by a guess from the mean length of a year, which is off by one at most
  (\<open>year_of_day\<close>).
\<close>

definition day_ns :: int where
  "day_ns = 86400 * 1000000000"

definition is_leap :: "int \<Rightarrow> bool" where
  "is_leap y \<longleftrightarrow> y mod 4 = 0 \<and> (y mod 100 \<noteq> 0 \<or> y mod 400 = 0)"

text \<open>Days from the epoch to the first of January, and from there to the first of a month.\<close>

definition year_start :: "int \<Rightarrow> int" where
  "year_start y = 365 * (y - 1970) + ((y - 1) div 4 - (y - 1) div 100 + (y - 1) div 400) - 477"

definition month_start :: "int \<Rightarrow> int \<Rightarrow> int" where
  "month_start y m =
     (if m \<le> 1 then 0 else if m = 2 then 31
      else (if is_leap y then 1 else 0)
         + (if m = 3 then 59 else if m = 4 then 90 else if m = 5 then 120 else if m = 6 then 151
            else if m = 7 then 181 else if m = 8 then 212 else if m = 9 then 243 else if m = 10 then 273
            else if m = 11 then 304 else if m = 12 then 334 else 365))"

text \<open>\<open>time.Date\<close> accepts a month out of range and carries it into the year.\<close>

definition civil_day :: "int \<Rightarrow> int \<Rightarrow> int \<Rightarrow> int" where
  "civil_day y m d =
     (let y' = y + (m - 1) div 12; m' = (m - 1) mod 12 + 1 in year_start y' + month_start y' m' + (d - 1))"

definition Date :: "int \<Rightarrow> int \<Rightarrow> int \<Rightarrow> int \<Rightarrow> int \<Rightarrow> int \<Rightarrow> int \<Rightarrow> instant" where
  "Date y m d hour minute sec nsec =
     civil_day y m d * day_ns + ((hour * 60 + minute) * 60 + sec) * 1000000000 + nsec"

definition year_of_day :: "int \<Rightarrow> int" where
  "year_of_day n =
     (let g = 1970 + n * 400 div 146097 in
      if n < year_start g then g - 1 else if year_start (g + 1) \<le> n then g + 1 else g)"

definition month_of_day :: "int \<Rightarrow> int" where
  "month_of_day n =
     (let y = year_of_day n; k = n - year_start y in
      if k < month_start y 2 then 1 else if k < month_start y 3 then 2 else if k < month_start y 4 then 3
      else if k < month_start y 5 then 4 else if k < month_start y 6 then 5 else if k < month_start y 7 then 6
      else if k < month_start y 8 then 7 else if k < month_start y 9 then 8 else if k < month_start y 10 then 9
      else if k < month_start y 11 then 10 else if k < month_start y 12 then 11 else 12)"

definition Year :: "instant \<Rightarrow> int" where
  "Year t = year_of_day (t div day_ns)"

definition Month :: "instant \<Rightarrow> int" where
  "Month t = month_of_day (t div day_ns)"

definition Day :: "instant \<Rightarrow> int" where
  "Day t = t div day_ns - year_start (Year t) - month_start (Year t) (Month t) + 1"

text \<open>\<open>t.AddDate(0, 0, days)\<close>.\<close>

definition AddDays :: "instant \<Rightarrow> int \<Rightarrow> instant" where
  "AddDays t days = Date (Year t) (Month t) (Day t + days) 0 0 0 (t mod day_ns)"

subsection \<open>The calendar is sound\<close>

lemma div_bounds: "0 < (k::int) \<Longrightarrow> k * (a div k) \<le> a" "0 < (k::int) \<Longrightarrow> a < k * (a div k) + k"
  using mult_div_mod_eq [of k a] pos_mod_sign [of k a] pos_mod_bound [of k a] by linarith+

lemma div_pred:
  assumes "0 < (k::int)"
  shows "(y - 1) div k = y div k - (if y mod k = 0 then 1 else 0)"
proof (cases "y mod k = 0")
  case True
  then have "y - 1 = k * (y div k - 1) + (k - 1)" using mult_div_mod_eq [of k y] by (simp add: algebra_simps)
  then have "(y - 1) div k = y div k - 1" by (rule int_div_pos_eq) (use assms in simp_all)
  with True show ?thesis by simp
next
  case False
  have r: "0 \<le> y mod k" "y mod k < k" using assms by simp_all
  have "y - 1 = k * (y div k) + (y mod k - 1)" using mult_div_mod_eq [of k y] by simp
  then have "(y - 1) div k = y div k" by (rule int_div_pos_eq) (use r False in linarith)+
  with False show ?thesis by simp
qed

lemma year_length: "year_start (y + 1) = year_start y + (if is_leap y then 366 else 365)"
proof -
  have "y mod 100 = 0 \<longrightarrow> y mod 4 = 0" using mod_mod_cancel [of 4 100 y] by auto
  moreover have "y mod 400 = 0 \<longrightarrow> y mod 100 = 0" using mod_mod_cancel [of 100 400 y] by auto
  moreover have "year_start (y + 1) = year_start y + 365
      + ((if y mod 4 = 0 then 1 else 0) - (if y mod 100 = 0 then 1 else 0) + (if y mod 400 = 0 then 1 else 0))"
    unfolding year_start_def div_pred [of 4 y, simplified] div_pred [of 100 y, simplified] div_pred [of 400 y, simplified]
    by (simp only: add_diff_cancel_right' right_diff_distrib distrib_left)
  ultimately show ?thesis by (cases "y mod 4 = 0"; cases "y mod 100 = 0"; cases "y mod 400 = 0") (simp_all add: is_leap_def)
qed

text \<open>A year starts within two days of its mean position.\<close>

lemma year_start_mean:
  "400 * year_start y \<le> 146097 * (y - 1970) + 800" (is ?upper)
  "146097 * (y - 1970) - 800 \<le> 400 * year_start y" (is ?lower)
proof -
  have b: "4 * ((y - 1) div 4) \<le> y - 1" "y - 1 < 4 * ((y - 1) div 4) + 4"
    "100 * ((y - 1) div 100) \<le> y - 1" "y - 1 < 100 * ((y - 1) div 100) + 100"
    "400 * ((y - 1) div 400) \<le> y - 1" "y - 1 < 400 * ((y - 1) div 400) + 400"
    by (rule div_bounds, simp)+
  show ?upper unfolding year_start_def using b by (simp add: algebra_simps)
  show ?lower unfolding year_start_def using b by (simp add: algebra_simps)
qed

lemma year_of_day: "year_start (year_of_day n) \<le> n \<and> n < year_start (year_of_day n + 1)"
proof -
  define g where "g = 1970 + n * 400 div 146097"
  have g: "146097 * (g - 1970) \<le> n * 400" "n * 400 < 146097 * (g - 1970) + 146097"
    using div_bounds [of 146097 "n * 400"] by (simp_all add: g_def)
  have lo: "year_start (g - 1) \<le> n" using g year_start_mean(1) [of "g - 1"] by (simp add: right_diff_distrib)
  have hi: "n < year_start (g + 2)" using g year_start_mean(2) [of "g + 2"] by (simp add: right_diff_distrib distrib_left)
  have "year_of_day n = (if n < year_start g then g - 1 else if year_start (g + 1) \<le> n then g + 1 else g)"
    by (simp add: year_of_day_def g_def Let_def)
  then show ?thesis using lo hi by (auto simp: add.commute)
qed

lemma year_start_mono: "y \<le> z \<Longrightarrow> year_start y \<le> year_start z"
proof (induction z rule: int_ge_induct)
  case (step i)
  then show ?case using year_length [of i] by (simp split: if_splits)
qed simp

lemma month_of_day:
  fixes n
  defines "y \<equiv> year_of_day n" and "m \<equiv> month_of_day n"
  shows "1 \<le> m" "m \<le> 12" "year_start y + month_start y m \<le> n" "n < year_start y + month_start y (m + 1)"
proof -
  have y: "year_start y \<le> n" "n < year_start y + (if is_leap y then 366 else 365)"
    using year_of_day [of n] year_length [of y] by (simp_all add: y_def)
  have m: "m = (let k = n - year_start y in
      if k < month_start y 2 then 1 else if k < month_start y 3 then 2 else if k < month_start y 4 then 3
      else if k < month_start y 5 then 4 else if k < month_start y 6 then 5 else if k < month_start y 7 then 6
      else if k < month_start y 8 then 7 else if k < month_start y 9 then 8 else if k < month_start y 10 then 9
      else if k < month_start y 11 then 10 else if k < month_start y 12 then 11 else 12)"
    by (simp add: m_def y_def month_of_day_def Let_def)
  show "1 \<le> m" "m \<le> 12" by (simp_all add: m Let_def)
  show "year_start y + month_start y m \<le> n" using y(1) by (simp add: m Let_def month_start_def)
  show "n < year_start y + month_start y (m + 1)"
    using y(2) by (cases "is_leap y") (simp_all add: m Let_def month_start_def)
qed

text \<open>Months counted through the years: \<open>month_day k\<close> is the first day of month
  \<open>k mod 12 + 1\<close> of year \<open>k div 12\<close>.\<close>

definition month_day :: "int \<Rightarrow> int" where
  "month_day k = year_start (k div 12) + month_start (k div 12) (k mod 12 + 1)"

lemma civil_day_month: "civil_day y m d = month_day (12 * y + (m - 1)) + (d - 1)"
  by (simp add: civil_day_def month_day_def Let_def)

lemma month_start_less:
  assumes "1 \<le> m" and "m \<le> 12"
  shows "month_start y m < month_start y (m + 1)"
proof -
  have "m = 1 \<or> m = 2 \<or> m = 3 \<or> m = 4 \<or> m = 5 \<or> m = 6 \<or> m = 7 \<or> m = 8 \<or> m = 9 \<or> m = 10 \<or> m = 11 \<or> m = 12"
    using assms by presburger
  then show ?thesis by (auto simp: month_start_def)
qed

lemma month_day_cycle:
  assumes "0 \<le> r" and "r < 12"
  shows "month_day (12 * y + r) = year_start y + month_start y (r + 1)"
proof -
  have "(12 * y + r) div 12 = y" by (rule int_div_pos_eq [of _ _ _ r]) (use assms in simp_all)
  moreover have "(12 * y + r) mod 12 = r" using assms by simp
  ultimately show ?thesis by (simp add: month_day_def)
qed

lemma month_day_step: "month_day k < month_day (k + 1)"
proof -
  obtain y r where k: "k = 12 * y + r" "0 \<le> r" "r < 12"
    using mult_div_mod_eq [of 12 k] pos_mod_sign [of 12 k] pos_mod_bound [of 12 k] that [of "k div 12" "k mod 12"] by simp
  show ?thesis
  proof (cases "r = 11")
    case True
    have "month_day (k + 1) = month_day (12 * (y + 1) + 0)" using k(1) True by (simp add: algebra_simps)
    then show ?thesis
      using month_day_cycle [of 0 "y + 1"] month_day_cycle [of r y] k True year_length [of y] by (simp add: month_start_def)
  next
    case False
    have "k + 1 = 12 * y + (r + 1)" using k(1) by simp
    then show ?thesis
      using month_day_cycle [of "r + 1" y] month_day_cycle [of r y] month_start_less [of "r + 1" y] k False by (simp add: add.assoc)
  qed
qed

lemma month_day_less: "j < k \<Longrightarrow> month_day j < month_day k"
proof (induction k rule: int_gr_induct)
  case base
  show ?case by (rule month_day_step)
next
  case (step i)
  then show ?case using month_day_step [of i] by simp
qed

lemma month_day_less_iff [simp]: "month_day j < month_day k \<longleftrightarrow> j < k"
  using month_day_less [of j k] month_day_less [of k j] by (cases j k rule: linorder_cases) auto

lemma month_day_le_iff [simp]: "month_day j \<le> month_day k \<longleftrightarrow> j \<le> k"
  using month_day_less_iff [of k j] by linarith

lemma month_day_13: "month_start y 13 = (if is_leap y then 366 else 365)"
  by (simp add: month_start_def)

lemma day_in_month:
  defines "k \<equiv> \<lambda>n. 12 * year_of_day n + (month_of_day n - 1)"
  shows "month_day (k n) \<le> n" "n < month_day (k n + 1)"
proof -
  let ?y = "year_of_day n" and ?m = "month_of_day n"
  have m: "1 \<le> ?m" "?m \<le> 12" "year_start ?y + month_start ?y ?m \<le> n" "n < year_start ?y + month_start ?y (?m + 1)"
    using month_of_day [of n] by simp_all
  show "month_day (k n) \<le> n" using m month_day_cycle [of "?m - 1" ?y] by (simp add: k_def)
  show "n < month_day (k n + 1)"
  proof (cases "?m = 12")
    case True
    then have "k n + 1 = 12 * (?y + 1) + 0" by (simp add: k_def)
    then have "month_day (k n + 1) = year_start (?y + 1) + month_start (?y + 1) (0 + 1)" by (simp only: month_day_cycle)
    with m(4) True show ?thesis
      by (cases "is_leap ?y") (simp_all add: year_length month_start_def)
  next
    case False
    then have "k n + 1 = 12 * ?y + ?m" by (simp add: k_def)
    then show ?thesis using m False month_day_cycle [of ?m ?y] by simp
  qed
qed

lemma civil_day_of: "civil_day (year_of_day n) (month_of_day n) (n - year_start (year_of_day n)
    - month_start (year_of_day n) (month_of_day n) + 1 + d) = n + d"
  using month_of_day(1,2) [of n] by (simp add: civil_day_def Let_def)

lemma Date_of_day: "Date (Year t) (Month t) (Day t) h m s ns = t div day_ns * day_ns + ((h * 60 + m) * 60 + s) * 1000000000 + ns"
  using civil_day_of [of "t div day_ns" 0] by (simp add: Date_def Year_def Month_def Day_def)

lemma AddDays_eq [simp]: "AddDays t n = t + n * day_ns"
proof -
  have "civil_day (Year t) (Month t) (Day t + n) = t div day_ns + n"
    using civil_day_of [of "t div day_ns" n] by (simp add: Year_def Month_def Day_def)
  then show ?thesis using mult_div_mod_eq [of day_ns t] by (simp add: AddDays_def Date_def algebra_simps)
qed

text \<open>The first of the month of an instant, and of the next month.\<close>

definition month_index :: "instant \<Rightarrow> int" where
  "month_index t = 12 * Year t + (Month t - 1)"

lemma Date_first: "Date y m 1 0 0 0 0 = month_day (12 * y + (m - 1)) * day_ns"
  by (simp add: Date_def civil_day_month)

lemma Date_month_of: "Date (Year t) (Month t) 1 0 0 0 0 = month_day (month_index t) * day_ns"
  by (simp add: Date_first month_index_def)

lemma instant_in_month: "month_day (month_index t) * day_ns \<le> t" "t < month_day (month_index t + 1) * day_ns"
proof -
  have d: "0 < day_ns" by (simp add: day_ns_def)
  have n: "month_day (month_index t) \<le> t div day_ns" "t div day_ns < month_day (month_index t + 1)"
    using day_in_month [of "t div day_ns"] by (simp_all add: month_index_def Year_def Month_def)
  have t: "day_ns * (t div day_ns) \<le> t" "t < day_ns * (t div day_ns) + day_ns" using d by (rule div_bounds)+
  have "month_day (month_index t) * day_ns \<le> t div day_ns * day_ns" using n(1) d by (intro mult_right_mono) simp_all
  then show "month_day (month_index t) * day_ns \<le> t" using t by (simp only: mult.commute)
  have "(t div day_ns + 1) * day_ns \<le> month_day (month_index t + 1) * day_ns" using n(2) d by (intro mult_right_mono) simp_all
  then have "t div day_ns * day_ns + day_ns \<le> month_day (month_index t + 1) * day_ns" by (simp only: distrib_right mult_1)
  then show "t < month_day (month_index t + 1) * day_ns" using t by (simp only: mult.commute)
qed

lemma month_index_first: "month_index (month_day k * day_ns) = k"
proof -
  have d: "0 < day_ns" by (simp add: day_ns_def)
  have "month_day (month_index (month_day k * day_ns)) \<le> month_day k" "month_day k < month_day (month_index (month_day k * day_ns) + 1)"
    using instant_in_month [of "month_day k * day_ns"] d by (simp_all del: month_day_le_iff month_day_less_iff)
  then show ?thesis by simp
qed

end
