(* ===== verification/Retention.thy ===== *)
theory Retention
  imports GoTime GoStd Database "HOL-Library.Char_ord" "HOL-Library.List_Lexorder"
begin

text \<open>
  The nightly clean-up, \<^verbatim>\<open>internal/retention/job.go\<close>: the schedule
  (\<open>parseDailyCron\<close>, \<open>nextRunTime\<close>), dropping whole monthly partitions of the
  statistics (\<open>dropOldPartitions\<close>) and deleting expired events application by application in
  batches (\<open>deleteOldEvents\<close>).

  \<open>RunOnce\<close> reads the clock once for the partitions and once per application; \<open>clk i\<close>
  is its \<open>i\<close>-th reading.  Detaching takes the rows of a partition out of
  \<open>connection_stats\<close>; the name is put into the statement without quotes, so only a plain
  identifier is accepted by the server.  Where a \<open>LIMIT\<close> leaves the choice of rows open the
  model takes them in table order.
\<close>

subsection \<open>Schedule\<close>

definition parseDailyCron :: "string \<Rightarrow> (int \<times> int) option" where
  "parseDailyCron cronStr =
     (case Fields cronStr of
        [f0, f1, f2, f3, f4] \<Rightarrow>
          (case Atoi f0 of
             None \<Rightarrow> None
           | Some minute \<Rightarrow>
               if minute < 0 \<or> minute > 59 then None
               else case Atoi f1 of
                 None \<Rightarrow> None
               | Some hour \<Rightarrow> if hour < 0 \<or> hour > 23 then None else Some (hour, minute))
      | _ \<Rightarrow> None)"

definition nextRunTime :: "int \<Rightarrow> int \<Rightarrow> instant \<Rightarrow> instant" where
  "nextRunTime hour minute from =
     (let next = Date (Year from) (Month from) (Day from) hour minute 0 0 in
      if \<not> next > from then next + 24 * 3600 * 1000000000 else next)"

subsection \<open>Partitions\<close>

definition parsePartitionMonth :: "string \<Rightarrow> instant option" where
  "parsePartitionMonth name =
     (let suffix = TrimPrefix name ''connection_stats_'' in
      if suffix = name then None
      else case Split (CHR ''_'') suffix of
        [p0, p1] \<Rightarrow>
          (case Atoi p0 of
             None \<Rightarrow> None
           | Some year \<Rightarrow>
               (case Atoi p1 of
                  None \<Rightarrow> None
                | Some month \<Rightarrow> if month < 1 \<or> month > 12 then None else Some (Date year month 1 0 0 0 0)))
      | _ \<Rightarrow> None)"

text \<open>The pattern \<^verbatim>\<open>connection_stats_%\<close>, in which an underscore stands for any character.\<close>

definition like_stats :: "string \<Rightarrow> bool" where
  "like_stats name \<longleftrightarrow> 17 \<le> length name \<and> take 10 name = ''connection'' \<and> take 5 (drop 11 name) = ''stats''"

definition stats_relations :: "database \<Rightarrow> string list" where
  "stats_relations d = sort (filter like_stats (map relname (partitions d @ detached d)))"

definition plain_ident :: "string \<Rightarrow> bool" where
  "plain_ident name \<longleftrightarrow> list_all (\<lambda>c. is_digit c \<or> c = CHR ''_'' \<or> (97 \<le> (of_char c :: nat) \<and> of_char c \<le> (122 :: nat))) name"

definition in_partition :: "partition_row \<Rightarrow> instant \<Rightarrow> bool" where
  "in_partition p t \<longleftrightarrow> range_from p \<le> t \<and> t < range_to p"

definition detach_partition :: "faults \<Rightarrow> string \<Rightarrow> database \<Rightarrow> database option" where
  "detach_partition ft name d =
     (if ft (''retention: detach partition failed, skipping: '' @ name) \<or> \<not> plain_ident name then None
      else case List.find (\<lambda>p. relname p = name) (partitions d) of
        None \<Rightarrow> None
      | Some p \<Rightarrow>
          Some (d\<lparr>partitions := filter (\<lambda>q. relname q \<noteq> name) (partitions d),
                  detached := detached d @ [p],
                  connection_stats := filter (\<lambda>r. \<not> in_partition p (cs_ts r)) (connection_stats d)\<rparr>))"

definition drop_table :: "string \<Rightarrow> database \<Rightarrow> database" where
  "drop_table name d = d\<lparr>detached := filter (\<lambda>q. relname q \<noteq> name) (detached d)\<rparr>"

fun drop_loop :: "faults \<Rightarrow> instant \<Rightarrow> string list \<Rightarrow> nat \<Rightarrow> database \<Rightarrow> (string + nat) \<times> database" where
  "drop_loop ft cutoffMonth [] dropped d = (Inr dropped, d)"
| "drop_loop ft cutoffMonth (name # names) dropped d =
     (case parsePartitionMonth name of
        None \<Rightarrow> drop_loop ft cutoffMonth names dropped d
      | Some partMonth \<Rightarrow>
          if \<not> partMonth < cutoffMonth then drop_loop ft cutoffMonth names dropped d
          else case detach_partition ft name d of
            None \<Rightarrow> drop_loop ft cutoffMonth names dropped d
          | Some d1 \<Rightarrow>
              if ft (''retention: drop partition '' @ name) then (Inl (''retention: drop partition '' @ name), d1)
              else drop_loop ft cutoffMonth names (dropped + 1) (drop_table name d1))"

definition dropOldPartitions :: "faults \<Rightarrow> instant \<Rightarrow> int \<Rightarrow> database \<Rightarrow> (string + nat) \<times> database" where
  "dropOldPartitions ft now minRetentionDays d =
     (let cutoff = AddDays now (- minRetentionDays);
          cutoffMonth = Date (Year cutoff) (Month cutoff) 1 0 0 0 0 in
      if ft ''retention: query partitions'' then (Inl ''retention: query partitions'', d)
      else drop_loop ft cutoffMonth (stats_relations d) 0 d)"

subsection \<open>Events\<close>

definition batchSize :: nat where
  "batchSize = 10000"

definition old_event :: "database \<Rightarrow> int \<Rightarrow> instant \<Rightarrow> event_row \<Rightarrow> bool" where
  "old_event d appID cutoff e \<longleftrightarrow>
     ev_ts e < cutoff
   \<and> (\<exists>c \<in> set (connections d). ev_connection_id e = Some (conn_id c)
      \<and> (\<exists>s \<in> set (sessions d). sess_id s = conn_session_id c
      \<and> (\<exists>p \<in> set (participants d). part_id p = sess_participant_id s
      \<and> (\<exists>cf \<in> set (conferences d). conf_id cf = part_conference_id p \<and> conf_app_id cf = appID))))"

definition delete_batch :: "int \<Rightarrow> instant \<Rightarrow> database \<Rightarrow> nat \<times> database" where
  "delete_batch appID cutoff d =
     (let ids = take batchSize (map ev_id (filter (old_event d appID cutoff) (events d)));
          rest = filter (\<lambda>e. ev_id e \<notin> set ids) (events d) in
      (length (events d) - length rest, d\<lparr>events := rest\<rparr>))"

lemma delete_batch_shrinks: "delete_batch appID cutoff d = (n, d') \<Longrightarrow> 0 < n \<Longrightarrow> length (events d') < length (events d)"
  by (auto simp: delete_batch_def Let_def)

function delete_loop :: "faults \<Rightarrow> int \<Rightarrow> instant \<Rightarrow> nat \<Rightarrow> nat \<Rightarrow> database \<Rightarrow> (string + nat \<times> nat) \<times> database" where
  "delete_loop ft appID cutoff totalDeleted batches d =
     (if ft (''retention: delete events for app '' @ FormatInt appID @ '': '' @ dec_nat batches)
      then (Inl (''retention: delete events for app '' @ FormatInt appID), d)
      else case delete_batch appID cutoff d of
        (n, d') \<Rightarrow> if n = 0 then (Inr (totalDeleted, batches), d')
                   else delete_loop ft appID cutoff (totalDeleted + n) (batches + 1) d')"
  by auto
termination
  by (relation "measure (\<lambda>(ft, appID, cutoff, totalDeleted, batches, d). length (events d))")
     (auto dest: delete_batch_shrinks [OF sym])

declare delete_loop.simps [simp del]

definition deleteOldEvents :: "faults \<Rightarrow> int \<Rightarrow> instant \<Rightarrow> database \<Rightarrow> (string + nat \<times> nat) \<times> database" where
  "deleteOldEvents ft appID cutoff d = delete_loop ft appID (pg_time cutoff) 0 0 d"

subsection \<open>One pass\<close>

definition minRetention :: "app_row list \<Rightarrow> int" where
  "minRetention as =
     foldl (\<lambda>m a. if retention_days a < m then retention_days a else m) (retention_days (hd as)) (tl as)"

fun delete_apps :: "faults \<Rightarrow> (nat \<Rightarrow> instant) \<Rightarrow> nat \<Rightarrow> app_row list \<Rightarrow> database \<Rightarrow> string option \<times> database" where
  "delete_apps ft clk i [] d = (None, d)"
| "delete_apps ft clk i (a # as) d =
     (case deleteOldEvents ft (app_id a) (AddDays (clk i) (- retention_days a)) d of
        (Inl e, d') \<Rightarrow> (Some e, d')
      | (Inr _, d') \<Rightarrow> delete_apps ft clk (Suc i) as d')"

definition RunOnce :: "faults \<Rightarrow> (nat \<Rightarrow> instant) \<Rightarrow> database \<Rightarrow> string option \<times> database" where
  "RunOnce ft clk d =
     (if ft ''retention: query apps'' then (Some ''retention: query apps'', d)
      else let as = filter (\<lambda>a. retention_days a > 0) (apps d) in
        if as = [] then (None, d)
        else case dropOldPartitions ft (clk 0) (minRetention as) d of
          (Inl e, d') \<Rightarrow> (Some e, d')
        | (Inr _, d') \<Rightarrow> delete_apps ft clk 1 as d')"

subsection \<open>What is dropped\<close>

lemma HasPrefix_split: "HasPrefix s p \<Longrightarrow> \<exists>t. s = p @ t"
  by (metis HasPrefix_def append_take_drop_id)

lemma parsePartitionMonth_Some:
  assumes "parsePartitionMonth name = Some t"
  shows "\<exists>k. t = month_day k * day_ns" "like_stats name"
proof -
  show "\<exists>k. t = month_day k * day_ns"
    using assms by (auto simp: parsePartitionMonth_def Let_def Date_first split: if_splits list.splits option.splits)
  have "TrimPrefix name ''connection_stats_'' \<noteq> name"
    using assms by (auto simp: parsePartitionMonth_def Let_def)
  then have "HasPrefix name ''connection_stats_''" by (auto simp: TrimPrefix_def split: if_splits)
  then show "like_stats name" by (auto simp: like_stats_def dest: HasPrefix_split)
qed

definition due :: "instant \<Rightarrow> partition_row \<Rightarrow> bool" where
  "due cutoffMonth p \<longleftrightarrow> (case parsePartitionMonth (relname p) of None \<Rightarrow> False | Some t \<Rightarrow> t < cutoffMonth)"

text \<open>Partition names are unique, and those that name a month are plain identifiers.\<close>

definition names_ok :: "database \<Rightarrow> bool" where
  "names_ok d \<longleftrightarrow> distinct (map relname (partitions d))
     \<and> (\<forall>p \<in> set (partitions d). parsePartitionMonth (relname p) \<noteq> None \<longrightarrow> plain_ident (relname p))"

definition without :: "(partition_row \<Rightarrow> bool) \<Rightarrow> database \<Rightarrow> database" where
  "without P d = d\<lparr>partitions := filter (\<lambda>p. \<not> P p) (partitions d),
     connection_stats := filter (\<lambda>r. \<not> (\<exists>p \<in> set (partitions d). P p \<and> in_partition p (cs_ts r))) (connection_stats d)\<rparr>"

lemma names_ok_find:
  assumes "names_ok d" and "p \<in> set (partitions d)"
  shows "List.find (\<lambda>q. relname q = relname p) (partitions d) = Some p"
  using assms find_unique [of relname "partitions d" p] by (simp add: names_ok_def)

lemma drop_loop_no_fault:
  assumes "\<forall>l. \<not> ft l" and "names_ok d"
  shows "\<exists>n det. drop_loop ft cutoffMonth names dropped d
     = (Inr n, (without (\<lambda>p. relname p \<in> set names \<and> due cutoffMonth p) d)\<lparr>detached := det\<rparr>)"
  using assms(2)
proof (induction names arbitrary: d dropped)
  case Nil
  show ?case by (auto simp: without_def intro!: exI [of _ "detached d"])
next
  case (Cons name names)
  let ?P = "\<lambda>names p. relname p \<in> set names \<and> due cutoffMonth p"
  show ?case
  proof (cases "\<exists>p \<in> set (partitions d). relname p = name \<and> due cutoffMonth p")
    case False
    then have same: "without (?P (name # names)) d = without (?P names) d"
      by (auto simp: without_def intro!: arg_cong2 [where f = "\<lambda>x y. d\<lparr>partitions := x, connection_stats := y\<rparr>"] filter_cong)
    have "drop_loop ft cutoffMonth (name # names) dropped d = drop_loop ft cutoffMonth names dropped d"
      using False by (auto simp: due_def detach_partition_def find_Some_iff split: option.splits dest!: find_SomeD)
    then show ?thesis using same Cons.IH [OF Cons.prems] by simp
  next
    case True
    then obtain p where p: "p \<in> set (partitions d)" "relname p = name" "due cutoffMonth p" by blast
    have ok: "plain_ident name" using p Cons.prems by (auto simp: names_ok_def due_def split: option.splits)
    define d1 where "d1 = d\<lparr>partitions := filter (\<lambda>q. relname q \<noteq> name) (partitions d), detached := detached d @ [p],
        connection_stats := filter (\<lambda>r. \<not> in_partition p (cs_ts r)) (connection_stats d)\<rparr>"
    have d1: "detach_partition ft name d = Some d1"
      using assms(1) ok names_ok_find [OF Cons.prems p(1)] p(2) by (simp add: detach_partition_def d1_def)
    have "names_ok (drop_table name d1)"
      using Cons.prems by (auto simp: names_ok_def drop_table_def d1_def distinct_map_filter)
    from Cons.IH [OF this, of "dropped + 1"] obtain n det
      where rec: "drop_loop ft cutoffMonth names (dropped + 1) (drop_table name d1)
        = (Inr n, (without (?P names) (drop_table name d1))\<lparr>detached := det\<rparr>)" by blast
    have uniq: "q = p" if "q \<in> set (partitions d)" "relname q = name" for q
      using that p(1,2) Cons.prems by (auto simp: names_ok_def distinct_map dest: inj_onD)
    have "(without (?P names) (drop_table name d1))\<lparr>detached := det\<rparr> = (without (?P (name # names)) d)\<lparr>detached := det\<rparr>"
    proof -
      have parts: "relname q \<noteq> name \<and> \<not> ?P names q \<longleftrightarrow> \<not> ?P (name # names) q" if "q \<in> set (partitions d)" for q
        using uniq [OF that] p by auto
      have stats: "\<not> in_partition p t \<and> \<not> (\<exists>q \<in> set (partitions d). relname q \<noteq> name \<and> ?P names q \<and> in_partition q t)
          \<longleftrightarrow> \<not> (\<exists>q \<in> set (partitions d). ?P (name # names) q \<and> in_partition q t)" for t
        using uniq p by (metis list.set_intros(1) set_ConsD list.set_intros(2))
      have "filter (\<lambda>q. relname q \<noteq> name \<and> \<not> ?P names q) (partitions d) = filter (\<lambda>q. \<not> ?P (name # names) q) (partitions d)"
        by (rule filter_cong) (use parts in auto)
      then show ?thesis using stats by (simp add: without_def drop_table_def d1_def Bex_def conj_assoc)
    qed
    moreover have "drop_loop ft cutoffMonth (name # names) dropped d = drop_loop ft cutoffMonth names (dropped + 1) (drop_table name d1)"
      using p(2,3) d1 assms(1) by (auto simp: due_def split: option.splits)
    ultimately show ?thesis using rec by auto
  qed
qed

text \<open>A partition that holds a whole month is due exactly when it ends before the cutoff.\<close>

definition whole_month :: "partition_row \<Rightarrow> bool" where
  "whole_month p \<longleftrightarrow> (case parsePartitionMonth (relname p) of
      None \<Rightarrow> True
    | Some t \<Rightarrow> range_from p = t \<and> range_to p = Date (Year t) (Month t + 1) 1 0 0 0 0)"

lemma due_iff:
  assumes "whole_month p"
  shows "due (Date (Year cutoff) (Month cutoff) 1 0 0 0 0) p \<longleftrightarrow> parsePartitionMonth (relname p) \<noteq> None \<and> range_to p \<le> cutoff"
proof (cases "parsePartitionMonth (relname p)")
  case None
  then show ?thesis by (simp add: due_def)
next
  case (Some t)
  obtain k where k: "t = month_day k * day_ns" using parsePartitionMonth_Some(1) [OF Some] by blast
  have d: "0 < day_ns" by (simp add: day_ns_def)
  have "Date (Year t) (Month t + 1) 1 0 0 0 0 = month_day (month_index t + 1) * day_ns"
    by (simp add: Date_first month_index_def)
  then have to: "range_to p = month_day (k + 1) * day_ns"
    using assms Some by (simp add: whole_month_def k month_index_first)
  have "range_to p \<le> cutoff \<longleftrightarrow> k + 1 \<le> month_index cutoff"
  proof
    assume "range_to p \<le> cutoff"
    then have "month_day (k + 1) * day_ns < month_day (month_index cutoff + 1) * day_ns"
      using instant_in_month(2) [of cutoff] to by linarith
    then show "k + 1 \<le> month_index cutoff" using d by simp
  next
    assume "k + 1 \<le> month_index cutoff"
    then have "month_day (k + 1) * day_ns \<le> month_day (month_index cutoff) * day_ns" using d by simp
    then show "range_to p \<le> cutoff" using instant_in_month(1) [of cutoff] to by linarith
  qed
  moreover have "due (Date (Year cutoff) (Month cutoff) 1 0 0 0 0) p \<longleftrightarrow> k < month_index cutoff"
    using Some d by (simp add: due_def Date_month_of k)
  ultimately show ?thesis using Some by auto
qed

lemma dropOldPartitions_exact:
  assumes "\<forall>l. \<not> ft l" and "names_ok d" and "\<forall>p \<in> set (partitions d). whole_month p"
  shows "\<exists>n det. dropOldPartitions ft now days d
     = (Inr n, (without (\<lambda>p. parsePartitionMonth (relname p) \<noteq> None \<and> range_to p \<le> now - days * day_ns) d)\<lparr>detached := det\<rparr>)"
proof -
  let ?cutoff = "now - days * day_ns"
  let ?m = "Date (Year ?cutoff) (Month ?cutoff) 1 0 0 0 0"
  have listed: "relname p \<in> set (stats_relations d) \<and> due ?m p \<longleftrightarrow> parsePartitionMonth (relname p) \<noteq> None \<and> range_to p \<le> ?cutoff"
    if "p \<in> set (partitions d)" for p
    using that assms(3) due_iff [of p ?cutoff] parsePartitionMonth_Some(2) [of "relname p"] by (auto simp: stats_relations_def)
  have "without (\<lambda>p. relname p \<in> set (stats_relations d) \<and> due ?m p) d
      = without (\<lambda>p. parsePartitionMonth (relname p) \<noteq> None \<and> range_to p \<le> ?cutoff) d"
    using listed by (simp add: without_def cong: filter_cong bex_cong)
  moreover have "dropOldPartitions ft now days d = drop_loop ft ?m (stats_relations d) 0 d"
    using assms(1) by (simp add: dropOldPartitions_def Let_def)
  ultimately show ?thesis using drop_loop_no_fault [OF assms(1,2), of ?m "stats_relations d" 0] by simp
qed

subsection \<open>Which events are deleted\<close>

lemma old_event_cong:
  "connections d' = connections d \<Longrightarrow> sessions d' = sessions d \<Longrightarrow> participants d' = participants d
   \<Longrightarrow> conferences d' = conferences d \<Longrightarrow> old_event d' = old_event d"
  by (intro ext) (simp add: old_event_def)

lemma old_event_events [simp]: "old_event (d\<lparr>events := es\<rparr>) = old_event d"
  by (rule old_event_cong) simp_all

lemma delete_batch_exact:
  assumes "distinct (map ev_id (events d))" and "delete_batch appID cutoff d = (n, d')"
  defines "old \<equiv> old_event d appID cutoff"
  shows "n = min batchSize (length (filter old (events d)))"
    and "d' = d\<lparr>events := events d'\<rparr>"
    and "filter (\<lambda>e. \<not> old e) (events d') = filter (\<lambda>e. \<not> old e) (events d)"
    and "length (filter old (events d')) = length (filter old (events d)) - n"
    and "distinct (map ev_id (events d'))"
proof -
  let ?gone = "\<lambda>e. ev_id e \<in> set (take batchSize (map ev_id (filter old (events d))))"
  have gone: "filter ?gone (events d) = take batchSize (filter old (events d))"
    using assms(1) by (rule filter_take_keyed)
  have d': "d' = d\<lparr>events := filter (\<lambda>e. \<not> ?gone e) (events d)\<rparr>" and n: "n = length (events d) - length (filter (\<lambda>e. \<not> ?gone e) (events d))"
    using assms(2) by (simp_all add: delete_batch_def Let_def old_def)
  show n': "n = min batchSize (length (filter old (events d)))"
    using n sum_length_filter_compl [of ?gone "events d"] gone by simp
  show "d' = d\<lparr>events := events d'\<rparr>" using d' by simp
  have sub: "old e" if "e \<in> set (events d)" "?gone e" for e
  proof -
    have "e \<in> set (filter ?gone (events d))" using that by simp
    then have "e \<in> set (filter old (events d))" unfolding gone by (rule in_set_takeD)
    then show ?thesis by simp
  qed
  show keep: "filter (\<lambda>e. \<not> old e) (events d') = filter (\<lambda>e. \<not> old e) (events d)"
  proof -
    have "filter (\<lambda>e. \<not> ?gone e \<and> \<not> old e) (events d) = filter (\<lambda>e. \<not> old e) (events d)"
      by (rule filter_cong) (use sub in blast)+
    then show ?thesis using d' by (simp del: set_take_subset)
  qed
  show "length (filter old (events d')) = length (filter old (events d)) - n"
    using sum_length_filter_compl [of old "events d'"] sum_length_filter_compl [of old "events d"] keep n d' by simp
  show "distinct (map ev_id (events d'))" using d' assms(1) by (simp add: distinct_map_filter)
qed

lemma batch_count:
  assumes "n = min b c" and "n \<noteq> 0"
  shows "1 + (c - n + b - 1) div b = (c + b - 1) div (b :: nat)"
proof (cases "c \<le> b")
  case True
  then have "n = c" "0 < c" "0 < b" using assms by auto
  moreover have "(c + b - 1) div b = 1" using True \<open>0 < c\<close> by (intro div_nat_eqI) auto
  ultimately show ?thesis by simp
next
  case False
  then have b: "n = b" "0 < b" using assms by auto
  have "c + b - 1 = (c - 1) + b" using False by simp
  then have "(c + b - 1) div b = (c - 1) div b + 1" using b(2) by (simp only: div_add_self2 not_gr0)
  then show ?thesis using False b(1) by simp
qed

lemma delete_loop_exact:
  fixes d appID cutoff
  assumes "\<forall>l. \<not> ft l" and "distinct (map ev_id (events d))"
  defines "old \<equiv> old_event d appID cutoff"
  shows "delete_loop ft appID cutoff totalDeleted batches d
     = (Inr (totalDeleted + length (filter old (events d)),
             batches + (length (filter old (events d)) + batchSize - 1) div batchSize),
        d\<lparr>events := filter (\<lambda>e. \<not> old e) (events d)\<rparr>)"
  using assms(1,2) unfolding old_def
proof (induction ft appID cutoff totalDeleted batches d rule: delete_loop.induct [case_names step])
  case (step ft appID cutoff totalDeleted batches d)
  let ?old = "old_event d appID cutoff"
  let ?c = "length (filter ?old (events d))"
  obtain n d' where b: "delete_batch appID cutoff d = (n, d')" by fastforce
  note exact = delete_batch_exact [OF step.prems(2) b]
  have run: "delete_loop ft appID cutoff totalDeleted batches d
      = (if n = 0 then (Inr (totalDeleted, batches), d') else delete_loop ft appID cutoff (totalDeleted + n) (batches + 1) d')"
    using step.prems(1) b by (subst delete_loop.simps) simp
  have same: "old_event d' appID cutoff = ?old" using exact(2) by (metis old_event_events)
  show ?case
  proof (cases "n = 0")
    case True
    then have none: "?c = 0" using exact(1) by (simp add: batchSize_def min_def split: if_splits)
    then have "d' = d\<lparr>events := filter (\<lambda>e. \<not> ?old e) (events d)\<rparr>"
      using exact(2,3,4) True by (metis filter_True length_0_conv filter_empty_conv diff_0_eq_0)
    with run True none show ?thesis by (simp add: batchSize_def)
  next
    case False
    have ih: "delete_loop ft appID cutoff (totalDeleted + n) (batches + 1) d'
        = (Inr (totalDeleted + n + (?c - n), batches + 1 + (?c - n + batchSize - 1) div batchSize),
           d\<lparr>events := filter (\<lambda>e. \<not> ?old e) (events d)\<rparr>)"
    proof -
      have upd: "d'\<lparr>events := es\<rparr> = d\<lparr>events := es\<rparr>" for es
        using arg_cong [OF exact(2), of "\<lambda>x. x\<lparr>events := es\<rparr>"] by simp
      have "\<not> ft (''retention: delete events for app '' @ FormatInt appID @ '': '' @ dec_nat batches)"
        using step.prems(1) by blast
      from step.IH [OF this b [symmetric] False step.prems(1) exact(5)] show ?thesis
        using exact(3,4) by (simp add: same upd)
    qed
    have "n \<le> ?c" "1 + (?c - n + batchSize - 1) div batchSize = (?c + batchSize - 1) div batchSize"
      using exact(1) False batch_count [of n batchSize ?c] by auto
    with run False ih show ?thesis by simp
  qed
qed

lemma delete_apps_exact:
  assumes "\<forall>l. \<not> ft l" and "distinct (map ev_id (events d))"
  shows "delete_apps ft clk i as d = (None, d\<lparr>events := filter (\<lambda>e. \<not> (\<exists>j < length as.
      old_event d (app_id (as ! j)) (pg_time (clk (i + j) - retention_days (as ! j) * day_ns)) e)) (events d)\<rparr>)"
  using assms(2)
proof (induction as arbitrary: i d)
  case Nil
  show ?case by simp
next
  case (Cons a as)
  let ?old = "old_event d (app_id a) (pg_time (clk i - retention_days a * day_ns))"
  have first: "deleteOldEvents ft (app_id a) (AddDays (clk i) (- retention_days a)) d
      = (Inr (length (filter ?old (events d)), (length (filter ?old (events d)) + batchSize - 1) div batchSize),
         d\<lparr>events := filter (\<lambda>e. \<not> ?old e) (events d)\<rparr>)"
    using delete_loop_exact [OF assms(1) Cons.prems] by (simp add: deleteOldEvents_def)
  have dist: "distinct (map ev_id (events (d\<lparr>events := filter (\<lambda>e. \<not> ?old e) (events d)\<rparr>)))"
    using Cons.prems by (simp add: distinct_map_filter)
  show ?case
    using first Cons.IH [OF dist, of "Suc i"] by (simp add: Ex_less_Suc2)
qed

lemma minRetention_Min: "as \<noteq> [] \<Longrightarrow> minRetention as = Min (retention_days ` set as)"
proof -
  have fold: "foldl (\<lambda>m a. if retention_days a < m then retention_days a else m) m as = Min (insert m (retention_days ` set as))" for m and as :: "app_row list"
  proof (induction as arbitrary: m)
    case (Cons a as)
    have "Min (insert (if retention_days a < m then retention_days a else m) R) = Min (insert m (insert (retention_days a) R))"
      if "finite R" for R
      using that by (cases "R = {}") (auto simp: min_def)
    then show ?case using Cons by simp
  qed simp
  assume "as \<noteq> []"
  then show ?thesis by (cases as) (simp_all add: minRetention_def fold)
qed

text \<open>Sample data for the witnesses: two applications with 30 and 365 days, a partition of November
  and one of December 1970, one sample and one event of the second application; it is 1 February
  1971.\<close>

definition retention_db :: database where
  "retention_db = empty_db\<lparr>
     apps := [\<lparr>app_id = 1, app_org_id = 1, retention_days = 30, observation_config = None, server_api_key = None, server_api_secret_enc = None, app_name = [], app_api_key_hash = [], app_created_at = 0, app_server_key_created_at = None\<rparr>,
              \<lparr>app_id = 2, app_org_id = 1, retention_days = 365, observation_config = None, server_api_key = None, server_api_secret_enc = None, app_name = [], app_api_key_hash = [], app_created_at = 0, app_server_key_created_at = None\<rparr>],
     partitions := [\<lparr>relname = ''connection_stats_1970_11'', range_from = 304 * day_ns, range_to = 334 * day_ns\<rparr>,
                    \<lparr>relname = ''connection_stats_1970_12'', range_from = 334 * day_ns, range_to = 365 * day_ns\<rparr>,
                    \<lparr>relname = ''connection_stats_1971_01'', range_from = 365 * day_ns, range_to = 396 * day_ns\<rparr>],
     conferences := [\<lparr>conf_id = 1, conf_app_id = 2, conf_external_id = ''c'', conf_started_at = 0, conf_ended_at = None, conf_participant_count = 0\<rparr>],
     participants := [\<lparr>part_id = 1, part_conference_id = 1, part_user_id = ''u'', part_joined_at = 0, part_display_name = [], part_left_at = None\<rparr>],
     sessions := [\<lparr>sess_id = 1, sess_participant_id = 1, sess_external_id = ''s'', sess_browser = [], sess_os = [], sess_country = [], sess_city = [], sess_network_type = []\<rparr>],
     connections := [\<lparr>conn_id = 1, conn_session_id = 1, conn_external_id = ''n'', conn_started_at = 0, conn_peer_id = [], conn_ended_at = None, conn_ice_state = [], conn_codec_audio = [], conn_codec_video = []\<rparr>],
     events := [\<lparr>ev_id = 1, ev_connection_id = Some 1, ev_session_id = Some 1, ev_ts = 335 * day_ns, ev_event_type = ''observation'', ev_payload = JNull\<rparr>]\<rparr>"

text \<open>(C26) A retention pass without faults removes exactly what it should.  With the applications
  whose \<open>retention_days\<close> is positive, a monthly partition is dropped if and only if it ends no
  later than the shortest of their retention periods before now, and the statistics of exactly those
  partitions go, whatever application they belong to; an event is deleted if and only if it belongs
  to one of these applications and is older than that application's own period.\<close>
theorem RunOnce_exact:
  assumes "\<forall>l. \<not> ft l" and "names_ok d" and "\<forall>p \<in> set (partitions d). whole_month p"
    and "distinct (map ev_id (events d))" and "filter (\<lambda>a. retention_days a > 0) (apps d) = as" and "as \<noteq> []"
    and "RunOnce ft clk d = (err, d')"
  defines "expired \<equiv> \<lambda>p. parsePartitionMonth (relname p) \<noteq> None
      \<and> range_to p \<le> clk 0 - Min (retention_days ` set as) * day_ns"
  shows "err = None
   \<and> partitions d' = filter (\<lambda>p. \<not> expired p) (partitions d)
   \<and> connection_stats d' = filter (\<lambda>r. \<not> (\<exists>p \<in> set (partitions d). expired p \<and> in_partition p (cs_ts r))) (connection_stats d)
   \<and> events d' = filter (\<lambda>e. \<not> (\<exists>j < length as.
       old_event d (app_id (as ! j)) (pg_time (clk (Suc j) - retention_days (as ! j) * day_ns)) e)) (events d)"
proof -
  obtain n det where drop: "dropOldPartitions ft (clk 0) (minRetention as) d = (Inr n, (without expired d)\<lparr>detached := det\<rparr>)"
    using dropOldPartitions_exact [OF assms(1-3), of "clk 0" "minRetention as"] minRetention_Min [OF assms(6)]
    by (auto simp: expired_def)
  let ?d = "(without expired d)\<lparr>detached := det\<rparr>"
  have "RunOnce ft clk d = delete_apps ft clk 1 as ?d"
    using assms(1,5,6) drop by (simp add: RunOnce_def Let_def)
  moreover have "distinct (map ev_id (events ?d))" using assms(4) by (simp add: without_def)
  moreover have "old_event ?d = old_event d" by (rule old_event_cong) (simp_all add: without_def)
  ultimately show ?thesis
    using assms(7) delete_apps_exact [OF assms(1), of ?d clk 1 as] by (auto simp: without_def)
qed

theorem RunOnce_exact_witness:
  "map relname (partitions (snd (RunOnce (\<lambda>_. False) (\<lambda>_. 396 * day_ns) retention_db))) = [''connection_stats_1971_01'']
 \<and> events (snd (RunOnce (\<lambda>_. False) (\<lambda>_. 396 * day_ns) retention_db)) = events retention_db"
proof -
  let ?as = "apps retention_db" and ?r = "RunOnce (\<lambda>_. False) (\<lambda>_. 396 * day_ns) retention_db"
  have 1: "names_ok retention_db" "\<forall>p \<in> set (partitions retention_db). whole_month p" "distinct (map ev_id (events retention_db))"
    "filter (\<lambda>a. retention_days a > 0) (apps retention_db) = ?as" "?as \<noteq> []" by code_simp+
  have "filter (\<lambda>p. \<not> (parsePartitionMonth (relname p) \<noteq> None \<and> range_to p \<le> 396 * day_ns - Min (retention_days ` set ?as) * day_ns))
      (partitions retention_db) = [partitions retention_db ! 2]" by code_simp
  moreover have "relname (partitions retention_db ! 2) = ''connection_stats_1971_01''" by code_simp
  moreover have "filter (\<lambda>e. \<not> (\<exists>j < length ?as. old_event retention_db (app_id (?as ! j))
      (pg_time (396 * day_ns - retention_days (?as ! j) * day_ns)) e)) (events retention_db) = events retention_db" by code_simp
  ultimately show ?thesis
    using RunOnce_exact [OF _ 1, of "\<lambda>_. False" "\<lambda>_. 396 * day_ns" "fst ?r" "snd ?r"] by simp
qed

text \<open>The schedule.  An expression \<open>parseDailyCron\<close> accepts names an hour below 24 and a
  minute below 60, and the next run after any moment is the first later moment at which the clock
  shows them: it comes within 24 hours, and no moment strictly in between shows that time.\<close>
theorem cron_next_run:
  assumes "parseDailyCron cron = Some (hour, minute)"
  defines "at_time \<equiv> \<lambda>t. t mod day_ns = (hour * 60 + minute) * 60 * 1000000000"
  shows "0 \<le> hour \<and> hour \<le> 23 \<and> 0 \<le> minute \<and> minute \<le> 59
   \<and> from < nextRunTime hour minute from \<and> nextRunTime hour minute from \<le> from + day_ns
   \<and> at_time (nextRunTime hour minute from)
   \<and> (\<forall>t. from < t \<and> at_time t \<longrightarrow> nextRunTime hour minute from \<le> t)"
proof -
  have range: "0 \<le> hour" "hour \<le> 23" "0 \<le> minute" "minute \<le> 59"
    using assms(1) by (auto simp: parseDailyCron_def split: list.splits option.splits if_splits)
  define tod where "tod = (hour * 60 + minute) * 60 * 1000000000"
  have tod: "0 \<le> tod" "tod < day_ns" using range by (simp_all add: tod_def day_ns_def)
  define q where "q = from div day_ns"
  have day: "0 < day_ns" by (simp add: day_ns_def)
  have fr: "day_ns * q \<le> from" "from < day_ns * q + day_ns" using div_bounds [OF day, of "from"] by (simp_all add: q_def)
  have next_eq: "nextRunTime hour minute from = (if q * day_ns + tod > from then q * day_ns + tod else q * day_ns + tod + day_ns)"
    by (simp add: nextRunTime_def Date_of_day q_def tod_def Let_def day_ns_def)
  have sound: "(k * day_ns + tod) mod day_ns = tod" for k using tod by simp
  have least: "nextRunTime hour minute from \<le> t" if t: "from < t" "t mod day_ns = tod" for t
  proof -
    define k where "k = t div day_ns"
    have tk: "t = k * day_ns + tod" using mult_div_mod_eq [of day_ns t] t(2) by (simp add: k_def mult.commute)
    have "q \<le> k" unfolding q_def k_def using t(1) day by (simp add: zdiv_mono1)
    then have "q * day_ns \<le> k * day_ns" using day by (intro mult_right_mono) simp_all
    moreover have "q * day_ns + day_ns \<le> k * day_ns" if "q \<noteq> k"
      using \<open>q \<le> k\<close> that mult_right_mono [of "q + 1" k day_ns] day by (simp add: distrib_right)
    ultimately show ?thesis using t(1) tk by (cases "q = k") (auto simp: next_eq)
  qed
  have "at_time (nextRunTime hour minute from)"
    unfolding at_time_def tod_def [symmetric] using sound [of q] sound [of "q + 1"] by (simp add: next_eq distrib_right add.assoc add.commute)
  moreover have "from < nextRunTime hour minute from" "nextRunTime hour minute from \<le> from + day_ns"
    using fr tod by (auto simp: next_eq mult.commute)
  ultimately show ?thesis using range least by (auto simp: at_time_def tod_def)
qed

theorem cron_next_run_witness: "nextRunTime 2 0 (5 * 3600 * 1000000000) \<le> 5 * 3600 * 1000000000 + day_ns"
proof -
  have "parseDailyCron ''0 2 * * *'' = Some (2, 0)" by code_simp
  from cron_next_run [OF this] show ?thesis by blast
qed

end
