(* ===== verification/Configuration.thy ===== *)
theory Configuration
  imports Ingest_API Emos_Compute
begin

text \<open>
  Configuration, \<^verbatim>\<open>internal/config/config.go\<close>, and what
  \<^verbatim>\<open>services/ingest-api/main.go\<close> derives from it: the settings of the worker pool and of
  the two rate limiters, the decoded master key and the schedules of the background jobs.

  Reading the file and the environment and decoding them into the struct is the library viper, a
  parameter \<open>unmarshal\<close> from the table of defaults to a configuration or an error;
  \<open>numCPU\<close> is \<open>runtime.NumCPU\<close>, and \<open>parse_float\<close>, \<open>parse_duration\<close> are
  \<open>strconv.ParseFloat\<close> (for finite values) and \<open>time.ParseDuration\<close>.
\<close>

record ServerConfig =
  Port :: int
  MetricsPort :: int

record DBConfig =
  DB_URL :: string
  MaxConns :: int
  MinConns :: int
  ConnLifetime :: string

record RedisConfig =
  Redis_URL :: string
  PoolSize :: int

record AuthConfig =
  JWTSecret :: string
  ServerMasterKey :: string

record RateLimitConfig =
  RL_Max :: int
  RL_WindowSecs :: int

record WorkerConfig =
  Count :: int
  WBatchSize :: int
  WFlushIntervalMs :: int
  WChannelCap :: int
  DeadLetterDir :: string

record SessionConfig =
  TTLSeconds :: int

record RetentionConfig =
  Cron :: string

record LogConfig =
  Level :: string

record Config =
  Server_cfg :: ServerConfig
  DB_cfg :: DBConfig
  Redis_cfg :: RedisConfig
  Auth_cfg :: AuthConfig
  Session_cfg :: SessionConfig
  RateLimit_cfg :: RateLimitConfig
  ServerRateLimit_cfg :: RateLimitConfig
  Worker_cfg :: WorkerConfig
  Retention_cfg :: RetentionConfig
  Log_cfg :: LogConfig

definition setDefaults :: "(string \<times> jval) list" where
  "setDefaults =
     [(''server.port'', JInt 8080), (''server.metrics_port'', JInt 9090),
      (''db.max_conns'', JInt 20), (''db.min_conns'', JInt 5), (''db.conn_lifetime'', JStr ''30m''),
      (''redis.pool_size'', JInt 10),
      (''rate_limit.max'', JInt 100), (''rate_limit.window_secs'', JInt 60),
      (''server_rate_limit.max'', JInt 1000), (''server_rate_limit.window_secs'', JInt 60),
      (''worker.batch_size'', JInt 500), (''worker.flush_interval_ms'', JInt 100),
      (''worker.dead_letter_dir'', JStr ''./dead_letter/''),
      (''session.ttl_seconds'', JInt 28800),
      (''retention.cron'', JStr ''0 2 * * *''),
      (''log.level'', JStr ''info'')]"

definition applyComputedDefaults :: "int \<Rightarrow> Config \<Rightarrow> Config" where
  "applyComputedDefaults numCPU cfg =
     (let w = Worker_cfg cfg;
          w1 = (if Count w = 0 then w\<lparr>Count := i64 (numCPU * 2)\<rparr> else w);
          w2 = (if WChannelCap w1 = 0 then w1\<lparr>WChannelCap := i64 (i64 (Count w1 * WBatchSize w1) * 4)\<rparr> else w1) in
      cfg\<lparr>Worker_cfg := w2\<rparr>)"

definition validate :: "Config \<Rightarrow> string option" where
  "validate cfg =
     (if ServerMasterKey (Auth_cfg cfg) \<noteq> [] then
        (case b64_decode StdAlphabet (ServerMasterKey (Auth_cfg cfg)) of
           None \<Rightarrow> Some ''auth.server_master_key: invalid base64''
         | Some key \<Rightarrow>
             if length key \<noteq> 32
             then Some (''auth.server_master_key: must decode to exactly 32 bytes, got '' @ dec_nat (length key))
             else None)
      else None)"

definition Load :: "((string \<times> jval) list \<Rightarrow> string + Config) \<Rightarrow> int \<Rightarrow> string + Config" where
  "Load unmarshal numCPU =
     (case unmarshal setDefaults of
        Inl e \<Rightarrow> Inl e
      | Inr cfg0 \<Rightarrow>
          let cfg = applyComputedDefaults numCPU cfg0 in
          case validate cfg of Some e \<Rightarrow> Inl e | None \<Rightarrow> Inr cfg)"

subsection \<open>Start-up of the ingest service\<close>

text \<open>An environment variable overrides a setting when it is set and parses to a positive value.\<close>

definition env_override :: "(string \<Rightarrow> 'a::{zero,linorder} option) \<Rightarrow> string \<Rightarrow> 'a \<Rightarrow> 'a" where
  "env_override parse v dflt =
     (if v \<noteq> [] then (case parse v of Some x \<Rightarrow> if x > 0 then x else dflt | None \<Rightarrow> dflt) else dflt)"

definition master_key :: "Config \<Rightarrow> string" where
  "master_key cfg =
     (if ServerMasterKey (Auth_cfg cfg) \<noteq> []
      then (case b64_decode StdAlphabet (ServerMasterKey (Auth_cfg cfg)) of Some k \<Rightarrow> k | None \<Rightarrow> [])
      else [])"

record service_setup =
  worker_config :: Worker.Config
  lossCoeff :: rat
  checkInterval :: int
  idleThreshold :: int
  retentionCron :: string
  jwt_limit :: RateLimit.Config
  masterKey :: string
  server_limit :: RateLimit.Config

definition serve_setup ::
  "(string \<Rightarrow> rat option) \<Rightarrow> (string \<Rightarrow> int option) \<Rightarrow> (string \<Rightarrow> string) \<Rightarrow> Config \<Rightarrow> service_setup" where
  "serve_setup parse_float parse_duration env cfg = \<lparr>
     worker_config = \<lparr>WorkerCount = Count (Worker_cfg cfg), BatchSize = WBatchSize (Worker_cfg cfg),
                      FlushIntervalMs = WFlushIntervalMs (Worker_cfg cfg), ChannelCap = WChannelCap (Worker_cfg cfg)\<rparr>,
     lossCoeff = env_override parse_float (env ''EMOS_LOSS_COEFF'') DefaultLossCoeff,
     checkInterval = env_override parse_duration (env ''STALE_CONF_CHECK_INTERVAL'') (5 * 60 * 1000000000),
     idleThreshold = env_override parse_duration (env ''STALE_CONF_IDLE_THRESHOLD'') (15 * 60 * 1000000000),
     retentionCron = (if env ''RETENTION_JOB_CRON'' \<noteq> [] then env ''RETENTION_JOB_CRON'' else Cron (Retention_cfg cfg)),
     jwt_limit = \<lparr>RateLimit.Config.Max = RL_Max (RateLimit_cfg cfg), WindowSecs = RL_WindowSecs (RateLimit_cfg cfg)\<rparr>,
     masterKey = master_key cfg,
     server_limit = \<lparr>RateLimit.Config.Max = RL_Max (ServerRateLimit_cfg cfg), WindowSecs = RL_WindowSecs (ServerRateLimit_cfg cfg)\<rparr>\<rparr>"

subsection \<open>What an accepted configuration guarantees\<close>

lemma Load_Inr:
  assumes "Load unmarshal numCPU = Inr cfg"
  shows "validate cfg = None" and "\<exists>cfg0. unmarshal setDefaults = Inr cfg0 \<and> cfg = applyComputedDefaults numCPU cfg0"
  using assms by (auto simp: Load_def Let_def split: sum.splits option.splits)

lemma env_override_pos: "0 < dflt \<Longrightarrow> 0 < env_override parse v dflt"
  by (auto simp: env_override_def split: option.splits)

text \<open>The unmarshalled defaults, for the witnesses.\<close>

definition default_config :: Config where
  "default_config = \<lparr>Server_cfg = \<lparr>Port = 8080, MetricsPort = 9090\<rparr>,
     DB_cfg = \<lparr>DB_URL = [], MaxConns = 20, MinConns = 5, ConnLifetime = ''30m''\<rparr>,
     Redis_cfg = \<lparr>Redis_URL = [], PoolSize = 10\<rparr>,
     Auth_cfg = \<lparr>JWTSecret = ''s'', ServerMasterKey = []\<rparr>,
     Session_cfg = \<lparr>TTLSeconds = 28800\<rparr>,
     RateLimit_cfg = \<lparr>RL_Max = 100, RL_WindowSecs = 60\<rparr>,
     ServerRateLimit_cfg = \<lparr>RL_Max = 1000, RL_WindowSecs = 60\<rparr>,
     Worker_cfg = \<lparr>Count = 0, WBatchSize = 500, WFlushIntervalMs = 100, WChannelCap = 0, DeadLetterDir = ''./dead_letter/''\<rparr>,
     Retention_cfg = \<lparr>Cron = ''0 2 * * *''\<rparr>, Log_cfg = \<lparr>Level = ''info''\<rparr>\<rparr>"

lemma default_config_loads: "Load (\<lambda>_. Inr default_config) 4 = Inr (applyComputedDefaults 4 default_config)"
  by (simp add: Load_def validate_def applyComputedDefaults_def default_config_def Let_def)

lemma master_key_length:
  assumes "Load unmarshal numCPU = Inr cfg"
  shows "length (master_key cfg) = (if ServerMasterKey (Auth_cfg cfg) \<noteq> [] then 32 else 0)"
  using Load_Inr(1) [OF assms] by (auto simp: master_key_def validate_def split: option.splits if_splits)

lemma serve_setup_positive:
  "0 < lossCoeff (serve_setup parse_float parse_duration env cfg)"
  "0 < checkInterval (serve_setup parse_float parse_duration env cfg)"
  "0 < idleThreshold (serve_setup parse_float parse_duration env cfg)"
  by (simp_all add: serve_setup_def DefaultLossCoeff_def env_override_pos)

end
