(* ===== verification/Dashboard.thy ===== *)
theory Dashboard
  imports Session Database
begin

text \<open>
  The tables of the dashboard side (users, organizations, members, invitations, share tokens) next
  to those of the ingest side, and the statements the handlers of \<^verbatim>\<open>services/query-api\<close>
  share.  A statement that the server would refuse (a duplicate key, a missing parent row, a NUL
  byte in a text) yields \<open>None\<close>, which the handlers answer like any other database error.

  Response bodies are JSON values.  bcrypt is a parameter with the law its documentation states: a
  generated hash matches the password it was generated from.
\<close>

subsection \<open>Rows\<close>

record user_row =
  usr_id :: int
  usr_email :: string
  usr_name :: string
  usr_password_hash :: string

record org_row =
  org_id :: int
  org_name :: string
  org_created_at :: instant

record member_row =
  mem_org_id :: int
  mem_user_id :: int
  mem_role :: string
  mem_invited_by :: "int option"
  mem_joined_at :: instant

record invitation_row =
  inv_token :: string
  inv_org_id :: int
  inv_email :: string
  inv_role :: string
  inv_invited_by :: "int option"
  inv_expires_at :: instant
  inv_accepted_at :: "instant option"

record share_row =
  st_token :: string
  st_conference_id :: int
  st_org_id :: int
  st_created_by :: "int option"
  st_created_at :: instant
  st_view_count :: int

record tables =
  users :: "user_row list"
  organizations :: "org_row list"
  members :: "member_row list"
  invitations :: "invitation_row list"
  share_tokens :: "share_row list"
  next_user :: int
  next_org :: int
  next_app :: int
  ingest :: database

text \<open>The state behind the query API: the tables and the two families of Redis keys it uses, the
  session store (keys \<open>session:..\<close>) and the cache of query results (keys \<open>stats:..\<close>,
  \<open>overview:..\<close>, \<open>breakdown:..\<close>), which never meet.\<close>

record ('s, 'c) dash =
  tabs :: tables
  store :: 's
  cache :: 'c

text \<open>What a handler may add to the headers: the session cookie, its removal, or the target of a
  redirect.\<close>

datatype cookie = SetSession string | ClearSession | Location string

type_synonym ('s, 'c) handled = "jval resp \<times> cookie option \<times> ('s, 'c) dash"

record bcrypt =
  GenerateFromPassword :: "string \<Rightarrow> string \<Rightarrow> string option"
  CompareHashAndPassword :: "string \<Rightarrow> string \<Rightarrow> bool"

definition bcrypt_ok :: "bcrypt \<Rightarrow> bool" where
  "bcrypt_ok bc \<longleftrightarrow> (\<forall>salt pw h. GenerateFromPassword bc salt pw = Some h \<longrightarrow> CompareHashAndPassword bc h pw)"

definition fail :: "nat \<Rightarrow> string \<Rightarrow> ('s, 'c) dash \<Rightarrow> ('s, 'c) handled" where
  "fail st msg s = (err_reply st msg, None, s)"

definition done_ok :: "nat \<Rightarrow> jval \<Rightarrow> ('s, 'c) dash \<Rightarrow> ('s, 'c) handled" where
  "done_ok st v s = (reply st (OkBody v), None, s)"

subsection \<open>Statements\<close>

definition insert_user :: "string \<Rightarrow> string \<Rightarrow> string \<Rightarrow> tables \<Rightarrow> (int \<times> tables) option" where
  "insert_user email name hash T =
     (if email \<in> usr_email ` set (users T) \<or> \<not> pg_text email \<or> \<not> pg_text name then None
      else Some (next_user T, T\<lparr>users := users T @ [\<lparr>usr_id = next_user T, usr_email = email, usr_name = name, usr_password_hash = hash\<rparr>],
                                next_user := next_user T + 1\<rparr>))"

definition insert_org :: "instant \<Rightarrow> string \<Rightarrow> tables \<Rightarrow> (int \<times> tables) option" where
  "insert_org now name T =
     (if \<not> pg_text name then None
      else Some (next_org T, T\<lparr>organizations := organizations T @ [\<lparr>org_id = next_org T, org_name = name, org_created_at = pg_time now\<rparr>],
                               next_org := next_org T + 1\<rparr>))"

definition insert_member :: "instant \<Rightarrow> int \<Rightarrow> int \<Rightarrow> string \<Rightarrow> int option \<Rightarrow> tables \<Rightarrow> tables option" where
  "insert_member now org user role invited_by T =
     (if org \<notin> org_id ` set (organizations T) \<or> user \<notin> usr_id ` set (users T)
         \<or> (org, user) \<in> (\<lambda>m. (mem_org_id m, mem_user_id m)) ` set (members T)
      then None
      else Some (T\<lparr>members := members T @ [\<lparr>mem_org_id = org, mem_user_id = user, mem_role = role, mem_invited_by = invited_by,
                                              mem_joined_at = pg_time now\<rparr>]\<rparr>))"

definition find_member :: "tables \<Rightarrow> int \<Rightarrow> int \<Rightarrow> member_row option" where
  "find_member T org user = List.find (\<lambda>m. mem_org_id m = org \<and> mem_user_id m = user) (members T)"

definition find_user :: "tables \<Rightarrow> int \<Rightarrow> user_row option" where
  "find_user T uid = List.find (\<lambda>u. usr_id u = uid) (users T)"

definition adminCount :: "tables \<Rightarrow> int \<Rightarrow> nat" where
  "adminCount T org = length (filter (\<lambda>m. mem_org_id m = org \<and> mem_role m = ''admin'') (members T))"

definition find_app :: "tables \<Rightarrow> int \<Rightarrow> int \<Rightarrow> app_row option" where
  "find_app T appID orgID = List.find (\<lambda>a. app_id a = appID \<and> app_org_id a = orgID) (apps (ingest T))"

definition requireAdmin :: "Data option \<Rightarrow> jval resp option" where
  "requireAdmin sess =
     (case sess of
        None \<Rightarrow> Some (err_reply 403 ''admin role required'')
      | Some d \<Rightarrow> if SessRole d \<noteq> ''admin'' then Some (err_reply 403 ''admin role required'') else None)"

subsection \<open>Integrity\<close>

text \<open>Keys, references and roles, and that every organization has an administrator.\<close>

definition roles :: "string set" where
  "roles = {''admin'', ''member''}"

definition has_admin :: "tables \<Rightarrow> int \<Rightarrow> bool" where
  "has_admin T org \<longleftrightarrow> (\<exists>m \<in> set (members T). mem_org_id m = org \<and> mem_role m = ''admin'')"

definition app_org :: "database \<Rightarrow> int \<Rightarrow> int \<Rightarrow> bool" where
  "app_org d app org \<longleftrightarrow> (\<exists>a \<in> set (apps d). app_id a = app \<and> app_org_id a = org)"

definition conf_org :: "database \<Rightarrow> int \<Rightarrow> int \<Rightarrow> bool" where
  "conf_org d conf org \<longleftrightarrow> (\<exists>c \<in> set (conferences d). conf_id c = conf \<and> app_org d (conf_app_id c) org)"

definition accounts_ok :: "tables \<Rightarrow> bool" where
  "accounts_ok T \<longleftrightarrow>
     table_ok usr_email usr_id (next_user T) (users T)
   \<and> table_ok org_id org_id (next_org T) (organizations T)
   \<and> distinct (map (\<lambda>m. (mem_org_id m, mem_user_id m)) (members T))
   \<and> mem_org_id ` set (members T) \<subseteq> org_id ` set (organizations T)
   \<and> mem_user_id ` set (members T) \<subseteq> usr_id ` set (users T)
   \<and> mem_role ` set (members T) \<subseteq> roles
   \<and> (\<forall>g \<in> set (organizations T). has_admin T (org_id g))"

definition invitations_ok :: "tables \<Rightarrow> bool" where
  "invitations_ok T \<longleftrightarrow>
     distinct (map inv_token (invitations T))
   \<and> inv_org_id ` set (invitations T) \<subseteq> org_id ` set (organizations T)
   \<and> inv_role ` set (invitations T) \<subseteq> roles"

definition sharing_ok :: "tables \<Rightarrow> bool" where
  "sharing_ok T \<longleftrightarrow>
     distinct (map st_token (share_tokens T))
   \<and> app_org_id ` set (apps (ingest T)) \<subseteq> org_id ` set (organizations T)
   \<and> distinct (map app_id (apps (ingest T)))
   \<and> (\<forall>a \<in> set (apps (ingest T)). app_id a < next_app T)
   \<and> distinct (map conf_id (conferences (ingest T)))
   \<and> (\<forall>t \<in> set (share_tokens T). conf_org (ingest T) (st_conference_id t) (st_org_id t))"

definition tables_ok :: "tables \<Rightarrow> bool" where
  "tables_ok T \<longleftrightarrow> accounts_ok T \<and> invitations_ok T \<and> sharing_ok T"

lemmas tables_ok_defs = accounts_ok_def invitations_ok_def sharing_ok_def

definition empty_tables :: tables where
  "empty_tables = \<lparr>users = [], organizations = [], members = [], invitations = [], share_tokens = [],
     next_user = 1, next_org = 1, next_app = 1, ingest = empty_db\<rparr>"

lemma tables_ok_empty: "tables_ok empty_tables"
  by (simp add: tables_ok_def tables_ok_defs empty_tables_def empty_db_def table_ok_def)

lemma insert_user_ok:
  assumes "tables_ok T" and "insert_user email name hash T = Some (uid, T')"
  shows "tables_ok T'" "uid \<in> usr_id ` set (users T')" "set (users T) \<subseteq> set (users T')"
proof -
  have new: "email \<notin> usr_email ` set (users T)" and T': "uid = next_user T"
    "T' = T\<lparr>users := users T @ [\<lparr>usr_id = next_user T, usr_email = email, usr_name = name, usr_password_hash = hash\<rparr>], next_user := next_user T + 1\<rparr>"
    using assms(2) by (auto simp: insert_user_def split: if_splits)
  have old: "table_ok usr_email usr_id (next_user T) (users T)" "mem_user_id ` set (members T) \<subseteq> usr_id ` set (users T)"
    using assms(1) by (auto simp: tables_ok_def accounts_ok_def)
  have "table_ok usr_email usr_id (next_user T') (users T')" "mem_user_id ` set (members T') \<subseteq> usr_id ` set (users T')"
    using new old T' by (auto simp: table_ok_def)
  then show "tables_ok T'" using assms(1) T' by (simp add: tables_ok_def tables_ok_defs has_admin_def)
  show "uid \<in> usr_id ` set (users T')" "set (users T) \<subseteq> set (users T')" using T' by auto
qed

lemma insert_memberD:
  assumes "insert_member now org user role by' T = Some T'"
  obtains m where "T' = T\<lparr>members := members T @ [m]\<rparr>" "mem_org_id m = org" "mem_user_id m = user" "mem_role m = role"
    "org \<in> org_id ` set (organizations T)" "user \<in> usr_id ` set (users T)"
    "(org, user) \<notin> (\<lambda>m. (mem_org_id m, mem_user_id m)) ` set (members T)"
  using assms that [of "\<lparr>mem_org_id = org, mem_user_id = user, mem_role = role, mem_invited_by = by', mem_joined_at = pg_time now\<rparr>"]
  by (auto simp: insert_member_def split: if_splits)

lemma insert_member_ok:
  assumes "tables_ok T" and "role \<in> roles" and "insert_member now org user role by' T = Some T'"
  shows "tables_ok T'"
proof -
  obtain m where m: "T' = T\<lparr>members := members T @ [m]\<rparr>" "mem_org_id m = org" "mem_user_id m = user" "mem_role m = role"
    "org \<in> org_id ` set (organizations T)" "user \<in> usr_id ` set (users T)"
    "(org, user) \<notin> (\<lambda>m. (mem_org_id m, mem_user_id m)) ` set (members T)" by (rule insert_memberD [OF assms(3)])
  have "has_admin T g \<Longrightarrow> has_admin T' g" for g using m(1) by (auto simp: has_admin_def)
  then show ?thesis using assms(1,2) m by (simp add: tables_ok_def tables_ok_defs)
qed

text \<open>A new organization has no administrator until its first member is inserted, so the pair of
  statements is considered together.\<close>

lemma insert_org_member_ok:
  assumes "tables_ok T" and "insert_org now name T = Some (org, T1)" and "insert_member now org user ''admin'' by' T1 = Some T2"
  shows "tables_ok T2"
proof -
  define g where "g = \<lparr>org_id = next_org T, org_name = name, org_created_at = pg_time now\<rparr>"
  have T1: "org = next_org T" "T1 = T\<lparr>organizations := organizations T @ [g], next_org := next_org T + 1\<rparr>"
    using assms(2) by (auto simp: insert_org_def g_def split: if_splits)
  obtain m where m: "T2 = T1\<lparr>members := members T1 @ [m]\<rparr>" "mem_org_id m = org" "mem_user_id m = user" "mem_role m = ''admin''"
    "user \<in> usr_id ` set (users T1)" "(org, user) \<notin> (\<lambda>m. (mem_org_id m, mem_user_id m)) ` set (members T1)"
    by (rule insert_memberD [OF assms(3)])
  have adm: "has_admin T2 org" "has_admin T h \<Longrightarrow> has_admin T2 h" for h using m T1 by (auto simp: has_admin_def)
  have orgs: "table_ok org_id org_id (next_org T) (organizations T)" using assms(1) by (simp add: tables_ok_def accounts_ok_def)
  then have "table_ok org_id org_id (next_org T2) (organizations T2)" using m(1) T1 by (auto simp: table_ok_def g_def)
  moreover have "org_id ` set (organizations T) \<subseteq> org_id ` set (organizations T2)" "org \<in> org_id ` set (organizations T2)"
    using m(1) T1 by (auto simp: g_def)
  moreover have "\<forall>h \<in> set (organizations T2). has_admin T2 (org_id h)"
    using assms(1) adm m(1) T1 by (auto simp: tables_ok_def accounts_ok_def g_def)
  ultimately show ?thesis
    using assms(1) m T1 by (simp add: tables_ok_def tables_ok_defs roles_def subset_trans [of _ "org_id ` set (organizations T)"])
qed

subsection \<open>Reasoning about handlers\<close>

text \<open>\<open>keeps I r\<close>: the tables a handler leaves satisfy \<open>I\<close>.  The rules follow the branches
  of a handler, so that a proof is left with the statements that write.\<close>

named_theorems keeps_intro \<open>rules that walk down the branches of a handler\<close>

definition keeps :: "(tables \<Rightarrow> bool) \<Rightarrow> ('s, 'c) handled \<Rightarrow> bool" where
  "keeps I r \<longleftrightarrow> I (tabs (snd (snd r)))"

lemma keeps_fail [keeps_intro]: "I (tabs s) \<Longrightarrow> keeps I (fail st msg s)"
  by (simp add: keeps_def fail_def)

lemma keeps_done [keeps_intro]: "I (tabs s) \<Longrightarrow> keeps I (done_ok st v s)"
  by (simp add: keeps_def done_ok_def)

lemma keeps_reply [keeps_intro]: "I (tabs s) \<Longrightarrow> keeps I (r, c, s)"
  by (simp add: keeps_def)

lemma keeps_if [keeps_intro]: "(b \<Longrightarrow> keeps I x) \<Longrightarrow> (\<not> b \<Longrightarrow> keeps I y) \<Longrightarrow> keeps I (if b then x else y)"
  by simp

lemma keeps_option [keeps_intro]:
  "(x = None \<Longrightarrow> keeps I f) \<Longrightarrow> (\<And>a. x = Some a \<Longrightarrow> keeps I (g a)) \<Longrightarrow> keeps I (case x of None \<Rightarrow> f | Some a \<Rightarrow> g a)"
  by (cases x) simp_all

lemma keeps_sum [keeps_intro]:
  "(\<And>a. x = Inl a \<Longrightarrow> keeps I (f a)) \<Longrightarrow> (\<And>b. x = Inr b \<Longrightarrow> keeps I (g b)) \<Longrightarrow> keeps I (case x of Inl a \<Rightarrow> f a | Inr b \<Rightarrow> g b)"
  by (cases x) simp_all

lemma keeps_prod [keeps_intro]: "(\<And>a b. x = (a, b) \<Longrightarrow> keeps I (f a b)) \<Longrightarrow> keeps I (case x of (a, b) \<Rightarrow> f a b)"
  by (cases x) simp

lemma keeps_let [keeps_intro]: "(\<And>x. x = t \<Longrightarrow> keeps I (f x)) \<Longrightarrow> keeps I (Let t f)"
  by (simp add: Let_def)

end
