(* ===== verification/Accounts.thy ===== *)
theory Accounts
  imports Dashboard
begin

text \<open>
  Accounts and log-in, \<^verbatim>\<open>services/query-api/handler/auth.go\<close>, and the creation of
  organizations (\<open>HandleCreateOrg\<close> of \<^verbatim>\<open>handler/app.go\<close>).

  A handler takes the decoded body (\<open>None\<close> when the JSON does not decode), the random bytes it
  may draw and the state, and returns the response, the session cookie it sets and the new state.
  \<open>sess\<close> is the session the middleware put into the context.
\<close>

record RegisterRequest =
  Reg_Email :: string
  Reg_Password :: string
  Reg_Name :: string

record LoginRequest =
  Log_Email :: string
  Log_Password :: string

record PatchMeRequest =
  Patch_Name :: "string option"
  Patch_Password :: "string option"

definition me :: "int \<Rightarrow> string \<Rightarrow> string \<Rightarrow> string \<Rightarrow> jval" where
  "me uid email name role = JObj [(''id'', JInt uid), (''email'', JStr email), (''name'', JStr name), (''role'', JStr role)]"

definition open_session ::
  "('s, Data) kv_api \<Rightarrow> faults \<Rightarrow> instant \<Rightarrow> string \<Rightarrow> Store \<Rightarrow> Data \<Rightarrow> nat \<Rightarrow> jval \<Rightarrow> ('s, 'c) dash \<Rightarrow> ('s, 'c) handled" where
  "open_session api ft now rnd st data code body s =
     (case Create api ft now rnd st data (store s) of
        (Inl e, k) \<Rightarrow> fail 500 ''internal error'' (s\<lparr>store := k\<rparr>)
      | (Inr token, k) \<Rightarrow> (reply code (OkBody body), Some (SetSession token), s\<lparr>store := k\<rparr>))"

definition HandleRegister ::
  "('s, Data) kv_api \<Rightarrow> bcrypt \<Rightarrow> faults \<Rightarrow> instant \<Rightarrow> string \<Rightarrow> string \<Rightarrow> Store \<Rightarrow> RegisterRequest option \<Rightarrow> ('s, 'c) dash \<Rightarrow> ('s, 'c) handled" where
  "HandleRegister api bc ft now salt rnd st body s =
     (case body of
        None \<Rightarrow> fail 400 ''invalid JSON'' s
      | Some req \<Rightarrow>
          if Reg_Email req = [] \<or> Reg_Password req = [] \<or> Reg_Name req = []
          then fail 400 ''email, password, and name are required'' s
          else if ft ''register: count users'' then fail 500 ''internal error'' s
          else if length (users (tabs s)) > 0 then fail 409 ''registration disabled'' s
          else case GenerateFromPassword bc salt (Reg_Password req) of
            None \<Rightarrow> fail 500 ''internal error'' s
          | Some hash \<Rightarrow>
          if ft ''register: begin tx'' \<or> ft ''register: insert user'' then fail 500 ''internal error'' s
          else case insert_user (Reg_Email req) (Reg_Name req) hash (tabs s) of
            None \<Rightarrow> fail 500 ''internal error'' s
          | Some (userID, T1) \<Rightarrow>
          if ft ''register: insert org'' then fail 500 ''internal error'' s
          else case insert_org now (Reg_Name req @ CHR 0x27 # ''s Organization'') T1 of
            None \<Rightarrow> fail 500 ''internal error'' s
          | Some (orgID, T2) \<Rightarrow>
          if ft ''register: insert org_member'' then fail 500 ''internal error'' s
          else case insert_member now orgID userID ''admin'' None T2 of
            None \<Rightarrow> fail 500 ''internal error'' s
          | Some T3 \<Rightarrow>
          if ft ''register: commit'' then fail 500 ''internal error'' s
          else open_session api ft now rnd st
                 \<lparr>SessUserID = userID, SessOrgID = orgID, SessRole = ''admin'', SessEmail = Reg_Email req, SessName = Reg_Name req\<rparr>
                 201 (me userID (Reg_Email req) (Reg_Name req) ''admin'') (s\<lparr>tabs := T3\<rparr>))"

text \<open>The join of the user with the memberships, of which \<open>LIMIT 1\<close> keeps one.\<close>

definition login_row :: "tables \<Rightarrow> string \<Rightarrow> (user_row \<times> member_row) option" where
  "login_row T email =
     (case List.find (\<lambda>u. usr_email u = email \<and> (\<exists>m \<in> set (members T). mem_user_id m = usr_id u)) (users T) of
        None \<Rightarrow> None
      | Some u \<Rightarrow> (case List.find (\<lambda>m. mem_user_id m = usr_id u) (members T) of None \<Rightarrow> None | Some m \<Rightarrow> Some (u, m)))"

definition HandleLogin ::
  "('s, Data) kv_api \<Rightarrow> bcrypt \<Rightarrow> faults \<Rightarrow> instant \<Rightarrow> string \<Rightarrow> Store \<Rightarrow> LoginRequest option \<Rightarrow> ('s, 'c) dash \<Rightarrow> ('s, 'c) handled" where
  "HandleLogin api bc ft now rnd st body s =
     (case body of
        None \<Rightarrow> fail 400 ''invalid JSON'' s
      | Some req \<Rightarrow>
          if ft ''login: query'' then fail 401 ''invalid credentials'' s
          else case login_row (tabs s) (Log_Email req) of
            None \<Rightarrow> fail 401 ''invalid credentials'' s
          | Some (u, m) \<Rightarrow>
              if \<not> CompareHashAndPassword bc (usr_password_hash u) (Log_Password req) then fail 401 ''invalid credentials'' s
              else open_session api ft now rnd st
                     \<lparr>SessUserID = usr_id u, SessOrgID = mem_org_id m, SessRole = mem_role m, SessEmail = Log_Email req, SessName = usr_name u\<rparr>
                     200 (me (usr_id u) (Log_Email req) (usr_name u) (mem_role m)) s)"

definition HandleLogout :: "('s, Data) kv_api \<Rightarrow> faults \<Rightarrow> instant \<Rightarrow> string option \<Rightarrow> ('s, 'c) dash \<Rightarrow> ('s, 'c) handled" where
  "HandleLogout api ft now cookie_value s =
     (case cookie_value of
        Some token \<Rightarrow> (reply 200 NoBody, Some ClearSession, s\<lparr>store := snd (Delete api ft now token (store s))\<rparr>)
      | None \<Rightarrow> (reply 200 NoBody, Some ClearSession, s))"

definition HandleMe :: "Data option \<Rightarrow> ('s, 'c) dash \<Rightarrow> ('s, 'c) handled" where
  "HandleMe sess s =
     (case sess of
        None \<Rightarrow> fail 401 ''unauthorized'' s
      | Some d \<Rightarrow> done_ok 200 (me (SessUserID d) (SessEmail d) (SessName d) (SessRole d)) s)"

definition update_user :: "int \<Rightarrow> (user_row \<Rightarrow> user_row) \<Rightarrow> tables \<Rightarrow> tables" where
  "update_user uid f T = T\<lparr>users := map (\<lambda>u. if usr_id u = uid then f u else u) (users T)\<rparr>"

text \<open>The two updates are separate statements: a failing second one leaves the first in place.\<close>

definition HandlePatchMe ::
  "bcrypt \<Rightarrow> faults \<Rightarrow> string \<Rightarrow> Data option \<Rightarrow> PatchMeRequest option \<Rightarrow> ('s, 'c) dash \<Rightarrow> ('s, 'c) handled" where
  "HandlePatchMe bc ft salt sess body s =
     (case sess of
        None \<Rightarrow> fail 401 ''unauthorized'' s
      | Some d \<Rightarrow>
      case body of
        None \<Rightarrow> fail 400 ''invalid JSON'' s
      | Some req \<Rightarrow>
          case (case Patch_Name req of
                  None \<Rightarrow> Some s
                | Some n \<Rightarrow> if ft ''patch me: update name'' \<or> \<not> pg_text n then None
                            else Some (s\<lparr>tabs := update_user (SessUserID d) (\<lambda>u. u\<lparr>usr_name := n\<rparr>) (tabs s)\<rparr>)) of
            None \<Rightarrow> fail 500 ''internal error'' s
          | Some s1 \<Rightarrow>
          (case Patch_Password req of
             None \<Rightarrow> done_ok 200 (JObj [(''status'', JStr ''ok'')]) s1
           | Some pw \<Rightarrow>
               (case GenerateFromPassword bc salt pw of
                  None \<Rightarrow> fail 500 ''internal error'' s1
                | Some hash \<Rightarrow>
                    if ft ''patch me: update password'' then fail 500 ''internal error'' s1
                    else done_ok 200 (JObj [(''status'', JStr ''ok'')])
                           (s1\<lparr>tabs := update_user (SessUserID d) (\<lambda>u. u\<lparr>usr_password_hash := hash\<rparr>) (tabs s1)\<rparr>))))"

definition HandleCreateOrg ::
  "('s, Data) kv_api \<Rightarrow> faults \<Rightarrow> instant \<Rightarrow> string \<Rightarrow> Store \<Rightarrow> Data option \<Rightarrow> string option \<Rightarrow> string option \<Rightarrow> ('s, 'c) dash \<Rightarrow> ('s, 'c) handled" where
  "HandleCreateOrg api ft now rnd st sess cookie_value body s =
     (case sess of
        None \<Rightarrow> fail 401 ''unauthorized'' s
      | Some d \<Rightarrow>
      case body of
        None \<Rightarrow> fail 400 ''invalid request body'' s
      | Some name \<Rightarrow>
          if name = [] then fail 400 ''name is required'' s
          else if ft ''HandleCreateOrg: db.Begin'' \<or> ft ''HandleCreateOrg: insert organization'' then fail 500 ''internal service error'' s
          else case insert_org now name (tabs s) of
            None \<Rightarrow> fail 500 ''internal service error'' s
          | Some (orgID, T1) \<Rightarrow>
          if ft ''HandleCreateOrg: insert organization_members'' then fail 500 ''internal service error'' s
          else case insert_member now orgID (SessUserID d) ''admin'' None T1 of
            None \<Rightarrow> fail 500 ''internal service error'' s
          | Some T2 \<Rightarrow>
          if ft ''HandleCreateOrg: tx.Commit'' then fail 500 ''internal service error'' s
          else let k1 = (case cookie_value of Some old \<Rightarrow> snd (Delete api ft now old (store s)) | None \<Rightarrow> store s) in
               (case Create api ft now rnd st (d\<lparr>SessOrgID := orgID, SessRole := ''admin''\<rparr>) k1 of
                  (Inl e, k2) \<Rightarrow> fail 500 ''internal service error'' (s\<lparr>tabs := T2, store := k2\<rparr>)
                | (Inr token, k2) \<Rightarrow>
                    (reply 201 (OkBody (JObj [(''id'', JInt orgID), (''name'', JStr name), (''created_at'', JTime (pg_time now))])),
                     Some (SetSession token), s\<lparr>tabs := T2, store := k2\<rparr>)))"

subsection \<open>Preservation of integrity\<close>

lemma keeps_open_session [keeps_intro]: "I (tabs s) \<Longrightarrow> keeps I (open_session api ft now rnd st data code body s)"
  by (simp add: keeps_def open_session_def fail_def split: prod.splits sum.splits)

lemma update_user_ok:
  assumes "tables_ok T" and "\<And>u. usr_id (f u) = usr_id u" and "\<And>u. usr_email (f u) = usr_email u"
  shows "tables_ok (update_user uid f T)"
proof -
  have "map usr_id (users (update_user uid f T)) = map usr_id (users T)" "map usr_email (users (update_user uid f T)) = map usr_email (users T)"
    using assms(2,3) by (simp_all add: update_user_def)
  moreover have "usr_id ` set (users (update_user uid f T)) = usr_id ` set (users T)"
    using calculation(1) by (metis list.set_map)
  moreover have "(\<forall>r \<in> set (users (update_user uid f T)). usr_id r < n) \<longleftrightarrow> (\<forall>r \<in> set (users T). usr_id r < n)" for n
  proof -
    have im: "(\<forall>r \<in> set us. usr_id r < n) \<longleftrightarrow> (\<forall>i \<in> usr_id ` set us. i < n)" for us by simp
    show ?thesis by (simp only: im calculation(3))
  qed
  ultimately have "table_ok usr_email usr_id n (users (update_user uid f T)) \<longleftrightarrow> table_ok usr_email usr_id n (users T)" for n
    by (simp add: table_ok_def)
  then show ?thesis
    using assms(1) \<open>usr_id ` set (users (update_user uid f T)) = usr_id ` set (users T)\<close>
    by (simp add: tables_ok_def tables_ok_defs has_admin_def update_user_def)
qed

lemma HandleRegister_ok: "tables_ok (tabs s) \<Longrightarrow> keeps tables_ok (HandleRegister api bc ft now salt rnd st body s)"
  unfolding HandleRegister_def by (intro keeps_intro) (auto dest: insert_user_ok(1) intro: insert_org_member_ok)

lemma HandleLogin_keeps: "I (tabs s) \<Longrightarrow> keeps I (HandleLogin api bc ft now rnd st body s)"
  unfolding HandleLogin_def by (intro keeps_intro)

lemma HandleLogout_keeps: "I (tabs s) \<Longrightarrow> keeps I (HandleLogout api ft now c s)"
  unfolding HandleLogout_def by (auto simp: keeps_def split: option.splits)

lemma HandleMe_keeps: "I (tabs s) \<Longrightarrow> keeps I (HandleMe sess s)"
  unfolding HandleMe_def by (intro keeps_intro)

lemma HandlePatchMe_ok: "tables_ok (tabs s) \<Longrightarrow> keeps tables_ok (HandlePatchMe bc ft salt sess body s)"
  unfolding HandlePatchMe_def by (intro keeps_intro) (auto intro!: update_user_ok split: option.splits if_splits)

lemma HandleCreateOrg_ok: "tables_ok (tabs s) \<Longrightarrow> keeps tables_ok (HandleCreateOrg api ft now rnd st sess c body s)"
  unfolding HandleCreateOrg_def by (intro keeps_intro) (auto intro: insert_org_member_ok)

end
