(* ===== verification/Team.thy ===== *)
theory Team
  imports Accounts
begin

text \<open>
  Team management, \<^verbatim>\<open>services/query-api/handler/team.go\<close>: members, roles and
  invitations.  The two handlers that may take away an administrator are split into the check their
  transaction makes and the statement that follows it, because under the database's default
  isolation two transactions may both pass their checks before either writes
  (\<open>last_admin_write_skew\<close> below).

  \<open>mail.ParseAddress\<close> is a parameter; addresses are lower-cased byte by byte, which is
  \<open>strings.ToLower\<close> on ASCII.
\<close>

record ChangeRoleRequest =
  CR_Role :: string

record CreateInvitationRequest =
  CI_Email :: string
  CI_Role :: string

record AcceptInvitationRequest =
  AI_Name :: string
  AI_Password :: string

definition ToLower :: "string \<Rightarrow> string" where
  "ToLower = map (\<lambda>c. if 65 \<le> (of_char c :: nat) \<and> of_char c \<le> (90 :: nat) then char_of (of_char c + (32 :: nat)) else c)"

definition member_item :: "int \<Rightarrow> string \<Rightarrow> string \<Rightarrow> string \<Rightarrow> instant \<Rightarrow> jval" where
  "member_item uid name email role joined =
     JObj [(''id'', JInt uid), (''name'', JStr name), (''email'', JStr email), (''role'', JStr role), (''joined_at'', JTime joined)]"

definition invitation_item :: "string \<Rightarrow> string \<Rightarrow> string \<Rightarrow> instant \<Rightarrow> jval" where
  "invitation_item token email role expires =
     JObj [(''id'', JStr token), (''email'', JStr email), (''role'', JStr role), (''expires_at'', JTime expires)]"

definition data_of :: "jval \<Rightarrow> jval" where
  "data_of v = JObj [(''data'', v)]"

definition message :: "string \<Rightarrow> jval" where
  "message m = JObj [(''message'', JStr m)]"

definition HandleListMembers :: "faults \<Rightarrow> Data option \<Rightarrow> ('s, 'c) dash \<Rightarrow> ('s, 'c) handled" where
  "HandleListMembers ft sess s =
     (case sess of
        None \<Rightarrow> fail 401 ''unauthorized'' s
      | Some d \<Rightarrow>
          if ft ''list members: query'' \<or> ft ''list members: scan'' then fail 500 ''internal error'' s
          else done_ok 200 (data_of (JArr
            (concat (map (\<lambda>m. map (\<lambda>u. member_item (mem_user_id m) (usr_name u) (usr_email u) (mem_role m) (mem_joined_at m))
                                (filter (\<lambda>u. usr_id u = mem_user_id m) (users (tabs s))))
                         (sort_key mem_joined_at (filter (\<lambda>m. mem_org_id m = SessOrgID d) (members (tabs s)))))))) s)"

text \<open>What the transaction of a role change reads: \<open>Inl\<close> is the response that ends it.\<close>

definition change_role_check :: "faults \<Rightarrow> int \<Rightarrow> int \<Rightarrow> string \<Rightarrow> tables \<Rightarrow> (nat \<times> string) + unit" where
  "change_role_check ft org userID role T =
     (if ft ''change role: begin tx'' \<or> ft ''change role: query current role'' then Inl (500, ''internal error'')
      else case find_member T org userID of
        None \<Rightarrow> Inl (404, ''member not found'')
      | Some m \<Rightarrow>
          if mem_role m = ''admin'' \<and> role = ''member'' then
            (if ft ''change role: count admins'' then Inl (500, ''internal error'')
             else if adminCount T org = 1 then Inl (409, ''cannot remove last admin'') else Inr ())
          else Inr ())"

definition set_role :: "int \<Rightarrow> int \<Rightarrow> string \<Rightarrow> tables \<Rightarrow> tables" where
  "set_role org userID role T =
     T\<lparr>members := map (\<lambda>m. if mem_org_id m = org \<and> mem_user_id m = userID then m\<lparr>mem_role := role\<rparr> else m) (members T)\<rparr>"

definition HandleChangeRole :: "faults \<Rightarrow> Data option \<Rightarrow> string \<Rightarrow> ChangeRoleRequest option \<Rightarrow> ('s, 'c) dash \<Rightarrow> ('s, 'c) handled" where
  "HandleChangeRole ft sess userParam body s =
     (case requireAdmin sess of
        Some r \<Rightarrow> (r, None, s)
      | None \<Rightarrow>
      case ParseInt userParam of
        None \<Rightarrow> fail 400 ''invalid userId'' s
      | Some userID \<Rightarrow>
      case body of
        None \<Rightarrow> fail 400 ''invalid JSON'' s
      | Some req \<Rightarrow>
          if CR_Role req \<noteq> ''admin'' \<and> CR_Role req \<noteq> ''member''
          then fail 400 (''role must be '' @ CHR 0x27 # ''admin'' @ CHR 0x27 # '' or '' @ CHR 0x27 # ''member'' @ [CHR 0x27]) s
          else let org = SessOrgID (the sess) in
          (case change_role_check ft org userID (CR_Role req) (tabs s) of
             Inl (code, msg) \<Rightarrow> fail code msg s
           | Inr _ \<Rightarrow>
               if ft ''change role: update'' \<or> ft ''change role: commit'' then fail 500 ''internal error'' s
               else let s' = s\<lparr>tabs := set_role org userID (CR_Role req) (tabs s)\<rparr> in
               (case (find_member (tabs s') org userID, find_user (tabs s') userID) of
                  (Some m, Some u) \<Rightarrow>
                    if ft ''change role: fetch updated member'' then fail 500 ''internal error'' s'
                    else done_ok 200 (data_of (member_item userID (usr_name u) (usr_email u) (CR_Role req) (mem_joined_at m))) s'
                | _ \<Rightarrow> fail 500 ''internal error'' s')))"

definition remove_check :: "faults \<Rightarrow> int \<Rightarrow> int \<Rightarrow> tables \<Rightarrow> (nat \<times> string) + unit" where
  "remove_check ft org userID T =
     (if ft ''remove member: begin tx'' \<or> ft ''remove member: query role'' then Inl (500, ''internal error'')
      else case find_member T org userID of
        None \<Rightarrow> Inl (404, ''member not found'')
      | Some m \<Rightarrow>
          if mem_role m = ''admin'' then
            (if ft ''remove member: count admins'' then Inl (500, ''internal error'')
             else if adminCount T org = 1 then Inl (409, ''cannot remove last admin'') else Inr ())
          else Inr ())"

definition delete_member :: "int \<Rightarrow> int \<Rightarrow> tables \<Rightarrow> tables" where
  "delete_member org userID T =
     T\<lparr>members := filter (\<lambda>m. \<not> (mem_org_id m = org \<and> mem_user_id m = userID)) (members T)\<rparr>"

definition HandleRemoveMember :: "faults \<Rightarrow> Data option \<Rightarrow> string \<Rightarrow> ('s, 'c) dash \<Rightarrow> ('s, 'c) handled" where
  "HandleRemoveMember ft sess userParam s =
     (case requireAdmin sess of
        Some r \<Rightarrow> (r, None, s)
      | None \<Rightarrow>
      case ParseInt userParam of
        None \<Rightarrow> fail 400 ''invalid userId'' s
      | Some userID \<Rightarrow>
          let org = SessOrgID (the sess) in
          (case remove_check ft org userID (tabs s) of
             Inl (code, msg) \<Rightarrow> fail code msg s
           | Inr _ \<Rightarrow>
               if ft ''remove member: delete'' \<or> ft ''remove member: commit'' then fail 500 ''internal error'' s
               else done_ok 200 (message ''member removed'') (s\<lparr>tabs := delete_member org userID (tabs s)\<rparr>)))"

definition inviteTTL :: int where
  "inviteTTL = 7 * 24 * 3600 * 1000000000"

definition HandleCreateInvitation ::
  "(string \<Rightarrow> bool) \<Rightarrow> faults \<Rightarrow> instant \<Rightarrow> string \<Rightarrow> Data option \<Rightarrow> CreateInvitationRequest option \<Rightarrow> ('s, 'c) dash \<Rightarrow> ('s, 'c) handled" where
  "HandleCreateInvitation parse_address ft now rnd sess body s =
     (case requireAdmin sess of
        Some r \<Rightarrow> (r, None, s)
      | None \<Rightarrow>
      case body of
        None \<Rightarrow> fail 400 ''invalid JSON'' s
      | Some req \<Rightarrow>
          if CI_Email req = [] then fail 400 ''email is required'' s
          else if \<not> parse_address (CI_Email req) then fail 400 ''invalid email address'' s
          else if CI_Role req \<noteq> ''admin'' \<and> CI_Role req \<noteq> ''member''
          then fail 400 (''role must be '' @ CHR 0x27 # ''admin'' @ CHR 0x27 # '' or '' @ CHR 0x27 # ''member'' @ [CHR 0x27]) s
          else let d = the sess; email = ToLower (CI_Email req); T = tabs s in
          if ft ''create invitation: check existing member'' \<or> \<not> pg_text email then fail 500 ''internal error'' s
          else if (\<exists>m \<in> set (members T). mem_org_id m = SessOrgID d \<and>
                    (\<exists>u \<in> set (users T). usr_id u = mem_user_id m \<and> ToLower (usr_email u) = ToLower email))
          then fail 409 ''email already a member'' s
          else if ft ''create invitation: generate token'' then fail 500 ''internal error'' s
          else let token = hex_EncodeToString rnd; expiresAt = now + inviteTTL in
          if ft ''create invitation: insert'' \<or> token \<in> inv_token ` set (invitations T)
             \<or> SessOrgID d \<notin> org_id ` set (organizations T) \<or> SessUserID d \<notin> usr_id ` set (users T)
          then fail 500 ''internal error'' s
          else done_ok 201 (data_of (invitation_item token email (CI_Role req) expiresAt))
                 (s\<lparr>tabs := T\<lparr>invitations := invitations T @
                    [\<lparr>inv_token = token, inv_org_id = SessOrgID d, inv_email = email, inv_role = CI_Role req,
                      inv_invited_by = Some (SessUserID d), inv_expires_at = pg_time expiresAt, inv_accepted_at = None\<rparr>]\<rparr>\<rparr>))"

definition pending :: "instant \<Rightarrow> int \<Rightarrow> invitation_row \<Rightarrow> bool" where
  "pending now org i \<longleftrightarrow> inv_org_id i = org \<and> inv_accepted_at i = None \<and> inv_expires_at i > pg_time now"

definition HandleListInvitations :: "faults \<Rightarrow> instant \<Rightarrow> Data option \<Rightarrow> ('s, 'c) dash \<Rightarrow> ('s, 'c) handled" where
  "HandleListInvitations ft now sess s =
     (case requireAdmin sess of
        Some r \<Rightarrow> (r, None, s)
      | None \<Rightarrow>
          if ft ''list invitations: query'' \<or> ft ''list invitations: scan'' then fail 500 ''internal error'' s
          else done_ok 200 (data_of (JArr
            (map (\<lambda>i. invitation_item (inv_token i) (inv_email i) (inv_role i) (inv_expires_at i))
                 (sort_key inv_expires_at (filter (pending now (SessOrgID (the sess))) (invitations (tabs s))))))) s)"

definition HandleRevokeInvitation :: "faults \<Rightarrow> Data option \<Rightarrow> string \<Rightarrow> ('s, 'c) dash \<Rightarrow> ('s, 'c) handled" where
  "HandleRevokeInvitation ft sess token s =
     (case requireAdmin sess of
        Some r \<Rightarrow> (r, None, s)
      | None \<Rightarrow>
          if token = [] then fail 400 ''token is required'' s
          else if ft ''revoke invitation: delete'' \<or> \<not> pg_text token then fail 500 ''internal error'' s
          else let T = tabs s; hit = (\<lambda>i. inv_token i = token \<and> inv_org_id i = SessOrgID (the sess)) in
          if filter hit (invitations T) = [] then fail 404 ''invitation not found'' s
          else done_ok 200 (message ''invitation revoked'')
                 (s\<lparr>tabs := T\<lparr>invitations := filter (\<lambda>i. \<not> hit i) (invitations T)\<rparr>\<rparr>))"

definition insert_or_find_user :: "string \<Rightarrow> string \<Rightarrow> string \<Rightarrow> tables \<Rightarrow> (int \<times> tables) option" where
  "insert_or_find_user email name hash T =
     (case List.find (\<lambda>u. usr_email u = email) (users T) of
        Some u \<Rightarrow> if \<not> pg_text name then None else Some (usr_id u, T)
      | None \<Rightarrow> insert_user email name hash T)"

definition insert_member_if_new :: "instant \<Rightarrow> int \<Rightarrow> int \<Rightarrow> string \<Rightarrow> int option \<Rightarrow> tables \<Rightarrow> tables option" where
  "insert_member_if_new now org user role invited_by T =
     (if (org, user) \<in> (\<lambda>m. (mem_org_id m, mem_user_id m)) ` set (members T) then Some T
      else insert_member now org user role invited_by T)"

definition mark_accepted :: "instant \<Rightarrow> string \<Rightarrow> tables \<Rightarrow> tables" where
  "mark_accepted now token T =
     T\<lparr>invitations := map (\<lambda>i. if inv_token i = token then i\<lparr>inv_accepted_at := Some (pg_time now)\<rparr> else i) (invitations T)\<rparr>"

definition HandleAcceptInvitation ::
  "('s, Data) kv_api \<Rightarrow> bcrypt \<Rightarrow> faults \<Rightarrow> instant \<Rightarrow> string \<Rightarrow> string \<Rightarrow> Store \<Rightarrow> string \<Rightarrow> AcceptInvitationRequest option
     \<Rightarrow> ('s, 'c) dash \<Rightarrow> ('s, 'c) handled" where
  "HandleAcceptInvitation api bc ft now salt rnd st token body s =
     (if token = [] then fail 400 ''token is required'' s
      else case body of
        None \<Rightarrow> fail 400 ''invalid JSON'' s
      | Some req \<Rightarrow>
          if AI_Name req = [] \<or> AI_Password req = [] then fail 400 ''name and password are required'' s
          else if length (AI_Password req) < 8 then fail 400 ''password must be at least 8 characters'' s
          else if ft ''accept invitation: begin tx'' \<or> ft ''accept invitation: query'' \<or> \<not> pg_text token then fail 500 ''internal error'' s
          else case List.find (\<lambda>i. inv_token i = token) (invitations (tabs s)) of
            None \<Rightarrow> fail 404 ''invitation not found'' s
          | Some i \<Rightarrow>
          if inv_expires_at i < now then fail 410 ''invitation expired'' s
          else if inv_accepted_at i \<noteq> None then fail 409 ''invitation already accepted'' s
          else case GenerateFromPassword bc salt (AI_Password req) of
            None \<Rightarrow> fail 500 ''internal error'' s
          | Some hash \<Rightarrow>
          if ft ''accept invitation: insert user'' then fail 500 ''internal error'' s
          else case insert_or_find_user (inv_email i) (AI_Name req) hash (tabs s) of
            None \<Rightarrow> fail 500 ''internal error'' s
          | Some (userID, T1) \<Rightarrow>
          if ft ''accept invitation: insert org member'' then fail 500 ''internal error'' s
          else case insert_member_if_new now (inv_org_id i) userID (inv_role i) (inv_invited_by i) T1 of
            None \<Rightarrow> fail 500 ''internal error'' s
          | Some T2 \<Rightarrow>
          if ft ''accept invitation: mark accepted'' \<or> ft ''accept invitation: commit'' then fail 500 ''internal error'' s
          else open_session api ft now rnd st
                 \<lparr>SessUserID = userID, SessOrgID = inv_org_id i, SessRole = inv_role i, SessEmail = inv_email i, SessName = AI_Name req\<rparr>
                 201 (data_of (member_item userID (AI_Name req) (inv_email i) (inv_role i) (- 62135596800 * 1000000000)))
                 (s\<lparr>tabs := mark_accepted now token T2\<rparr>))"

subsection \<open>Preservation of integrity\<close>

lemma member_unique:
  assumes "tables_ok T" and "m \<in> set (members T)" and "m' \<in> set (members T)"
    and "mem_org_id m = mem_org_id m'" and "mem_user_id m = mem_user_id m'"
  shows "m = m'"
  using assms by (auto simp: tables_ok_def accounts_ok_def distinct_map dest: inj_onD)

lemma find_memberD: "find_member T org uid = Some m \<Longrightarrow> m \<in> set (members T) \<and> mem_org_id m = org \<and> mem_user_id m = uid"
  by (auto simp: find_member_def dest: find_SomeD)

text \<open>An administrator who is not the only one has a colleague.\<close>

lemma other_admin:
  assumes "tables_ok T" and m: "m \<in> set (members T)" "mem_role m = ''admin''" and "adminCount T (mem_org_id m) \<noteq> 1"
  shows "\<exists>m' \<in> set (members T). mem_org_id m' = mem_org_id m \<and> mem_role m' = ''admin'' \<and> mem_user_id m' \<noteq> mem_user_id m"
proof -
  let ?xs = "filter (\<lambda>m'. mem_org_id m' = mem_org_id m \<and> mem_role m' = ''admin'') (members T)"
  have d: "distinct ?xs" using assms(1) by (auto simp: tables_ok_def accounts_ok_def distinct_map)
  have "m \<in> set ?xs" using m by simp
  moreover have "length ?xs \<noteq> 1" using assms(4) by (simp add: adminCount_def)
  ultimately have "set ?xs \<noteq> {m}" using distinct_card [OF d] by auto
  then have "\<not> set ?xs \<subseteq> {m}" using \<open>m \<in> set ?xs\<close> by blast
  then obtain m' where "m' \<in> set ?xs" "m' \<noteq> m" by blast
  then show ?thesis using member_unique [OF assms(1), of m' m] m by auto
qed

text \<open>Changing the members keeps the tables sound when keys and references stay and every
  organization keeps an administrator.\<close>

lemma members_ok:
  assumes "tables_ok T" and "distinct (map (\<lambda>m. (mem_org_id m, mem_user_id m)) ms)"
    and "mem_org_id ` set ms \<subseteq> mem_org_id ` set (members T)" and "mem_user_id ` set ms \<subseteq> mem_user_id ` set (members T)"
    and "mem_role ` set ms \<subseteq> roles" and "\<And>g. has_admin T g \<Longrightarrow> \<exists>m \<in> set ms. mem_org_id m = g \<and> mem_role m = ''admin''"
  shows "tables_ok (T\<lparr>members := ms\<rparr>)"
  using assms by (simp add: tables_ok_def tables_ok_defs has_admin_def subset_trans)

lemma set_role_ok:
  assumes "tables_ok T" and "role \<in> roles" and "change_role_check ft org uid role T = Inr ()"
  shows "tables_ok (set_role org uid role T)"
  unfolding set_role_def
proof (rule members_ok [OF assms(1)])
  let ?f = "\<lambda>m. if mem_org_id m = org \<and> mem_user_id m = uid then m\<lparr>mem_role := role\<rparr> else m"
  have keys: "map (\<lambda>m. (mem_org_id m, mem_user_id m)) (map ?f (members T)) = map (\<lambda>m. (mem_org_id m, mem_user_id m)) (members T)"
    by simp
  show "distinct (map (\<lambda>m. (mem_org_id m, mem_user_id m)) (map ?f (members T)))"
    unfolding keys using assms(1) by (simp add: tables_ok_def accounts_ok_def)
  show "mem_org_id ` set (map ?f (members T)) \<subseteq> mem_org_id ` set (members T)"
    "mem_user_id ` set (map ?f (members T)) \<subseteq> mem_user_id ` set (members T)" by auto
  show "mem_role ` set (map ?f (members T)) \<subseteq> roles"
    using assms(1,2) by (auto simp: tables_ok_def accounts_ok_def)
  fix g assume "has_admin T g"
  then obtain a where a: "a \<in> set (members T)" "mem_org_id a = g" "mem_role a = ''admin''" by (auto simp: has_admin_def)
  show "\<exists>m \<in> set (map ?f (members T)). mem_org_id m = g \<and> mem_role m = ''admin''"
  proof (cases "mem_org_id a = org \<and> mem_user_id a = uid \<and> role \<noteq> ''admin''")
    case False
    then have adm: "mem_org_id (?f a) = g \<and> mem_role (?f a) = ''admin''" using a by auto
    have "?f a \<in> set (map ?f (members T))" unfolding set_map by (rule imageI [OF a(1)])
    with adm show ?thesis by (rule bexI)
  next
    case True
    have "find_member T org uid = Some a"
    proof -
      obtain m where m: "find_member T org uid = Some m" using assms(3) by (cases "find_member T org uid") (auto simp: change_role_check_def split: if_splits)
      then show ?thesis using find_memberD [OF m] member_unique [OF assms(1), of m a] a True by auto
    qed
    then have "adminCount T org \<noteq> 1"
      using assms(2,3) a True by (auto simp: change_role_check_def roles_def split: if_splits)
    then obtain b where b: "b \<in> set (members T)" "mem_org_id b = org" "mem_role b = ''admin''" "mem_user_id b \<noteq> uid"
      using other_admin [OF assms(1) a(1,3)] True by auto
    then have adm: "mem_org_id (?f b) = g \<and> mem_role (?f b) = ''admin''" using True a(2) by auto
    have "?f b \<in> set (map ?f (members T))" unfolding set_map by (rule imageI [OF b(1)])
    with adm show ?thesis by (rule bexI)
  qed
qed

lemma delete_member_ok:
  assumes "tables_ok T" and "remove_check ft org uid T = Inr ()"
  shows "tables_ok (delete_member org uid T)"
  unfolding delete_member_def
proof (rule members_ok [OF assms(1)])
  let ?ms = "filter (\<lambda>m. \<not> (mem_org_id m = org \<and> mem_user_id m = uid)) (members T)"
  show "distinct (map (\<lambda>m. (mem_org_id m, mem_user_id m)) ?ms)" "mem_role ` set ?ms \<subseteq> roles"
    using assms(1) by (auto simp: tables_ok_def accounts_ok_def distinct_map_filter)
  show "mem_org_id ` set ?ms \<subseteq> mem_org_id ` set (members T)" "mem_user_id ` set ?ms \<subseteq> mem_user_id ` set (members T)" by auto
  fix g assume "has_admin T g"
  then obtain a where a: "a \<in> set (members T)" "mem_org_id a = g" "mem_role a = ''admin''" by (auto simp: has_admin_def)
  show "\<exists>m \<in> set ?ms. mem_org_id m = g \<and> mem_role m = ''admin''"
  proof (cases "mem_org_id a = org \<and> mem_user_id a = uid")
    case True
    obtain m where m: "find_member T org uid = Some m"
      using assms(2) by (cases "find_member T org uid") (auto simp: remove_check_def split: if_splits)
    then have "m = a" using find_memberD [OF m] member_unique [OF assms(1), of m a] a True by auto
    then have "adminCount T org \<noteq> 1" using assms(2) m a by (auto simp: remove_check_def split: if_splits)
    then show ?thesis using other_admin [OF assms(1) a(1,3)] True a(2) by auto
  qed (use a in auto)
qed

lemma HandleListMembers_keeps: "I (tabs s) \<Longrightarrow> keeps I (HandleListMembers ft sess s)"
  unfolding HandleListMembers_def by (intro keeps_intro)

lemma HandleListInvitations_keeps: "I (tabs s) \<Longrightarrow> keeps I (HandleListInvitations ft now sess s)"
  unfolding HandleListInvitations_def by (intro keeps_intro)

lemma HandleChangeRole_ok: "tables_ok (tabs s) \<Longrightarrow> keeps tables_ok (HandleChangeRole ft sess p body s)"
  unfolding HandleChangeRole_def by (intro keeps_intro) (auto intro!: set_role_ok simp: roles_def)

lemma HandleRemoveMember_ok: "tables_ok (tabs s) \<Longrightarrow> keeps tables_ok (HandleRemoveMember ft sess p s)"
  unfolding HandleRemoveMember_def by (intro keeps_intro) (auto intro!: delete_member_ok)

text \<open>Changing the invitations keeps the tables sound when tokens stay distinct and organization
  and role of every invitation are valid.\<close>

lemma change_invitations_ok:
  assumes "tables_ok T" and "distinct (map inv_token is)" and "inv_org_id ` set is \<subseteq> org_id ` set (organizations T)"
    and "inv_role ` set is \<subseteq> roles"
  shows "tables_ok (T\<lparr>invitations := is\<rparr>)"
  using assms by (simp add: tables_ok_def tables_ok_defs has_admin_def)

lemma new_invitation_ok:
  assumes "tables_ok T" and "inv_token i \<notin> inv_token ` set (invitations T)" and "inv_org_id i \<in> org_id ` set (organizations T)"
    and "inv_role i \<in> roles"
  shows "tables_ok (T\<lparr>invitations := invitations T @ [i]\<rparr>)"
  using assms by (simp add: tables_ok_def tables_ok_defs has_admin_def)

lemma filter_invitations_ok: "tables_ok T \<Longrightarrow> tables_ok (T\<lparr>invitations := filter P (invitations T)\<rparr>)"
  by (rule change_invitations_ok) (auto simp: tables_ok_def invitations_ok_def distinct_map_filter)

lemma HandleCreateInvitation_ok: "tables_ok (tabs s) \<Longrightarrow> keeps tables_ok (HandleCreateInvitation pa ft now rnd sess body s)"
  unfolding HandleCreateInvitation_def
  by (intro keeps_intro) (auto intro!: new_invitation_ok simp: roles_def)

lemma HandleRevokeInvitation_ok: "tables_ok (tabs s) \<Longrightarrow> keeps tables_ok (HandleRevokeInvitation ft sess token s)"
  unfolding HandleRevokeInvitation_def
  by (intro keeps_intro) (simp_all add: filter_invitations_ok)

lemma mark_accepted_ok: "tables_ok T \<Longrightarrow> tables_ok (mark_accepted now token T)"
proof -
  assume ok: "tables_ok T"
  let ?f = "\<lambda>i. if inv_token i = token then i\<lparr>inv_accepted_at := Some (pg_time now)\<rparr> else i"
  have keys: "map inv_token (map ?f is) = map inv_token is" "inv_org_id ` set (map ?f is) = inv_org_id ` set is"
    "inv_role ` set (map ?f is) = inv_role ` set is" for "is"
    unfolding set_map image_image by (auto intro!: image_cong)
  show ?thesis unfolding mark_accepted_def
    by (intro change_invitations_ok [OF ok]; unfold keys) (use ok in \<open>simp_all add: tables_ok_def invitations_ok_def\<close>)
qed

text \<open>The three statements of an acceptance.\<close>

lemma accepted_ok:
  assumes "tables_ok T" and i: "List.find (\<lambda>i. inv_token i = token) (invitations T) = Some i"
    and u: "insert_or_find_user email name hash T = Some (uid, T1)"
    and m: "insert_member_if_new now org uid (inv_role i) by' T1 = Some T2"
  shows "tables_ok (mark_accepted now token T2)"
proof -
  have "inv_role i \<in> roles" using find_SomeD [OF i] assms(1) by (auto simp: tables_ok_def invitations_ok_def)
  moreover have "tables_ok T1"
    using u assms(1) insert_user_ok(1) [OF assms(1)] by (auto simp: insert_or_find_user_def split: option.splits if_splits)
  ultimately show ?thesis using m insert_member_ok mark_accepted_ok by (auto simp: insert_member_if_new_def split: if_splits)
qed

lemma HandleAcceptInvitation_ok:
  "tables_ok (tabs s) \<Longrightarrow> keeps tables_ok (HandleAcceptInvitation api bc ft now salt rnd st token body s)"
  unfolding HandleAcceptInvitation_def by (intro keeps_intro) (auto intro: accepted_ok)

subsection \<open>Properties\<close>

lemma find_map_image:
  assumes "\<And>x. P (f x) \<longleftrightarrow> P x"
  shows "List.find P (map f xs) = map_option f (List.find P xs)"
  using assms by (induction xs) auto

lemma find_member_set_role:
  "find_member (set_role g b r T) g a = map_option (\<lambda>m. if mem_org_id m = g \<and> mem_user_id m = b then m\<lparr>mem_role := r\<rparr> else m) (find_member T g a)"
  unfolding find_member_def set_role_def by (simp add: find_map_image)

definition admins :: "tables \<Rightarrow> int \<Rightarrow> member_row list" where
  "admins T g = filter (\<lambda>m. mem_org_id m = g \<and> mem_role m = ''admin'') (members T)"

lemma admins_set_role: "admins (set_role g a ''member'' T) g = filter (\<lambda>m. mem_user_id m \<noteq> a) (admins T g)"
proof -
  have "filter (\<lambda>m. mem_org_id m = g \<and> mem_role m = ''admin'')
      (map (\<lambda>m. if mem_org_id m = g \<and> mem_user_id m = a then m\<lparr>mem_role := ''member''\<rparr> else m) ms)
    = filter (\<lambda>m. mem_user_id m \<noteq> a) (filter (\<lambda>m. mem_org_id m = g \<and> mem_role m = ''admin'') ms)" for ms
    by (induction ms) auto
  then show ?thesis by (simp add: admins_def set_role_def)
qed

lemma two_admins:
  assumes "tables_ok T" and "adminCount T g = 2" and "a \<noteq> b"
    and "find_member T g a = Some ma" "mem_role ma = ''admin''" and "find_member T g b = Some mb" "mem_role mb = ''admin''"
  shows "set (admins T g) = {ma, mb}" and "distinct (admins T g)"
proof -
  show d: "distinct (admins T g)" using assms(1) by (auto simp: admins_def tables_ok_def accounts_ok_def distinct_map)
  have "ma \<noteq> mb" "{ma, mb} \<subseteq> set (admins T g)"
    using assms(3,5,7) find_memberD [OF assms(4)] find_memberD [OF assms(6)] by (auto simp: admins_def)
  moreover have "card (set (admins T g)) = 2" using assms(2) distinct_card [OF d] by (simp add: adminCount_def admins_def)
  ultimately show "set (admins T g) = {ma, mb}" by (intro card_subset_eq [symmetric]) auto
qed

text \<open>(C30) The last administrator, one transaction after the other and interleaved.  With exactly two
  administrators in an organization, demoting both one after the other is refused for the second
  with 409.  But each transaction first counts and then writes, and nothing locks the rows it
  counted: when both have counted before either writes, both checks pass and the organization is
  left without an administrator.\<close>
theorem last_admin_write_skew:
  assumes "tables_ok T" and "adminCount T g = 2" and "a \<noteq> b"
    and "find_member T g a = Some ma" "mem_role ma = ''admin''" and "find_member T g b = Some mb" "mem_role mb = ''admin''"
  shows "change_role_check (\<lambda>_. False) g a ''member'' T = Inr ()
       \<and> change_role_check (\<lambda>_. False) g b ''member'' (set_role g a ''member'' T) = Inl (409, ''cannot remove last admin'')
       \<and> change_role_check (\<lambda>_. False) g b ''member'' T = Inr ()
       \<and> \<not> has_admin (set_role g b ''member'' (set_role g a ''member'' T)) g"
proof -
  note m = find_memberD [OF assms(4)] find_memberD [OF assms(6)] and two = two_admins [OF assms]
  have b: "find_member (set_role g a ''member'' T) g b = Some mb" using assms(3,6) m by (simp add: find_member_set_role)
  have "set (admins (set_role g a ''member'' T) g) = {mb}" using two(1) m assms(3) by (auto simp: admins_set_role)
  moreover have "distinct (admins (set_role g a ''member'' T) g)" using two(2) by (simp add: admins_set_role)
  ultimately have "adminCount (set_role g a ''member'' T) g = 1"
    using distinct_card [of "admins (set_role g a ''member'' T) g"] by (simp add: adminCount_def admins_def)
  moreover have "admins (set_role g b ''member'' (set_role g a ''member'' T)) g = []"
    using two(1) m by (auto simp: admins_set_role filter_empty_conv)
  then have "\<not> has_admin (set_role g b ''member'' (set_role g a ''member'' T)) g"
    by (auto simp: admins_def has_admin_def filter_empty_conv)
  ultimately show ?thesis using assms b by (simp add: change_role_check_def)
qed

definition two_admin_tables :: tables where
  "two_admin_tables = empty_tables\<lparr>users := [\<lparr>usr_id = 1, usr_email = ''a@x'', usr_name = ''A'', usr_password_hash = ''h''\<rparr>,
       \<lparr>usr_id = 2, usr_email = ''b@x'', usr_name = ''B'', usr_password_hash = ''h''\<rparr>], next_user := 3,
     organizations := [\<lparr>org_id = 1, org_name = ''O'', org_created_at = 0\<rparr>], next_org := 2,
     members := [\<lparr>mem_org_id = 1, mem_user_id = 1, mem_role = ''admin'', mem_invited_by = None, mem_joined_at = 0\<rparr>,
       \<lparr>mem_org_id = 1, mem_user_id = 2, mem_role = ''admin'', mem_invited_by = Some 1, mem_joined_at = 0\<rparr>],
     invitations := [\<lparr>inv_token = ''t'', inv_org_id = 1, inv_email = ''a@x'', inv_role = ''member'', inv_invited_by = Some 2,
       inv_expires_at = 100, inv_accepted_at = None\<rparr>]\<rparr>"

lemma two_admin_tables_ok: "tables_ok two_admin_tables"
  by (simp add: two_admin_tables_def tables_ok_def tables_ok_defs table_ok_def has_admin_def roles_def empty_tables_def empty_db_def)

theorem last_admin_write_skew_witness:
  "\<not> has_admin (set_role 1 2 ''member'' (set_role 1 1 ''member'' two_admin_tables)) 1"
proof -
  have "adminCount two_admin_tables 1 = 2" by (simp add: adminCount_def two_admin_tables_def)
  moreover have "find_member two_admin_tables 1 1 = Some (members two_admin_tables ! 0)" "find_member two_admin_tables 1 2 = Some (members two_admin_tables ! 1)"
    "mem_role (members two_admin_tables ! 0) = ''admin''" "mem_role (members two_admin_tables ! 1) = ''admin''"
    by (simp_all add: find_member_def two_admin_tables_def)
  ultimately show ?thesis using last_admin_write_skew [OF two_admin_tables_ok, of 1 1 2] by simp
qed

lemma find_by_key:
  assumes "distinct (map key xs)" and "x \<in> set xs" and "P x" and "\<And>y. P y \<Longrightarrow> key y = key x"
  shows "List.find P xs = Some x"
proof (cases "List.find P xs")
  case None
  then show ?thesis using find_NoneD [OF None assms(2)] assms(3) by simp
next
  case (Some y)
  have "y = x"
    using assms(1,2) find_SomeD [OF Some] assms(4) [of y] by (intro inj_onD [of key "set xs"]) (simp_all add: distinct_map)
  then show ?thesis by (simp add: Some)
qed

lemma user_by_email:
  assumes "tables_ok T" and "u \<in> set (users T)"
  shows "List.find (\<lambda>v. usr_email v = usr_email u) (users T) = Some u"
  using assms by (intro find_by_key [where key = usr_email]) (auto simp: tables_ok_def accounts_ok_def table_ok_def)

lemma insert_member_if_new_there:
  assumes "g \<in> org_id ` set (organizations T)" and "uid \<in> usr_id ` set (users T)"
  obtains T' where "insert_member_if_new now g uid role by' T = Some T'" "users T' = users T"
    "\<exists>m \<in> set (members T'). mem_org_id m = g \<and> mem_user_id m = uid"
proof (cases "(g, uid) \<in> (\<lambda>m. (mem_org_id m, mem_user_id m)) ` set (members T)")
  case True
  then show ?thesis by (intro that [of T]) (auto simp: insert_member_if_new_def)
next
  case False
  then show ?thesis using assms that by (simp add: insert_member_if_new_def insert_member_def)
qed

text \<open>A member logs in with his e-mail and a password that matches his hash.\<close>

lemma login_row_member:
  assumes "tables_ok T" and "u \<in> set (users T)" and "m \<in> set (members T)" "mem_user_id m = usr_id u"
  obtains m' where "login_row T (usr_email u) = Some (u, m')"
proof -
  have "List.find (\<lambda>v. usr_email v = usr_email u \<and> (\<exists>m \<in> set (members T). mem_user_id m = usr_id v)) (users T) = Some u"
    using assms by (intro find_by_key [where key = usr_email]) (auto simp: tables_ok_def accounts_ok_def table_ok_def)
  moreover obtain m' where "List.find (\<lambda>m. mem_user_id m = usr_id u) (members T) = Some m'"
    using assms(3,4) by (cases "List.find (\<lambda>m. mem_user_id m = usr_id u) (members T)") (auto simp: find_None_iff)
  ultimately show ?thesis using that by (simp add: login_row_def)
qed

lemma HandleLogin_member:
  assumes "login_row (tabs s) e = Some (u, m)" and "CompareHashAndPassword bc (usr_password_hash u) pw"
  shows "status (fst (HandleLogin api bc (\<lambda>_. False) now rnd st (Some \<lparr>Log_Email = e, Log_Password = pw\<rparr>) s)) = 200"
    and "rbody (fst (HandleLogin api bc (\<lambda>_. False) now rnd st (Some \<lparr>Log_Email = e, Log_Password = pw\<rparr>) s)) = OkBody (me (usr_id u) e (usr_name u) (mem_role m))"
  using assms by (simp_all add: HandleLogin_def open_session_def Create_def generateToken_def)

text \<open>(C31) An invitation opens the account it names.  Whoever holds the token of a pending invitation
  whose e-mail belongs to an existing user is logged in as that user, whatever password he sends (it
  is not compared with the user's); with the session he can set the password of the account, and
  log in with it from then on.\<close>
theorem invitation_takeover:
  assumes "tables_ok (tabs s)" and "bcrypt_ok bc" and "GenerateFromPassword bc salt pw = Some h" and "8 \<le> length pw"
    and i: "List.find (\<lambda>i. inv_token i = token) (invitations (tabs s)) = Some i" "now \<le> inv_expires_at i" "inv_accepted_at i = None"
    and u: "u \<in> set (users (tabs s))" "usr_email u = inv_email i"
    and req: "token \<noteq> []" "pg_text token" "name \<noteq> []" "pg_text name"
  shows "let nf = (\<lambda>_. False);
             d = \<lparr>SessUserID = usr_id u, SessOrgID = inv_org_id i, SessRole = inv_role i, SessEmail = inv_email i, SessName = name\<rparr>;
             (r1, ck1, s1) = HandleAcceptInvitation api bc nf now salt rnd st token (Some \<lparr>AI_Name = name, AI_Password = pw\<rparr>) s;
             (r2, ck2, s2) = HandlePatchMe bc nf salt (Some d) (Some \<lparr>Patch_Name = None, Patch_Password = Some pw\<rparr>) s1;
             (r3, ck3, s3) = HandleLogin api bc nf now rnd st (Some \<lparr>Log_Email = usr_email u, Log_Password = pw\<rparr>) s2 in
         status r1 = 201 \<and> ck1 = Some (SetSession (hex_EncodeToString rnd))
       \<and> store s1 = SET api (store s) now (session_key (hex_EncodeToString rnd)) d (ttl st) \<and> users (tabs s1) = users (tabs s)
       \<and> status r2 = 200 \<and> status r3 = 200 \<and> (\<exists>role. rbody r3 = OkBody (me (usr_id u) (usr_email u) (usr_name u) role))"
proof -
  let ?nf = "\<lambda>_. False" and ?T = "tabs s" and ?tok = "hex_EncodeToString rnd"
  let ?d = "\<lparr>SessUserID = usr_id u, SessOrgID = inv_org_id i, SessRole = inv_role i, SessEmail = inv_email i, SessName = name\<rparr>"
  have pw: "pw \<noteq> []" using assms(4) by auto
  have "inv_org_id i \<in> org_id ` set (organizations ?T)"
    using assms(1) find_SomeD [OF i(1)] by (auto simp: tables_ok_def invitations_ok_def)
  moreover have "usr_id u \<in> usr_id ` set (users ?T)" using u(1) by simp
  ultimately obtain T2 where T2: "insert_member_if_new now (inv_org_id i) (usr_id u) (inv_role i) (inv_invited_by i) ?T = Some T2"
    "users T2 = users ?T" "\<exists>m \<in> set (members T2). mem_org_id m = inv_org_id i \<and> mem_user_id m = usr_id u"
    by (rule insert_member_if_new_there)
  have f: "insert_or_find_user (inv_email i) name h ?T = Some (usr_id u, ?T)"
    using user_by_email [OF assms(1) u(1)] u(2) req(4) by (simp add: insert_or_find_user_def)
  define s1 where "s1 = s\<lparr>tabs := mark_accepted now token T2, store := SET api (store s) now (session_key ?tok) ?d (ttl st)\<rparr>"
  have 1: "HandleAcceptInvitation api bc ?nf now salt rnd st token (Some \<lparr>AI_Name = name, AI_Password = pw\<rparr>) s
      = (reply 201 (OkBody (data_of (member_item (usr_id u) name (inv_email i) (inv_role i) (- 62135596800 * 1000000000)))), Some (SetSession ?tok), s1)"
    using req assms(3,4) pw i f T2(1) by (simp add: HandleAcceptInvitation_def open_session_def Create_def generateToken_def s1_def)
  define u' where "u' = u\<lparr>usr_password_hash := h\<rparr>"
  define s2 where "s2 = s1\<lparr>tabs := update_user (usr_id u) (\<lambda>v. v\<lparr>usr_password_hash := h\<rparr>) (tabs s1)\<rparr>"
  have 2: "HandlePatchMe bc ?nf salt (Some ?d) (Some \<lparr>Patch_Name = None, Patch_Password = Some pw\<rparr>) s1
      = (reply 200 (OkBody (JObj [(''status'', JStr ''ok'')])), None, s2)"
    using assms(3) by (simp add: HandlePatchMe_def s2_def done_ok_def)
  have ok2: "tables_ok (tabs s2)"
    using HandleAcceptInvitation_ok [OF assms(1), of api bc ?nf now salt rnd st token "Some \<lparr>AI_Name = name, AI_Password = pw\<rparr>"] 1
    by (auto simp: keeps_def s2_def intro: update_user_ok)
  have us: "users (tabs s1) = users ?T" "u' \<in> set (users (tabs s2))"
    using u(1) T2(2) by (auto simp: s1_def s2_def mark_accepted_def update_user_def u'_def image_iff)
  obtain m where m: "m \<in> set (members (tabs s2))" "mem_user_id m = usr_id u'"
    using T2(3) by (auto simp: s1_def s2_def mark_accepted_def update_user_def u'_def)
  obtain m' where l: "login_row (tabs s2) (usr_email u) = Some (u', m')"
    by (rule login_row_member [OF ok2 us(2) m]) (auto simp: u'_def)
  have c: "CompareHashAndPassword bc (usr_password_hash u') pw" using assms(2,3) by (auto simp: bcrypt_ok_def u'_def)
  note 3 = HandleLogin_member [where api = api and bc = bc and now = now and rnd = rnd and st = st, OF l c]
  show ?thesis
    unfolding Let_def 1 2 prod.case using 3 us(1) u'_def by (auto simp: s1_def split: prod.splits)
qed

definition plain_bcrypt :: bcrypt where
  "plain_bcrypt = \<lparr>GenerateFromPassword = (\<lambda>_ pw. Some pw), CompareHashAndPassword = (=)\<rparr>"

theorem invitation_takeover_witness:
  "let s = \<lparr>tabs = two_admin_tables, store = (\<lambda>_. None), cache = ()\<rparr> in
   status (fst (HandleAcceptInvitation map_server plain_bcrypt (\<lambda>_. False) 50 [] ''r'' (NewStore 0) ''t''
     (Some \<lparr>AI_Name = ''Eve'', AI_Password = ''evilpassword''\<rparr>) s)) = 201"
proof -
  let ?s = "\<lparr>tabs = two_admin_tables, store = (\<lambda>_. None), cache = ()\<rparr>"
  have b: "bcrypt_ok plain_bcrypt" by (simp add: bcrypt_ok_def plain_bcrypt_def)
  have g: "GenerateFromPassword plain_bcrypt [] ''evilpassword'' = Some ''evilpassword''" by (simp add: plain_bcrypt_def)
  have i: "List.find (\<lambda>i. inv_token i = ''t'') (invitations (tabs ?s)) = Some (hd (invitations two_admin_tables))" by (simp add: two_admin_tables_def)
  have r: "pg_text ''t''" "pg_text ''Eve''" by code_simp+
  show ?thesis
    using invitation_takeover [OF _ b g _ i, where now = 50 and u = "hd (users two_admin_tables)" and name = "''Eve''"
      and api = map_server and rnd = "''r''" and st = "NewStore 0"] two_admin_tables_ok r
    by (simp add: two_admin_tables_def Let_def split: prod.splits)
qed

end
