(* ===== verification/Detail.thy ===== *)
theory Detail
  imports Dashboard "HOL-Library.Product_Lexorder"
begin

text \<open>
  The detail view of a conference, \<^verbatim>\<open>handler/conference_detail.go\<close> and
  \<open>fetchConferenceDetail\<close> of \<^verbatim>\<open>handler/share.go\<close>, which has the same loop.

  The loop turns the flat rows of a join into a tree.  It keeps pointers into slices it still
  appends to (\<open>sd = &p.Sessions[len(p.Sessions)-1]\<close>), so the model has a heap of arrays: a slice is
  an address, a length and a capacity, an append writes in place or moves to a new array, and a
  pointer is an address and an index.  The capacity after a move is a parameter \<open>grow\<close>; a growth
  factor is the run time's choice.  \<open>None\<close> is a nil dereference.

  The theorem at the end justifies the comment in the source: for the order the query asks for, no
  pointer is used after the slice it points into has moved, and the response is the tree the tables
  describe, whatever the growth policy.  \<open>interleaved_rows_lose\<close> shows that another order would
  lose connections.

  A backing array of connections is never shared here, so connections are a plain list.
\<close>

subsection \<open>Response types\<close>

record ConnectionDetail =
  CD_ID :: int
  CD_PeerID :: string
  CD_StartedAt :: instant
  CD_EndedAt :: "instant option"
  CD_IceState :: string
  CD_CodecAudio :: string
  CD_CodecVideo :: string

record SessionDetail =
  SD_ID :: int
  SD_Browser :: string
  SD_OS :: string
  SD_Country :: string
  SD_City :: string
  SD_NetworkType :: string
  SD_Connections :: "ConnectionDetail list"

record ParticipantDetail =
  PD_ID :: int
  PD_UserID :: string
  PD_DisplayName :: string
  PD_JoinedAt :: instant
  PD_LeftAt :: "instant option"
  PD_Sessions :: "SessionDetail list"

record ConferenceDetail =
  CfD_ID :: int
  CfD_ExternalID :: string
  CfD_StartedAt :: instant
  CfD_EndedAt :: "instant option"
  CfD_Participants :: "ParticipantDetail list"

definition jtime :: "instant option \<Rightarrow> jval" where
  "jtime t = (case t of None \<Rightarrow> JNull | Some x \<Rightarrow> JTime x)"

definition connection_json :: "ConnectionDetail \<Rightarrow> jval" where
  "connection_json c = JObj [(''id'', JInt (CD_ID c)), (''peer_id'', JStr (CD_PeerID c)), (''started_at'', JTime (CD_StartedAt c)),
     (''ended_at'', jtime (CD_EndedAt c)), (''ice_state'', JStr (CD_IceState c)), (''codec_audio'', JStr (CD_CodecAudio c)),
     (''codec_video'', JStr (CD_CodecVideo c))]"

definition session_json :: "SessionDetail \<Rightarrow> jval" where
  "session_json s = JObj [(''id'', JInt (SD_ID s)), (''browser'', JStr (SD_Browser s)), (''os'', JStr (SD_OS s)),
     (''country'', JStr (SD_Country s)), (''city'', JStr (SD_City s)), (''network_type'', JStr (SD_NetworkType s)),
     (''connections'', JArr (map connection_json (SD_Connections s)))]"

definition participant_json :: "ParticipantDetail \<Rightarrow> jval" where
  "participant_json p = JObj [(''id'', JInt (PD_ID p)), (''user_id'', JStr (PD_UserID p)), (''display_name'', JStr (PD_DisplayName p)),
     (''joined_at'', JTime (PD_JoinedAt p)), (''left_at'', jtime (PD_LeftAt p)), (''sessions'', JArr (map session_json (PD_Sessions p)))]"

definition conference_json :: "ConferenceDetail \<Rightarrow> jval" where
  "conference_json c = JObj [(''id'', JInt (CfD_ID c)), (''external_id'', JStr (CfD_ExternalID c)), (''started_at'', JTime (CfD_StartedAt c)),
     (''ended_at'', jtime (CfD_EndedAt c)), (''participants'', JArr (map participant_json (CfD_Participants c)))]"

subsection \<open>Slices\<close>

record slice =
  base :: nat
  len :: nat
  cap :: nat

record heap =
  lim :: nat
  arr :: "nat \<Rightarrow> SessionDetail list"

definition elems :: "heap \<Rightarrow> slice \<Rightarrow> SessionDetail list" where
  "elems h sl = take (len sl) (arr h (base sl))"

definition append_slice :: "(nat \<Rightarrow> nat) \<Rightarrow> SessionDetail \<Rightarrow> slice \<Rightarrow> heap \<Rightarrow> slice \<times> heap" where
  "append_slice grow x sl h =
     (if len sl < cap sl
      then (sl\<lparr>len := len sl + 1\<rparr>, h\<lparr>arr := (arr h)(base sl := elems h sl @ x # drop (len sl + 1) (arr h (base sl)))\<rparr>)
      else (\<lparr>base = lim h, len = len sl + 1, cap = max (len sl + 1) (grow (len sl + 1))\<rparr>,
            h\<lparr>lim := lim h + 1, arr := (arr h)(lim h := elems h sl @ [x])\<rparr>))"

subsection \<open>Queries\<close>

type_synonym join_row = "session_row \<times> connection_row option"

definition conference_row_of :: "database \<Rightarrow> int \<Rightarrow> (conference_row \<times> int) option" where
  "conference_row_of d conferenceID =
     (case List.find (\<lambda>c. conf_id c = conferenceID) (conferences d) of
        None \<Rightarrow> None
      | Some c \<Rightarrow> (case List.find (\<lambda>a. app_id a = conf_app_id c) (apps d) of None \<Rightarrow> None | Some a \<Rightarrow> Some (c, app_org_id a)))"

definition participants_of :: "database \<Rightarrow> int \<Rightarrow> participant_row list" where
  "participants_of d conferenceID = sort_key part_joined_at (filter (\<lambda>p. part_conference_id p = conferenceID) (participants d))"

definition session_rows :: "database \<Rightarrow> session_row \<Rightarrow> join_row list" where
  "session_rows d s =
     (let cs = filter (\<lambda>c. conn_session_id c = sess_id s) (connections d) in
      if cs = [] then [(s, None)] else map (\<lambda>c. (s, Some c)) cs)"

definition row_order :: "join_row \<Rightarrow> int \<times> int \<times> int" where
  "row_order r = (sess_participant_id (fst r), sess_id (fst r), case snd r of None \<Rightarrow> 0 | Some c \<Rightarrow> conn_started_at c)"

definition join_rows :: "database \<Rightarrow> int list \<Rightarrow> join_row list" where
  "join_rows d pids =
     sort_key row_order (concat (map (session_rows d) (filter (\<lambda>s. sess_participant_id s \<in> set pids) (sessions d))))"

subsection \<open>The loop over the rows\<close>

record scan =
  hp :: heap
  participantMap :: "int \<Rightarrow> slice option"
  sessionMap :: "int \<Rightarrow> (nat \<times> nat) option"

definition connection_detail :: "connection_row \<Rightarrow> ConnectionDetail" where
  "connection_detail c = \<lparr>CD_ID = conn_id c, CD_PeerID = conn_peer_id c, CD_StartedAt = conn_started_at c, CD_EndedAt = conn_ended_at c,
     CD_IceState = conn_ice_state c, CD_CodecAudio = conn_codec_audio c, CD_CodecVideo = conn_codec_video c\<rparr>"

definition newSD :: "session_row \<Rightarrow> SessionDetail" where
  "newSD s = \<lparr>SD_ID = sess_id s, SD_Browser = sess_browser s, SD_OS = sess_os s, SD_Country = sess_country s, SD_City = sess_city s,
     SD_NetworkType = sess_network_type s, SD_Connections = []\<rparr>"

definition find_session :: "(nat \<Rightarrow> nat) \<Rightarrow> session_row \<Rightarrow> scan \<Rightarrow> ((nat \<times> nat) \<times> scan) option" where
  "find_session grow s st =
     (case sessionMap st (sess_id s) of
        Some sd \<Rightarrow> Some (sd, st)
      | None \<Rightarrow>
      case participantMap st (sess_participant_id s) of
        None \<Rightarrow> None
      | Some sl \<Rightarrow>
          (case append_slice grow (newSD s) sl (hp st) of
             (sl', h') \<Rightarrow>
               let sd = (base sl', len sl' - 1) in
               Some (sd, st\<lparr>hp := h', participantMap := (participantMap st)(sess_participant_id s \<mapsto> sl'),
                            sessionMap := (sessionMap st)(sess_id s \<mapsto> sd)\<rparr>)))"

definition add_connection :: "nat \<times> nat \<Rightarrow> connection_row \<Rightarrow> scan \<Rightarrow> scan" where
  "add_connection sd c st =
     (let a = arr (hp st) (fst sd); x = a ! snd sd in
      st\<lparr>hp := (hp st)\<lparr>arr := (arr (hp st))(fst sd := a[snd sd := x\<lparr>SD_Connections := SD_Connections x @ [connection_detail c]\<rparr>])\<rparr>\<rparr>)"

definition scan_row :: "(nat \<Rightarrow> nat) \<Rightarrow> join_row \<Rightarrow> scan \<Rightarrow> scan option" where
  "scan_row grow r st =
     (case find_session grow (fst r) st of
        None \<Rightarrow> None
      | Some (sd, st1) \<Rightarrow> (case snd r of None \<Rightarrow> Some st1 | Some c \<Rightarrow> Some (add_connection sd c st1)))"

fun scan_rows :: "(nat \<Rightarrow> nat) \<Rightarrow> join_row list \<Rightarrow> scan \<Rightarrow> scan option" where
  "scan_rows grow [] st = Some st"
| "scan_rows grow (r # rs) st = (case scan_row grow r st of None \<Rightarrow> None | Some st1 \<Rightarrow> scan_rows grow rs st1)"

definition start_scan :: "int list \<Rightarrow> scan" where
  "start_scan pids = \<lparr>hp = \<lparr>lim = 1, arr = \<lambda>_. []\<rparr>,
     participantMap = (\<lambda>i. if i \<in> set pids then Some \<lparr>base = 0, len = 0, cap = 0\<rparr> else None), sessionMap = (\<lambda>_. None)\<rparr>"

definition participant_detail :: "scan \<Rightarrow> participant_row \<Rightarrow> ParticipantDetail" where
  "participant_detail st p = \<lparr>PD_ID = part_id p, PD_UserID = part_user_id p, PD_DisplayName = part_display_name p,
     PD_JoinedAt = part_joined_at p, PD_LeftAt = part_left_at p,
     PD_Sessions = (case participantMap st (part_id p) of None \<Rightarrow> [] | Some sl \<Rightarrow> elems (hp st) sl)\<rparr>"

definition assemble :: "(nat \<Rightarrow> nat) \<Rightarrow> database \<Rightarrow> conference_row \<Rightarrow> ConferenceDetail option" where
  "assemble grow d c =
     (let ps = participants_of d (conf_id c); pids = map part_id ps;
          scanned = (if pids = [] then Some (start_scan pids) else scan_rows grow (join_rows d pids) (start_scan pids)) in
      map_option (\<lambda>st. \<lparr>CfD_ID = conf_id c, CfD_ExternalID = conf_external_id c, CfD_StartedAt = conf_started_at c,
                        CfD_EndedAt = conf_ended_at c, CfD_Participants = map (participant_detail st) ps\<rparr>) scanned)"

definition HandleGetConference ::
  "(nat \<Rightarrow> nat) \<Rightarrow> faults \<Rightarrow> Data option \<Rightarrow> string \<Rightarrow> ('s, 'c) dash \<Rightarrow> ('s, 'c) handled option" where
  "HandleGetConference grow ft sess confParam s =
     (case sess of
        None \<Rightarrow> Some (fail 401 ''unauthorized'' s)
      | Some dt \<Rightarrow>
      case ParseInt confParam of
        None \<Rightarrow> Some (fail 400 ''invalid conferenceId'' s)
      | Some conferenceID \<Rightarrow>
          if ft ''conference detail: fetch conference'' then Some (fail 500 ''internal error'' s)
          else case conference_row_of (ingest (tabs s)) conferenceID of
            None \<Rightarrow> Some (fail 404 ''not found'' s)
          | Some (c, orgID) \<Rightarrow>
              if orgID \<noteq> SessOrgID dt then Some (fail 403 ''forbidden'' s)
              else if ft ''conference detail: fetch participants'' \<or> ft ''conference detail: scan participant''
                   \<or> ft ''conference detail: participant rows error'' then Some (fail 500 ''internal error'' s)
              else if participants_of (ingest (tabs s)) (conf_id c) \<noteq> []
                   \<and> (ft ''conference detail: fetch sessions'' \<or> ft ''conference detail: scan session row'' \<or> ft ''conference detail: session rows error'')
              then Some (fail 500 ''internal error'' s)
              else map_option (\<lambda>detail. done_ok 200 (conference_json detail) s) (assemble grow (ingest (tabs s)) c))"

text \<open>The copy in share.go: \<open>Inl True\<close> is \<open>pgx.ErrNoRows\<close>, \<open>Inl False\<close> any other error.\<close>

definition fetchConferenceDetail ::
  "(nat \<Rightarrow> nat) \<Rightarrow> faults \<Rightarrow> database \<Rightarrow> int \<Rightarrow> int \<Rightarrow> (bool + ConferenceDetail) option" where
  "fetchConferenceDetail grow ft d conferenceID orgID =
     (if ft ''fetchConferenceDetail: conference'' then Some (Inl False)
      else case conference_row_of d conferenceID of
        None \<Rightarrow> Some (Inl True)
      | Some (c, confOrgID) \<Rightarrow>
          if confOrgID \<noteq> orgID then Some (Inl True)
          else if ft ''fetchConferenceDetail: participants'' then Some (Inl False)
          else if participants_of d (conf_id c) \<noteq> [] \<and> ft ''fetchConferenceDetail: sessions'' then Some (Inl False)
          else map_option Inr (assemble grow d c))"

subsection \<open>Correctness of the loop\<close>

text \<open>\<open>built st pids b\<close>: the slice of every participant in \<open>pids\<close> holds the sessions
  \<open>b\<close> has for him, and no two slices with room share an array.\<close>

definition slice_holds :: "heap \<Rightarrow> slice \<Rightarrow> SessionDetail list \<Rightarrow> bool" where
  "slice_holds h sl xs \<longleftrightarrow> len sl = length xs \<and> len sl \<le> cap sl \<and> elems h sl = xs \<and> (0 < cap sl \<longrightarrow> base sl < lim h)"

definition built :: "scan \<Rightarrow> int set \<Rightarrow> (int \<Rightarrow> SessionDetail list) \<Rightarrow> bool" where
  "built st pids b \<longleftrightarrow>
     dom (participantMap st) = pids
   \<and> (\<forall>p sl. participantMap st p = Some sl \<longrightarrow> slice_holds (hp st) sl (b p))
   \<and> (\<forall>p q sl sl'. p \<noteq> q \<longrightarrow> participantMap st p = Some sl \<longrightarrow> participantMap st q = Some sl' \<longrightarrow> 0 < cap sl \<longrightarrow> 0 < cap sl'
        \<longrightarrow> base sl \<noteq> base sl')"

lemma builtI:
  assumes "dom (participantMap st) = pids" and "\<And>p sl. participantMap st p = Some sl \<Longrightarrow> slice_holds (hp st) sl (b p)"
    and "\<And>p q sl sl'. p \<noteq> q \<Longrightarrow> participantMap st p = Some sl \<Longrightarrow> participantMap st q = Some sl' \<Longrightarrow> 0 < cap sl \<Longrightarrow> 0 < cap sl'
      \<Longrightarrow> base sl \<noteq> base sl'"
  shows "built st pids b"
  using assms unfolding built_def by blast

lemma builtD: "built st pids b \<Longrightarrow> participantMap st p = Some sl \<Longrightarrow> slice_holds (hp st) sl (b p)"
  unfolding built_def by blast

lemma built_apart:
  "built st pids b \<Longrightarrow> p \<noteq> q \<Longrightarrow> participantMap st p = Some sl \<Longrightarrow> participantMap st q = Some sl' \<Longrightarrow> 0 < cap sl \<Longrightarrow> 0 < cap sl'
    \<Longrightarrow> base sl \<noteq> base sl'"
  unfolding built_def by blast

lemma built_dom: "built st pids b \<Longrightarrow> dom (participantMap st) = pids"
  unfolding built_def by blast

lemma slice_holds_length: "slice_holds h sl xs \<Longrightarrow> length xs \<le> length (arr h (base sl))"
  by (auto simp: slice_holds_def elems_def)

lemma slice_holds_other:
  assumes "slice_holds h sl xs" and "lim h \<le> n" and "0 < cap sl \<Longrightarrow> base sl \<noteq> a"
  shows "slice_holds (h\<lparr>lim := n, arr := (arr h)(a := ys)\<rparr>) sl xs"
  using assms by (cases "cap sl = 0") (auto simp: slice_holds_def elems_def)

lemma append_slice_holds:
  assumes "slice_holds h sl xs" and "append_slice grow x sl h = (sl', h')"
  shows "slice_holds h' sl' (xs @ [x])" "0 < cap sl'" "lim h \<le> lim h'"
    "base sl' = base sl \<and> 0 < cap sl \<or> base sl' = lim h" "\<exists>ys. h' = h\<lparr>lim := lim h', arr := (arr h)(base sl' := ys)\<rparr>"
  using assms slice_holds_length [OF assms(1)]
  by (auto simp: append_slice_def slice_holds_def elems_def split: if_splits)

lemma built_append:
  assumes b: "built st pids b" and sl: "participantMap st p = Some sl" and a: "append_slice grow x sl (hp st) = (sl', h')"
  shows "built (st\<lparr>hp := h', participantMap := (participantMap st)(p \<mapsto> sl'), sessionMap := m\<rparr>) pids (b(p := b p @ [x]))"
proof -
  note A = append_slice_holds [OF builtD [OF b sl] a]
  obtain ys where ys: "h' = (hp st)\<lparr>lim := lim h', arr := (arr (hp st))(base sl' := ys)\<rparr>" using A(5) by blast
  have away: "base slq \<noteq> base sl'" if "q \<noteq> p" "participantMap st q = Some slq" "0 < cap slq" for q slq
  proof -
    have "base slq < lim (hp st)" using builtD [OF b that(2)] that(3) by (simp add: slice_holds_def)
    moreover have "0 < cap sl \<Longrightarrow> base slq \<noteq> base sl" using built_apart [OF b that(1,2) sl that(3)] .
    ultimately show ?thesis using A(4) by auto
  qed
  have other: "slice_holds h' slq (b q)" if "q \<noteq> p" "participantMap st q = Some slq" for q slq
    using slice_holds_other [OF builtD [OF b that(2)] A(3) away [OF that], of ys] ys by simp
  let ?st = "st\<lparr>hp := h', participantMap := (participantMap st)(p \<mapsto> sl'), sessionMap := m\<rparr>"
  show ?thesis
  proof (rule builtI)
    show "dom (participantMap ?st) = pids" using built_dom [OF b] sl by auto
    show "slice_holds (hp ?st) slq ((b(p := b p @ [x])) q)" if "participantMap ?st q = Some slq" for q slq
      using that A(1) other [of q slq] by (cases "q = p") simp_all
    show "base slq \<noteq> base slr" if d: "q \<noteq> r" "participantMap ?st q = Some slq" "participantMap ?st r = Some slr" "0 < cap slq" "0 < cap slr"
      for q r slq slr
    proof -
      consider "q = p" "r \<noteq> p" | "r = p" "q \<noteq> p" | "q \<noteq> p" "r \<noteq> p" using d(1) by blast
      then show ?thesis
        by cases (use d away [of r slr] away [of q slq] built_apart [OF b d(1), of slq slr] in simp_all)
    qed
  qed
qed

text \<open>Writing through the pointer of the session that was appended last.\<close>

lemma add_connection_maps [simp]:
  "participantMap (add_connection sd c st) = participantMap st" "sessionMap (add_connection sd c st) = sessionMap st"
  by (simp_all add: add_connection_def Let_def)

lemma built_add:
  assumes b: "built st pids b" and sl: "participantMap st p = Some sl" and xs: "b p = xs @ [x]"
  shows "built (add_connection (base sl, length xs) c st) pids
    (b(p := xs @ [x\<lparr>SD_Connections := SD_Connections x @ [connection_detail c]\<rparr>]))"
proof -
  let ?a = "arr (hp st) (base sl)" and ?x = "x\<lparr>SD_Connections := SD_Connections x @ [connection_detail c]\<rparr>"
  have h: "slice_holds (hp st) sl (xs @ [x])" using builtD [OF b sl] xs by simp
  then have tk: "take (Suc (length xs)) ?a = xs @ [x]" and l: "len sl = Suc (length xs)" "0 < cap sl" by (auto simp: slice_holds_def elems_def)
  have nth: "?a ! length xs = x" using arg_cong [OF tk, of "\<lambda>l. l ! length xs"] by simp
  have "take (Suc (length xs)) (?a[length xs := ?x]) = xs @ [?x]"
    using tk by (metis take_update_swap list_update_length)
  then have new: "slice_holds ((hp st)\<lparr>arr := (arr (hp st))(base sl := ?a[length xs := ?x])\<rparr>) sl (xs @ [?x])"
    using h l by (simp add: slice_holds_def elems_def)
  have other: "slice_holds ((hp st)\<lparr>arr := (arr (hp st))(base sl := ys)\<rparr>) slq (b q)" if "q \<noteq> p" "participantMap st q = Some slq" for q slq ys
    using slice_holds_other [OF builtD [OF b that(2)] order_refl, of "base sl" ys] built_apart [OF b that sl _ l(2)] by simp
  show "built (add_connection (base sl, length xs) c st) pids (b(p := xs @ [?x]))"
  proof (rule builtI)
    show "dom (participantMap (add_connection (base sl, length xs) c st)) = pids" using built_dom [OF b] by simp
    show "slice_holds (hp (add_connection (base sl, length xs) c st)) slq ((b(p := xs @ [?x])) q)"
      if "participantMap (add_connection (base sl, length xs) c st) q = Some slq" for q slq
      using that sl new other nth by (cases "q = p") (auto simp: add_connection_def Let_def)
  qed (use built_apart [OF b] in auto)
qed

lemma scan_known:
  assumes "built st pids b" and "participantMap st (sess_participant_id s) = Some sl" and "b (sess_participant_id s) = xs @ [x]"
    and "sessionMap st (sess_id s) = Some (base sl, length xs)"
  shows "\<exists>st'. scan_rows grow (map (\<lambda>c. (s, Some c)) cs) st = Some st' \<and> sessionMap st' = sessionMap st
    \<and> built st' pids (b(sess_participant_id s := xs @ [x\<lparr>SD_Connections := SD_Connections x @ map connection_detail cs\<rparr>]))"
  using assms
proof (induction cs arbitrary: st b x)
  case Nil
  then show ?case by (simp add: fun_upd_idem)
next
  case (Cons c cs)
  let ?st = "add_connection (base sl, length xs) c st"
  have "scan_row grow (s, Some c) st = Some ?st" using Cons.prems(4) by (simp add: scan_row_def find_session_def)
  then show ?case using Cons.IH [OF built_add [OF Cons.prems(1-3), of c] _ fun_upd_same] Cons.prems(2,4) by (simp del: fun_upd_apply)
qed

text \<open>One session: its first row creates the entry, the others append to it.\<close>

definition session_detail :: "session_row \<Rightarrow> connection_row list \<Rightarrow> SessionDetail" where
  "session_detail s cs = (newSD s)\<lparr>SD_Connections := map connection_detail cs\<rparr>"

definition rows_of :: "session_row \<Rightarrow> connection_row list \<Rightarrow> join_row list" where
  "rows_of s cs = (if cs = [] then [(s, None)] else map (\<lambda>c. (s, Some c)) cs)"

lemma append_slice_pointer:
  assumes "slice_holds h sl xs" and "append_slice grow x sl h = (sl', h')"
  shows "len sl' - 1 = length xs"
  using assms by (auto simp: append_slice_def slice_holds_def split: if_splits)

lemma scan_session:
  assumes b: "built st pids b" and p: "sess_participant_id s \<in> pids" and new: "sessionMap st (sess_id s) = None"
  shows "\<exists>st'. scan_rows grow (rows_of s cs) st = Some st' \<and> dom (sessionMap st') = insert (sess_id s) (dom (sessionMap st))
    \<and> built st' pids (b(sess_participant_id s := b (sess_participant_id s) @ [session_detail s cs]))"
proof -
  let ?p = "sess_participant_id s"
  obtain sl where sl: "participantMap st ?p = Some sl" using p built_dom [OF b] by blast
  obtain sl' h' where a: "append_slice grow (newSD s) sl (hp st) = (sl', h')" by fastforce
  let ?sd = "(base sl', length (b ?p))"
  let ?st = "st\<lparr>hp := h', participantMap := (participantMap st)(?p \<mapsto> sl'), sessionMap := (sessionMap st)(sess_id s \<mapsto> ?sd)\<rparr>"
  have f: "find_session grow s st = Some (?sd, ?st)"
    using new sl a append_slice_pointer [OF builtD [OF b sl] a] by (simp add: find_session_def Let_def)
  have B: "built ?st pids (b(?p := b ?p @ [newSD s]))" by (rule built_append [OF b sl a])
  have dom: "dom (sessionMap ?st) = insert (sess_id s) (dom (sessionMap st))" by simp
  show ?thesis
  proof (cases cs)
    case Nil
    have "session_detail s [] = newSD s" by (simp add: session_detail_def newSD_def)
    then show ?thesis using f B dom Nil by (simp add: rows_of_def scan_row_def del: fun_upd_apply)
  next
    case (Cons c cs')
    have "scan_rows grow (rows_of s cs) st = scan_rows grow (map (\<lambda>c. (s, Some c)) cs) ?st"
      using f by (simp add: rows_of_def scan_row_def find_session_def Cons)
    moreover have "\<exists>st'. scan_rows grow (map (\<lambda>c. (s, Some c)) cs) ?st = Some st' \<and> sessionMap st' = sessionMap ?st
        \<and> built st' pids ((b(?p := b ?p @ [newSD s]))(?p := b ?p @ [(newSD s)\<lparr>SD_Connections := SD_Connections (newSD s) @ map connection_detail cs\<rparr>]))"
      by (rule scan_known [OF B]) simp_all
    ultimately show ?thesis using dom by (auto simp: session_detail_def newSD_def simp del: fun_upd_apply)
  qed
qed

lemma scan_sessions:
  assumes "built st pids b" and "distinct (map sess_id ss)" and "\<forall>s \<in> set ss. sess_participant_id s \<in> pids \<and> sess_id s \<notin> dom (sessionMap st)"
  shows "\<exists>st'. scan_rows grow (concat (map (\<lambda>s. rows_of s (conns s)) ss)) st = Some st'
    \<and> built st' pids (\<lambda>p. b p @ map (\<lambda>s. session_detail s (conns s)) (filter (\<lambda>s. sess_participant_id s = p) ss))"
  using assms
proof (induction ss arbitrary: st b)
  case Nil
  then show ?case by simp
next
  case (Cons s ss)
  let ?b = "b(sess_participant_id s := b (sess_participant_id s) @ [session_detail s (conns s)])"
  have split: "scan_rows grow (xs @ ys) st = (case scan_rows grow xs st of None \<Rightarrow> None | Some st1 \<Rightarrow> scan_rows grow ys st1)" for xs ys st
    by (induction xs arbitrary: st) (auto split: option.splits)
  obtain st1 where st1: "scan_rows grow (rows_of s (conns s)) st = Some st1" "dom (sessionMap st1) = insert (sess_id s) (dom (sessionMap st))"
    "built st1 pids ?b"
    using scan_session [OF Cons.prems(1), of s grow "conns s"] Cons.prems(3) by (meson domIff list.set_intros(1))
  have "\<forall>x \<in> set ss. sess_participant_id x \<in> pids \<and> sess_id x \<notin> dom (sessionMap st1)"
    unfolding st1(2) using Cons.prems(2,3) by (auto simp: image_iff)
  then obtain st' where "scan_rows grow (concat (map (\<lambda>s. rows_of s (conns s)) ss)) st1 = Some st'"
    "built st' pids (\<lambda>p. ?b p @ map (\<lambda>s. session_detail s (conns s)) (filter (\<lambda>s. sess_participant_id s = p) ss))"
    using Cons.IH [OF st1(3)] Cons.prems(2) by auto
  moreover have "(\<lambda>p. ?b p @ map (\<lambda>s. session_detail s (conns s)) (filter (\<lambda>s. sess_participant_id s = p) ss))
      = (\<lambda>p. b p @ map (\<lambda>s. session_detail s (conns s)) (filter (\<lambda>s. sess_participant_id s = p) (s # ss)))"
    by auto
  ultimately show ?case using st1(1) by (simp add: split)
qed

subsection \<open>The order of the rows\<close>

text \<open>Sorting the rows of the join by participant, session and start gives the sessions in order of
  participant and id, each with its connections in order of their start.\<close>

definition conns_of :: "database \<Rightarrow> session_row \<Rightarrow> connection_row list" where
  "conns_of d s = sort_key conn_started_at (filter (\<lambda>c. conn_session_id c = sess_id s) (connections d))"

definition session_order :: "session_row \<Rightarrow> int \<times> int" where
  "session_order s = (sess_participant_id s, sess_id s)"

lemma rows_of_fst: "r \<in> set (rows_of s cs) \<Longrightarrow> fst r = s"
  by (auto simp: rows_of_def split: if_splits)

lemma session_rows_sorted: "sort_key row_order (session_rows d s) = rows_of s (conns_of d s)"
proof -
  have "sort_key row_order (map (\<lambda>c. (s, Some c)) cs) = map (\<lambda>c. (s, Some c)) (sort_key conn_started_at cs)" for cs :: "connection_row list"
  proof (rule properties_for_sort_key)
    show "mset (map (\<lambda>c. (s, Some c)) (sort_key conn_started_at cs)) = mset (map (\<lambda>c. (s, Some c)) cs)" by simp
    show "sorted (map row_order (map (\<lambda>c. (s, Some c)) (sort_key conn_started_at cs)))"
      using sorted_sort_key [of conn_started_at cs] by (simp add: row_order_def sorted_map less_eq_prod_def comp_def)
    fix k assume "k \<in> set (map (\<lambda>c. (s, Some c)) (sort_key conn_started_at cs))"
    then obtain c where "k = (s, Some c)" by auto
    then show "filter (\<lambda>x. row_order k = row_order x) (map (\<lambda>c. (s, Some c)) (sort_key conn_started_at cs))
        = filter (\<lambda>x. row_order k = row_order x) (map (\<lambda>c. (s, Some c)) cs)"
      using sort_key_stable [of conn_started_at "conn_started_at c" cs] by (simp add: filter_map comp_def row_order_def eq_commute)
  qed
  moreover have "sort_key conn_started_at cs = [] \<longleftrightarrow> cs = []" for cs :: "connection_row list" by (metis set_empty set_sort)
  ultimately show ?thesis by (simp add: session_rows_def rows_of_def conns_of_def Let_def)
qed

lemma filter_concat_one:
  assumes "distinct (map key xs)" and "\<And>x r. x \<in> set xs \<Longrightarrow> r \<in> set (f x) \<Longrightarrow> P r \<Longrightarrow> key x = key a" and "a \<in> set xs"
  shows "filter P (concat (map f xs)) = filter P (f a)"
  using assms
proof (induction xs)
  case (Cons x xs)
  show ?case
  proof (cases "x = a")
    case True
    then have "\<not> P r" if "y \<in> set xs" "r \<in> set (f y)" for y r
      using that Cons.prems(1) Cons.prems(2) [of y r] by (auto simp: image_iff)
    then have "filter P (concat (map f xs)) = []" by (auto simp: filter_empty_conv)
    then show ?thesis using True by simp
  next
    case False
    then have "a \<in> set xs" using Cons.prems(3) by simp
    then have "\<not> P r" if "r \<in> set (f x)" for r using that Cons.prems(1) Cons.prems(2) [of x r] by auto
    then have "filter P (f x) = []" by (auto simp: filter_empty_conv)
    then show ?thesis using Cons False by simp
  qed
qed simp

lemma join_rows_grouped:
  assumes "distinct (map sess_id (sessions d))"
  shows "join_rows d pids = concat (map (\<lambda>s. rows_of s (conns_of d s))
    (sort_key session_order (filter (\<lambda>s. sess_participant_id s \<in> set pids) (sessions d))))"
  unfolding join_rows_def
proof (rule properties_for_sort_key)
  let ?fs = "filter (\<lambda>s. sess_participant_id s \<in> set pids) (sessions d)" and ?g = "\<lambda>s. rows_of s (conns_of d s)"
  let ?ss = "sort_key session_order ?fs"
  have g: "mset (?g s) = mset (session_rows d s)" for s by (metis session_rows_sorted mset_sort)
  have d: "distinct (map sess_id ?fs)" using assms by (rule distinct_map_filter)
  then have d': "distinct (map sess_id ?ss)" by (simp add: distinct_map)
  have "mset (concat (map h xs)) = (\<Sum>x\<in>#mset xs. mset (h x))" for h :: "session_row \<Rightarrow> join_row list" and xs by (induction xs) auto
  then show "mset (concat (map ?g ?ss)) = mset (concat (map (session_rows d) ?fs))" by (simp add: g)
  have srt: "sorted (map session_order ?ss)" by simp
  have "sorted (map row_order (concat (map ?g xs)))" if "sorted (map session_order xs)" "distinct (map sess_id xs)" for xs
    using that
  proof (induction xs)
    case (Cons x xs)
    have "sorted (map row_order (?g x))" by (metis session_rows_sorted sorted_sort_key)
    moreover have "\<forall>r \<in> set (?g x). \<forall>r' \<in> set (concat (map ?g xs)). row_order r \<le> row_order r'"
    proof (intro ballI)
      fix r r' assume r: "r \<in> set (?g x)" "r' \<in> set (concat (map ?g xs))"
      obtain y where y: "y \<in> set xs" "fst r' = y" using r(2) rows_of_fst by fastforce
      then have "session_order x \<le> session_order y" "sess_id x \<noteq> sess_id y" using Cons.prems by auto
      then show "row_order r \<le> row_order r'" using rows_of_fst [OF r(1)] y(2) by (auto simp: row_order_def session_order_def less_eq_prod_def)
    qed
    moreover have "sorted (map row_order (concat (map ?g xs)))" using Cons by simp
    ultimately show ?case by (simp only: list.map concat.simps map_append sorted_append set_map ball_simps)
  qed simp
  then show "sorted (map row_order (concat (map ?g ?ss)))" using srt d' by blast
  fix k assume "k \<in> set (concat (map ?g ?ss))"
  then obtain a where a: "a \<in> set ?fs" "fst k = a" using rows_of_fst by fastforce
  have same: "sess_id x = sess_id a" if "r \<in> set (?g x) \<or> r \<in> set (session_rows d x)" "row_order k = row_order r" for x r
  proof -
    have "set (session_rows d x) = set (?g x)" using g mset_eq_setD by blast
    then have "fst r = x" using that(1) rows_of_fst by auto
    then show ?thesis using that(2) a(2) by (simp add: row_order_def)
  qed
  have "filter (\<lambda>r. row_order k = row_order r) (concat (map ?g ?ss)) = filter (\<lambda>r. row_order k = row_order r) (?g a)"
    by (rule filter_concat_one [OF d']) (use same a(1) in auto)
  also have "\<dots> = filter (\<lambda>r. row_order k = row_order r) (session_rows d a)"
    using sort_key_stable [of row_order "row_order k" "session_rows d a"] by (simp add: session_rows_sorted eq_commute)
  also have "\<dots> = filter (\<lambda>r. row_order k = row_order r) (concat (map (session_rows d) ?fs))"
    by (rule filter_concat_one [OF d, symmetric]) (use same a(1) in auto)
  finally show "filter (\<lambda>r. row_order k = row_order r) (concat (map ?g ?ss))
      = filter (\<lambda>r. row_order k = row_order r) (concat (map (session_rows d) ?fs))" .
qed

subsection \<open>Properties\<close>

text \<open>The tree the tables describe.\<close>

definition conference_tree :: "database \<Rightarrow> conference_row \<Rightarrow> ConferenceDetail" where
  "conference_tree d c = \<lparr>CfD_ID = conf_id c, CfD_ExternalID = conf_external_id c, CfD_StartedAt = conf_started_at c,
     CfD_EndedAt = conf_ended_at c,
     CfD_Participants = map (\<lambda>p. \<lparr>PD_ID = part_id p, PD_UserID = part_user_id p, PD_DisplayName = part_display_name p,
       PD_JoinedAt = part_joined_at p, PD_LeftAt = part_left_at p,
       PD_Sessions = map (\<lambda>s. session_detail s (conns_of d s))
         (sort_key sess_id (filter (\<lambda>s. sess_participant_id s = part_id p) (sessions d)))\<rparr>)
       (participants_of d (conf_id c))\<rparr>"

lemma sort_sessions_of:
  assumes "P p"
  shows "filter (\<lambda>s. sess_participant_id s = p) (sort_key session_order (filter (\<lambda>s. P (sess_participant_id s)) ss))
    = sort_key sess_id (filter (\<lambda>s. sess_participant_id s = p) ss)" (is "?l = sort_key sess_id ?f")
proof -
  have "?l = sort_key session_order ?f" using assms by (simp add: filter_sort) (metis (mono_tags, lifting) filter_cong)
  also have "\<dots> = sort_key sess_id ?f"
  proof (rule properties_for_sort_key)
    have p: "\<forall>s \<in> set (sort_key sess_id ?f). sess_participant_id s = p" by simp
    then show "sorted (map session_order (sort_key sess_id ?f))"
      unfolding sorted_map
      by (intro sorted_wrt_mono_rel [OF _ sorted_sort_key [of sess_id ?f, unfolded sorted_map]])
        (simp add: session_order_def less_eq_prod_def)
    fix k assume k: "k \<in> set (sort_key sess_id ?f)"
    then have kp: "sess_participant_id k = p" using p by blast
    have eq: "filter (\<lambda>x. session_order k = session_order x) xs = filter (\<lambda>x. sess_id x = sess_id k) xs"
      if xs: "\<forall>s \<in> set xs. sess_participant_id s = p" for xs
    proof (rule filter_cong [OF refl])
      fix x assume "x \<in> set xs"
      then have "sess_participant_id x = p" using xs by blast
      then show "session_order k = session_order x \<longleftrightarrow> sess_id x = sess_id k" using kp by (auto simp: session_order_def)
    qed
    have pf: "\<forall>s \<in> set ?f. sess_participant_id s = p" by simp
    show "filter (\<lambda>x. session_order k = session_order x) (sort_key sess_id ?f) = filter (\<lambda>x. session_order k = session_order x) ?f"
      by (simp only: eq [OF p] eq [OF pf] sort_key_stable)
  qed simp
  finally show ?thesis .
qed

lemma built_start: "built (start_scan pids) (set pids) (\<lambda>_. [])"
  by (rule builtI) (auto simp: start_scan_def slice_holds_def elems_def split: if_splits)

lemma assemble_tree:
  assumes "distinct (map sess_id (sessions d))"
  shows "assemble grow d c = Some (conference_tree d c)"
proof -
  let ?ps = "participants_of d (conf_id c)"
  let ?pids = "map part_id ?ps"
  let ?ss = "sort_key session_order (filter (\<lambda>s. sess_participant_id s \<in> set ?pids) (sessions d))"
  let ?b = "\<lambda>p. map (\<lambda>s. session_detail s (conns_of d s)) (filter (\<lambda>s. sess_participant_id s = p) ?ss)"
  have "distinct (map sess_id ?ss)" using distinct_map_filter [OF assms] by (simp add: distinct_map)
  then obtain st where st: "scan_rows grow (join_rows d ?pids) (start_scan ?pids) = Some st" "built st (set ?pids) ?b"
    using scan_sessions [OF built_start, of ?ss ?pids grow "conns_of d"] by (auto simp: join_rows_grouped [OF assms] start_scan_def)
  have "PD_Sessions (participant_detail st p) = map (\<lambda>s. session_detail s (conns_of d s))
      (sort_key sess_id (filter (\<lambda>s. sess_participant_id s = part_id p) (sessions d)))" if p: "p \<in> set ?ps" for p
  proof -
    obtain sl where sl: "participantMap st (part_id p) = Some sl" using built_dom [OF st(2)] p by auto
    then have "PD_Sessions (participant_detail st p) = ?b (part_id p)"
      using builtD [OF st(2) sl] by (simp add: participant_detail_def slice_holds_def)
    then show ?thesis using sort_sessions_of [of "\<lambda>i. i \<in> set ?pids" "part_id p" "sessions d"] p by simp
  qed
  then have "map (participant_detail st) ?ps = CfD_Participants (conference_tree d c)"
    unfolding conference_tree_def by (auto simp: participant_detail_def)
  then show ?thesis using st(1) by (auto simp: assemble_def Let_def conference_tree_def)
qed

text \<open>(C34) The detail of a conference is the tree the tables describe, and only its own organization
  sees it.  For every growth policy of slices the handler never dereferences nil; when the database
  answers, it returns 200 exactly to sessions of the organization that owns the conference, and the
  body lists the participants in the order they joined, for each participant his sessions by id and
  for each session its connections by start, each exactly once.  It changes nothing.\<close>
theorem conference_detail_tree:
  assumes "db_ok (ingest (tabs s))"
  shows "\<exists>r. HandleGetConference grow (\<lambda>_. False) sess p s = Some (r, None, s)
    \<and> (\<forall>v. rbody r = OkBody v \<longleftrightarrow>
        (\<exists>dt i c. sess = Some dt \<and> ParseInt p = Some i \<and> conference_row_of (ingest (tabs s)) i = Some (c, SessOrgID dt)
           \<and> v = conference_json (conference_tree (ingest (tabs s)) c)))
    \<and> (status r = 200 \<longleftrightarrow> (\<exists>v. rbody r = OkBody v))"
proof -
  have d: "distinct (map sess_id (sessions (ingest (tabs s))))" using assms by (simp add: db_ok_def table_ok_def)
  show ?thesis by (auto simp: HandleGetConference_def assemble_tree [OF d] fail_def done_ok_def split: option.splits)
qed

definition demo_session :: "int \<Rightarrow> session_row" where
  "demo_session i = \<lparr>sess_id = i, sess_participant_id = 1, sess_external_id = [], sess_browser = [], sess_os = [], sess_country = [],
     sess_city = [], sess_network_type = []\<rparr>"

definition demo_conn :: "int \<Rightarrow> int \<Rightarrow> connection_row" where
  "demo_conn i s = \<lparr>conn_id = i, conn_session_id = s, conn_external_id = [], conn_started_at = i, conn_peer_id = [], conn_ended_at = None,
     conn_ice_state = [], conn_codec_audio = [], conn_codec_video = []\<rparr>"

definition demo_conference :: conference_row where
  "demo_conference = \<lparr>conf_id = 3, conf_app_id = 7, conf_external_id = ''c'', conf_started_at = 0, conf_ended_at = None, conf_participant_count = 0\<rparr>"

definition demo_detail_db :: database where
  "demo_detail_db = empty_db\<lparr>
     apps := [\<lparr>app_id = 7, app_org_id = 1, retention_days = 90, observation_config = None, server_api_key = None, server_api_secret_enc = None,
               app_name = [], app_api_key_hash = [], app_created_at = 0, app_server_key_created_at = None\<rparr>],
     conferences := [demo_conference],
     participants := [\<lparr>part_id = 1, part_conference_id = 3, part_user_id = ''u'', part_joined_at = 0, part_display_name = [], part_left_at = None\<rparr>],
     sessions := [demo_session 2], connections := [(demo_conn 9 2)\<lparr>conn_external_id := ''x''\<rparr>, demo_conn 8 2],
     next_conf := 4, next_part := 2, next_sess := 3, next_conn := 10\<rparr>"

definition demo_detail_dash :: "(unit, unit) dash" where
  "demo_detail_dash = \<lparr>tabs = empty_tables\<lparr>ingest := demo_detail_db\<rparr>, store = (), cache = ()\<rparr>"

definition demo_viewer :: Data where
  "demo_viewer = \<lparr>SessUserID = 1, SessOrgID = 1, SessRole = ''member'', SessEmail = [], SessName = []\<rparr>"

theorem conference_detail_tree_witness:
  "\<exists>r. HandleGetConference (\<lambda>n. 2 * n) (\<lambda>_. False) (Some demo_viewer) ''3'' demo_detail_dash = Some (r, None, demo_detail_dash)
     \<and> rbody r = OkBody (conference_json (conference_tree demo_detail_db demo_conference))
     \<and> map CD_ID (concat (map SD_Connections (concat (map PD_Sessions (CfD_Participants (conference_tree demo_detail_db demo_conference)))))) = [8, 9]"
proof -
  have ok: "db_ok (ingest (tabs demo_detail_dash))"
    by (simp add: demo_detail_dash_def demo_detail_db_def db_ok_def table_ok_def empty_db_def demo_conference_def demo_session_def demo_conn_def)
  have c: "ParseInt ''3'' = Some 3" by code_simp
  have row: "conference_row_of (ingest (tabs demo_detail_dash)) 3 = Some (demo_conference, SessOrgID demo_viewer)"
    by (simp add: conference_row_of_def demo_detail_dash_def demo_detail_db_def demo_conference_def demo_viewer_def)
  have ids: "map CD_ID (concat (map SD_Connections (concat (map PD_Sessions (CfD_Participants (conference_tree demo_detail_db demo_conference)))))) = [8, 9]"
    by code_simp
  have "ingest (tabs demo_detail_dash) = demo_detail_db" by (simp add: demo_detail_dash_def)
  then show ?thesis using conference_detail_tree [OF ok, of "\<lambda>n. 2 * n" "Some demo_viewer" "''3''"] c row ids by auto
qed

text \<open>The order matters: if the rows of two sessions of a participant alternated, a connection would
  be written into an array the slice has left, and would be missing from the response.\<close>

lemma interleaved_rows_lose:
  "map_option (\<lambda>st. map (\<lambda>sd. map CD_ID (SD_Connections sd))
       (elems (hp st) (the (participantMap st 1))))
     (scan_rows (\<lambda>n. n) [(demo_session 2, Some (demo_conn 8 2)), (demo_session 4, Some (demo_conn 6 4)), (demo_session 2, Some (demo_conn 9 2))]
        (start_scan [1]))
   = Some [[8], [6]]"
  by code_simp

lemma HandleGetConference_keeps: "I (tabs s) \<Longrightarrow> HandleGetConference grow ft sess p s = Some r \<Longrightarrow> keeps I r"
  by (auto simp: HandleGetConference_def keeps_def fail_def done_ok_def split: option.splits if_splits)

end
