(* ===== verification/Share.thy ===== *)
theory Share
  imports Detail
begin

text \<open>
  Share links, \<^verbatim>\<open>services/query-api/handler/share.go\<close>: creation, view, revocation and
  the list.  \<open>HandleGetShareToken\<close> looks for the session in the request context only; what that
  means for the route it is mounted on is a theorem of theory \<open>Query_API\<close>.
\<close>

text \<open>\<open>url.QueryEscape\<close>.\<close>

definition unreserved :: "char \<Rightarrow> bool" where
  "unreserved c \<longleftrightarrow> (let n = (of_char c :: nat) in
     65 \<le> n \<and> n \<le> 90 \<or> 97 \<le> n \<and> n \<le> 122 \<or> 48 \<le> n \<and> n \<le> 57) \<or> c \<in> set ''-_.~''"

definition upper_hex :: "nat \<Rightarrow> char" where
  "upper_hex n = ''0123456789ABCDEF'' ! n"

definition QueryEscape :: "string \<Rightarrow> string" where
  "QueryEscape s = concat (map (\<lambda>c. if unreserved c then [c] else if c = CHR '' '' then ''+''
     else [CHR ''%'', upper_hex (of_char c div 16), upper_hex (of_char c mod 16)]) s)"

definition HandleCreateShareToken ::
  "faults \<Rightarrow> instant \<Rightarrow> string \<Rightarrow> Data option \<Rightarrow> string \<Rightarrow> ('s, 'c) dash \<Rightarrow> ('s, 'c) handled" where
  "HandleCreateShareToken ft now rnd sess confParam s =
     (case sess of
        None \<Rightarrow> fail 401 ''unauthorized'' s
      | Some dt \<Rightarrow>
      case ParseInt confParam of
        None \<Rightarrow> fail 400 ''invalid conference ID'' s
      | Some conferenceID \<Rightarrow>
          if ft ''create share token: query conference'' then fail 500 ''internal error'' s
          else case conference_row_of (ingest (tabs s)) conferenceID of
            None \<Rightarrow> fail 404 ''conference not found'' s
          | Some (c, confOrgID) \<Rightarrow>
              if confOrgID \<noteq> SessOrgID dt then fail 404 ''conference not found'' s
              else if ft ''create share token: generate token'' then fail 500 ''internal error'' s
              else let token = hex_EncodeToString rnd; T = tabs s in
                if ft ''create share token: insert'' \<or> token \<in> st_token ` set (share_tokens T)
                   \<or> SessOrgID dt \<notin> org_id ` set (organizations T) \<or> SessUserID dt \<notin> usr_id ` set (users T)
                then fail 500 ''internal error'' s
                else done_ok 201 (JObj [(''token'', JStr token), (''url'', JStr (''/share/'' @ token))])
                       (s\<lparr>tabs := T\<lparr>share_tokens := share_tokens T @ [\<lparr>st_token = token, st_conference_id = conferenceID,
                          st_org_id = SessOrgID dt, st_created_by = Some (SessUserID dt), st_created_at = pg_time now, st_view_count = 0\<rparr>]\<rparr>\<rparr>))"

definition count_view :: "string \<Rightarrow> tables \<Rightarrow> tables" where
  "count_view token T = T\<lparr>share_tokens := map (\<lambda>t. if st_token t = token then t\<lparr>st_view_count := st_view_count t + 1\<rparr> else t) (share_tokens T)\<rparr>"

definition HandleGetShareToken ::
  "(nat \<Rightarrow> nat) \<Rightarrow> faults \<Rightarrow> Data option \<Rightarrow> string \<Rightarrow> string \<Rightarrow> ('s, 'c) dash \<Rightarrow> ('s, 'c) handled option" where
  "HandleGetShareToken grow ft sess requestURI token s =
     (if token = [] then Some (fail 400 ''token required'' s)
      else case sess of
        None \<Rightarrow> Some (reply 307 NoBody, Some (Location (''/login?next='' @ QueryEscape requestURI)), s)
      | Some dt \<Rightarrow>
          if ft ''get share token: query share_tokens'' \<or> \<not> pg_text token then Some (fail 500 ''internal error'' s)
          else case List.find (\<lambda>t. st_token t = token) (share_tokens (tabs s)) of
            None \<Rightarrow> Some (fail 404 ''share token not found'' s)
          | Some t \<Rightarrow>
              if st_org_id t \<noteq> SessOrgID dt then Some (fail 403 ''forbidden'' s)
              else case fetchConferenceDetail grow ft (ingest (tabs s)) (st_conference_id t) (SessOrgID dt) of
                None \<Rightarrow> None
              | Some (Inl True) \<Rightarrow> Some (fail 404 ''conference not found'' s)
              | Some (Inl False) \<Rightarrow> Some (fail 500 ''internal error'' s)
              | Some (Inr detail) \<Rightarrow>
                  if ft ''get share token: increment view_count'' then Some (fail 500 ''internal error'' s)
                  else Some (done_ok 200 (conference_json detail) (s\<lparr>tabs := count_view token (tabs s)\<rparr>)))"

definition HandleRevokeShareToken :: "faults \<Rightarrow> Data option \<Rightarrow> string \<Rightarrow> ('s, 'c) dash \<Rightarrow> ('s, 'c) handled" where
  "HandleRevokeShareToken ft sess token s =
     (case sess of
        None \<Rightarrow> fail 401 ''unauthorized'' s
      | Some dt \<Rightarrow>
          if token = [] then fail 400 ''token required'' s
          else if ft ''revoke share token: query'' \<or> \<not> pg_text token then fail 500 ''internal error'' s
          else let T = tabs s; hit = (\<lambda>t. st_token t = token \<and> st_org_id t = SessOrgID dt) in
          (case List.find hit (share_tokens T) of
             None \<Rightarrow> fail 404 ''share token not found'' s
           | Some t \<Rightarrow>
               if SessRole dt \<noteq> ''admin'' \<and> st_created_by t \<noteq> Some (SessUserID dt) then fail 403 ''forbidden'' s
               else if ft ''revoke share token: delete'' then fail 500 ''internal error'' s
               else if filter hit (share_tokens T) = [] then fail 404 ''share token not found'' s
               else (reply 204 NoBody, None, s\<lparr>tabs := T\<lparr>share_tokens := filter (\<lambda>t. \<not> hit t) (share_tokens T)\<rparr>\<rparr>)))"

text \<open>\<open>Format(time.RFC3339)\<close> keeps whole seconds.\<close>

definition share_item :: "tables \<Rightarrow> share_row \<times> conference_row \<Rightarrow> jval" where
  "share_item T tc = (let t = fst tc in
     JObj [(''token'', JStr (st_token t)), (''conference_id'', JInt (st_conference_id t)), (''external_id'', JStr (conf_external_id (snd tc))),
       (''created_at'', JTime (st_created_at t div 1000000000 * 1000000000)), (''view_count'', JInt (st_view_count t)),
       (''created_by_name'', JStr (case st_created_by t of None \<Rightarrow> ''unknown''
          | Some u \<Rightarrow> (case find_user T u of None \<Rightarrow> ''unknown'' | Some r \<Rightarrow> usr_name r)))])"

definition HandleListShareTokens :: "faults \<Rightarrow> Data option \<Rightarrow> ('s, 'c) dash \<Rightarrow> ('s, 'c) handled" where
  "HandleListShareTokens ft sess s =
     (case sess of
        None \<Rightarrow> fail 401 ''unauthorized'' s
      | Some dt \<Rightarrow>
          if ft ''list share tokens: query'' \<or> ft ''list share tokens: scan'' \<or> ft ''list share tokens: rows error''
          then fail 500 ''internal error'' s
          else let T = tabs s;
                   own = (\<lambda>t. st_org_id t = SessOrgID dt \<and> (SessRole dt = ''admin'' \<or> st_created_by t = Some (SessUserID dt)));
                   rows = concat (map (\<lambda>t. map (\<lambda>c. (t, c)) (filter (\<lambda>c. conf_id c = st_conference_id t) (conferences (ingest T))))
                            (filter own (share_tokens T))) in
               done_ok 200 (JObj [(''data'', JArr (map (share_item T) (sort_key (\<lambda>tc. - st_created_at (fst tc)) rows)))]) s)"

subsection \<open>Preservation of integrity\<close>

text \<open>Changing the share tokens keeps the tables sound when tokens stay distinct and every token is
  for a conference of its organization.\<close>

lemma change_shares_ok:
  assumes "tables_ok T" and "distinct (map st_token ts)" and "\<And>t. t \<in> set ts \<Longrightarrow> conf_org (ingest T) (st_conference_id t) (st_org_id t)"
  shows "tables_ok (T\<lparr>share_tokens := ts\<rparr>)"
  using assms by (simp add: tables_ok_def tables_ok_defs has_admin_def)

lemma shares_of:
  assumes "tables_ok T"
  shows "distinct (map st_token (share_tokens T))" "t \<in> set (share_tokens T) \<Longrightarrow> conf_org (ingest T) (st_conference_id t) (st_org_id t)"
  using assms by (auto simp: tables_ok_def sharing_ok_def)

lemma conference_row_ofD:
  assumes "conference_row_of d i = Some (c, org)"
  shows "conf_org d i org" "conf_id c = i" "c \<in> set (conferences d)"
  using assms by (fastforce simp: conference_row_of_def conf_org_def app_org_def dest!: find_SomeD split: option.splits)+

lemma new_share_ok:
  assumes "tables_ok T" and "st_token t \<notin> st_token ` set (share_tokens T)" and "conf_org (ingest T) (st_conference_id t) (st_org_id t)"
  shows "tables_ok (T\<lparr>share_tokens := share_tokens T @ [t]\<rparr>)"
  by (rule change_shares_ok) (use assms shares_of [OF assms(1)] in auto)

lemma HandleCreateShareToken_ok: "tables_ok (tabs s) \<Longrightarrow> keeps tables_ok (HandleCreateShareToken ft now rnd sess p s)"
  unfolding HandleCreateShareToken_def by (intro keeps_intro) (auto intro!: new_share_ok dest: conference_row_ofD(1))

lemma count_view_ok: "tables_ok T \<Longrightarrow> tables_ok (count_view token T)"
proof -
  assume ok: "tables_ok T"
  let ?f = "\<lambda>t. if st_token t = token then t\<lparr>st_view_count := st_view_count t + 1\<rparr> else t"
  have "map st_token (map ?f (share_tokens T)) = map st_token (share_tokens T)" by simp
  then show ?thesis unfolding count_view_def
    by (intro change_shares_ok [OF ok]) (use shares_of [OF ok] in \<open>auto simp del: map_map split: if_splits\<close>)
qed

lemma HandleGetShareToken_ok:
  assumes "tables_ok (tabs s)" and "HandleGetShareToken grow ft sess u token s = Some r"
  shows "keeps tables_ok r"
  using assms count_view_ok [OF assms(1), of token]
  by (auto simp: HandleGetShareToken_def keeps_def fail_def done_ok_def split: if_splits option.splits sum.splits bool.splits)

lemma HandleRevokeShareToken_ok: "tables_ok (tabs s) \<Longrightarrow> keeps tables_ok (HandleRevokeShareToken ft sess token s)"
  unfolding HandleRevokeShareToken_def
  by (intro keeps_intro) (auto intro!: change_shares_ok distinct_map_filter dest: shares_of)

lemma HandleListShareTokens_keeps: "I (tabs s) \<Longrightarrow> keeps I (HandleListShareTokens ft sess s)"
  unfolding HandleListShareTokens_def by (intro keeps_intro)

subsection \<open>Properties\<close>

lemma hex_pg_text: "pg_text (hex_EncodeToString b)"
  unfolding pg_text_def using hex_chars [of "CHR 0x00" b] by (auto simp: hex_val_def)

lemma create_share_201:
  assumes "HandleCreateShareToken ft now rnd (Some dt) p s = (r, ck, s')" and "status r = 201"
  obtains i c t where "ParseInt p = Some i" "conference_row_of (ingest (tabs s)) i = Some (c, SessOrgID dt)"
    "st_token t = hex_EncodeToString rnd" "st_token t \<notin> st_token ` set (share_tokens (tabs s))" "st_conference_id t = i"
    "st_org_id t = SessOrgID dt" "st_created_by t = Some (SessUserID dt)"
    "rbody r = OkBody (JObj [(''token'', JStr (st_token t)), (''url'', JStr (''/share/'' @ st_token t))])"
    "s' = s\<lparr>tabs := (tabs s)\<lparr>share_tokens := share_tokens (tabs s) @ [t]\<rparr>\<rparr>"
proof -
  note H = assms(1) [unfolded HandleCreateShareToken_def option.case]
  obtain i where i: "ParseInt p = Some i" using H assms(2) by (cases "ParseInt p") (auto simp: fail_def)
  have f: "\<not> ft ''create share token: query conference''" using H assms(2) by (auto simp: i fail_def)
  obtain c g where c: "conference_row_of (ingest (tabs s)) i = Some (c, g)"
    using H assms(2) by (cases "conference_row_of (ingest (tabs s)) i") (auto simp: i f fail_def)
  have g: "g = SessOrgID dt" using H assms(2) by (auto simp: i f c fail_def split: if_splits)
  let ?t = "\<lparr>st_token = hex_EncodeToString rnd, st_conference_id = i, st_org_id = SessOrgID dt, st_created_by = Some (SessUserID dt),
      st_created_at = pg_time now, st_view_count = 0\<rparr>"
  show ?thesis
    by (rule that [OF i, of c ?t]) (use H assms(2) in \<open>auto simp: i f c g Let_def fail_def done_ok_def split: if_splits\<close>)
qed

lemma find_snoc_new: "x \<notin> key ` set xs \<Longrightarrow> key t = x \<Longrightarrow> P t \<Longrightarrow> List.find (\<lambda>t. key t = x \<and> P t) (xs @ [t]) = Some t"
  by (induction xs) auto

text \<open>(C35) A share link shows the conference it was created for, to its organization only, until it
  is revoked.  After a 201, every session of the creating organization that reaches the view handler
  gets the conference tree and the view is counted; a session of another organization gets 403.  A
  session may revoke the link if it belongs to the organization and is an administrator's or the
  creator's, and revoking restores the tables as they were; a session of another organization cannot
  tell the link from one that does not exist.\<close>
theorem share_link_lifecycle:
  assumes "tables_ok (tabs s)" and "db_ok (ingest (tabs s))" and "rnd \<noteq> []"
    and create: "HandleCreateShareToken (\<lambda>_. False) now rnd (Some dt) p s = (r, ck, s')" "status r = 201"
  shows "\<exists>token i c. rbody r = OkBody (JObj [(''token'', JStr token), (''url'', JStr (''/share/'' @ token))])
    \<and> ParseInt p = Some i \<and> conference_row_of (ingest (tabs s)) i = Some (c, SessOrgID dt)
    \<and> (\<forall>dt' u. HandleGetShareToken grow (\<lambda>_. False) (Some dt') u token s' =
         Some (if SessOrgID dt' = SessOrgID dt
               then done_ok 200 (conference_json (conference_tree (ingest (tabs s)) c)) (s'\<lparr>tabs := count_view token (tabs s')\<rparr>)
               else fail 403 ''forbidden'' s'))
    \<and> (\<forall>dt'. HandleRevokeShareToken (\<lambda>_. False) (Some dt') token s' =
         (if SessOrgID dt' \<noteq> SessOrgID dt then fail 404 ''share token not found'' s'
          else if SessRole dt' = ''admin'' \<or> SessUserID dt' = SessUserID dt then (reply 204 NoBody, None, s)
          else fail 403 ''forbidden'' s'))"
proof -
  obtain i c t where t: "ParseInt p = Some i" "conference_row_of (ingest (tabs s)) i = Some (c, SessOrgID dt)"
    "st_token t = hex_EncodeToString rnd" "st_token t \<notin> st_token ` set (share_tokens (tabs s))" "st_conference_id t = i"
    "st_org_id t = SessOrgID dt" "st_created_by t = Some (SessUserID dt)"
    "rbody r = OkBody (JObj [(''token'', JStr (st_token t)), (''url'', JStr (''/share/'' @ st_token t))])"
    "s' = s\<lparr>tabs := (tabs s)\<lparr>share_tokens := share_tokens (tabs s) @ [t]\<rparr>\<rparr>"
    by (rule create_share_201 [OF create])
  have "hex_EncodeToString rnd \<noteq> []" using assms(3) length_hex [of rnd] by (cases rnd) auto
  then have token: "st_token t \<noteq> []" "pg_text (st_token t)" by (simp_all add: t(3) hex_pg_text)
  have d: "distinct (map sess_id (sessions (ingest (tabs s))))" using assms(2) by (simp add: db_ok_def table_ok_def)
  have f: "List.find (\<lambda>x. st_token x = st_token t) (share_tokens (tabs s')) = Some t"
    using find_snoc_new [OF t(4), of t "\<lambda>_. True"] t(9) by simp
  have view: "HandleGetShareToken grow (\<lambda>_. False) (Some dt') u (st_token t) s' =
      Some (if SessOrgID dt' = SessOrgID dt
        then done_ok 200 (conference_json (conference_tree (ingest (tabs s)) c)) (s'\<lparr>tabs := count_view (st_token t) (tabs s')\<rparr>)
        else fail 403 ''forbidden'' s')" for dt' u
    using token f t(2,5,6,9) by (simp add: HandleGetShareToken_def fetchConferenceDetail_def assemble_tree [OF d])
  have none: "filter (\<lambda>x. st_token x = st_token t \<and> P x) (share_tokens (tabs s)) = []" for P using t(4) by (auto simp: filter_empty_conv image_iff)
  have "HandleRevokeShareToken (\<lambda>_. False) (Some dt') (st_token t) s' =
      (if SessOrgID dt' \<noteq> SessOrgID dt then fail 404 ''share token not found'' s'
       else if SessRole dt' = ''admin'' \<or> SessUserID dt' = SessUserID dt then (reply 204 NoBody, None, s)
       else fail 403 ''forbidden'' s')" for dt'
  proof (cases "SessOrgID dt' = SessOrgID dt")
    case False
    have "List.find (\<lambda>x. st_token x = st_token t \<and> st_org_id x = SessOrgID dt') (share_tokens (tabs s')) = None"
      using t(4,6,9) False by (auto simp: find_None_iff image_iff)
    then show ?thesis using False token by (simp add: HandleRevokeShareToken_def)
  next
    case True
    have h: "List.find (\<lambda>x. st_token x = st_token t \<and> st_org_id x = SessOrgID dt) (share_tokens (tabs s')) = Some t"
      using find_snoc_new [OF t(4), of t "\<lambda>x. st_org_id x = SessOrgID dt"] t(6,9) by simp
    have keep: "filter (\<lambda>x. st_token x = st_token t \<longrightarrow> st_org_id x \<noteq> SessOrgID dt) (share_tokens (tabs s)) = share_tokens (tabs s)"
      using t(4) by (auto simp: filter_id_conv image_iff)
    show ?thesis using True token h t(6,7,9) keep none by (auto simp: HandleRevokeShareToken_def Let_def)
  qed
  then show ?thesis using t(1,2,8) view by blast
qed

definition demo_share_dash :: "(unit, unit) dash" where
  "demo_share_dash = \<lparr>tabs = empty_tables\<lparr>ingest := demo_detail_db, next_app := 8,
     users := [\<lparr>usr_id = 1, usr_email = ''a@x'', usr_name = ''A'', usr_password_hash = ''h''\<rparr>], next_user := 2,
     organizations := [\<lparr>org_id = 1, org_name = ''O'', org_created_at = 0\<rparr>], next_org := 2,
     members := [\<lparr>mem_org_id = 1, mem_user_id = 1, mem_role = ''admin'', mem_invited_by = None, mem_joined_at = 0\<rparr>]\<rparr>, store = (), cache = ()\<rparr>"

theorem share_link_lifecycle_witness:
  "\<exists>token. rbody (fst (HandleCreateShareToken (\<lambda>_. False) 5 ''ab'' (Some demo_viewer) ''3'' demo_share_dash))
       = OkBody (JObj [(''token'', JStr token), (''url'', JStr (''/share/'' @ token))])
   \<and> HandleRevokeShareToken (\<lambda>_. False) (Some demo_viewer) token
       (snd (snd (HandleCreateShareToken (\<lambda>_. False) 5 ''ab'' (Some demo_viewer) ''3'' demo_share_dash))) = (reply 204 NoBody, None, demo_share_dash)"
proof -
  let ?h = "HandleCreateShareToken (\<lambda>_. False) 5 ''ab'' (Some demo_viewer) ''3'' demo_share_dash"
  have db: "db_ok demo_detail_db"
    by (simp add: demo_detail_db_def db_ok_def table_ok_def empty_db_def demo_conference_def demo_session_def demo_conn_def)
  have ok: "tables_ok (tabs demo_share_dash)"
    by (simp add: demo_share_dash_def tables_ok_def tables_ok_defs has_admin_def roles_def table_ok_def empty_tables_def demo_detail_db_def
        empty_db_def demo_conference_def)
  have st: "status (fst ?h) = 201" by code_simp
  have h: "?h = (fst ?h, fst (snd ?h), snd (snd ?h))" by simp
  from share_link_lifecycle [OF ok _ _ h st] db show ?thesis by (fastforce simp: demo_share_dash_def)
qed

end
