(* ===== verification/Apps.thy ===== *)
theory Apps
  imports Accounts Auth
begin

text \<open>
  Applications and their keys: \<^verbatim>\<open>services/query-api/handler/app.go\<close> (list, create,
  delete, client key) and \<^verbatim>\<open>handler/server_key.go\<close> (the key pair a media server signs
  its requests with).

  Deleting an application cascades through the foreign keys declared \<open>ON DELETE CASCADE\<close>:
  conferences, participants, sessions, connections, events, quality rows and share tokens.  The
  reference from \<open>connection_stats\<close> to \<open>connections\<close> has no such clause, so the
  statement is refused while statistics of the application exist (those in partitions that were
  detached and not dropped are not kept by the model).

  The last theorem connects the two services: a key pair handed out here is accepted by the API-key
  middleware of the ingest API.
\<close>

record CreateAppRequest =
  CA_Name :: string
  CA_RetentionDays :: int

definition generateClientKey :: "faults \<Rightarrow> string \<Rightarrow> string option" where
  "generateClientKey ft b = (if ft ''generateClientKey'' then None else Some (hex_EncodeToString b))"

definition parseOrgParams :: "Data option \<Rightarrow> string \<Rightarrow> jval resp + int" where
  "parseOrgParams sess orgParam =
     (case sess of
        None \<Rightarrow> Inl (err_reply 401 ''unauthorized'')
      | Some d \<Rightarrow>
      case ParseInt orgParam of
        None \<Rightarrow> Inl (err_reply 400 ''invalid orgId'')
      | Some orgID \<Rightarrow> if SessOrgID d \<noteq> orgID then Inl (err_reply 403 ''forbidden'') else Inr orgID)"

definition parseAppParams :: "Data option \<Rightarrow> string \<Rightarrow> string \<Rightarrow> jval resp + (int \<times> int)" where
  "parseAppParams sess orgParam appParam =
     (case parseOrgParams sess orgParam of
        Inl r \<Rightarrow> Inl r
      | Inr orgID \<Rightarrow>
      case ParseInt appParam of
        None \<Rightarrow> Inl (err_reply 400 ''invalid appId'')
      | Some appID \<Rightarrow> Inr (orgID, appID))"

definition app_item :: "app_row \<Rightarrow> (string \<times> jval) list" where
  "app_item a = [(''id'', JInt (app_id a)), (''org_id'', JInt (app_org_id a)), (''name'', JStr (app_name a)),
     (''retention_days'', JInt (retention_days a)), (''created_at'', JTime (app_created_at a))]"

definition HandleListApps :: "faults \<Rightarrow> Data option \<Rightarrow> string \<Rightarrow> ('s, 'c) dash \<Rightarrow> ('s, 'c) handled" where
  "HandleListApps ft sess orgParam s =
     (case parseOrgParams sess orgParam of
        Inl r \<Rightarrow> (r, None, s)
      | Inr orgID \<Rightarrow>
          if ft ''HandleListApps: db.Query'' \<or> ft ''HandleListApps: rows.Scan'' \<or> ft ''HandleListApps: rows.Err''
          then fail 500 ''internal service error'' s
          else done_ok 200 (JObj [(''data'', JArr (map (\<lambda>a. JObj (app_item a))
                 (sort_key app_created_at (filter (\<lambda>a. app_org_id a = orgID) (apps (ingest (tabs s)))))))]) s)"

subsection \<open>Statements on applications\<close>

definition insert_app :: "instant \<Rightarrow> int \<Rightarrow> string \<Rightarrow> string \<Rightarrow> int \<Rightarrow> tables \<Rightarrow> (app_row \<times> tables) option" where
  "insert_app now org name hash days T =
     (if org \<notin> org_id ` set (organizations T) \<or> \<not> pg_text name \<or> \<not> in_i32 days then None
      else let a = \<lparr>app_id = next_app T, app_org_id = org, retention_days = days, observation_config = None,
                    server_api_key = None, server_api_secret_enc = None, app_name = name, app_api_key_hash = hash,
                    app_created_at = pg_time now, app_server_key_created_at = None\<rparr>
           in Some (a, T\<lparr>ingest := (ingest T)\<lparr>apps := apps (ingest T) @ [a]\<rparr>, next_app := next_app T + 1\<rparr>))"

definition update_app :: "int \<Rightarrow> int \<Rightarrow> (app_row \<Rightarrow> app_row) \<Rightarrow> tables \<Rightarrow> tables" where
  "update_app appID orgID f T =
     T\<lparr>ingest := (ingest T)\<lparr>apps := map (\<lambda>a. if app_id a = appID \<and> app_org_id a = orgID then f a else a) (apps (ingest T))\<rparr>\<rparr>"

text \<open>The ids of the rows below an application, level by level.\<close>

definition app_confs :: "database \<Rightarrow> int \<Rightarrow> int set" where
  "app_confs d appID = conf_id ` set (filter (\<lambda>c. conf_app_id c = appID) (conferences d))"

definition app_parts :: "database \<Rightarrow> int \<Rightarrow> int set" where
  "app_parts d appID = part_id ` set (filter (\<lambda>p. part_conference_id p \<in> app_confs d appID) (participants d))"

definition app_sess :: "database \<Rightarrow> int \<Rightarrow> int set" where
  "app_sess d appID = sess_id ` set (filter (\<lambda>x. sess_participant_id x \<in> app_parts d appID) (sessions d))"

definition app_conns :: "database \<Rightarrow> int \<Rightarrow> int set" where
  "app_conns d appID = conn_id ` set (filter (\<lambda>x. conn_session_id x \<in> app_sess d appID) (connections d))"

definition has_stats :: "database \<Rightarrow> int \<Rightarrow> bool" where
  "has_stats d appID \<longleftrightarrow> (\<exists>r \<in> set (connection_stats d). cs_connection_id r \<in> app_conns d appID)"

definition in_ids :: "int option \<Rightarrow> int set \<Rightarrow> bool" where
  "in_ids x ids = (case x of None \<Rightarrow> False | Some i \<Rightarrow> i \<in> ids)"

definition delete_app :: "int \<Rightarrow> tables \<Rightarrow> tables option" where
  "delete_app appID T =
     (let d = ingest T in
      if has_stats d appID then None
      else Some (T\<lparr>share_tokens := filter (\<lambda>t. st_conference_id t \<notin> app_confs d appID) (share_tokens T),
                   ingest := d\<lparr>apps := filter (\<lambda>a. app_id a \<noteq> appID) (apps d),
                     conferences := filter (\<lambda>c. conf_app_id c \<noteq> appID) (conferences d),
                     participants := filter (\<lambda>p. part_conference_id p \<notin> app_confs d appID) (participants d),
                     sessions := filter (\<lambda>x. sess_participant_id x \<notin> app_parts d appID) (sessions d),
                     connections := filter (\<lambda>x. conn_session_id x \<notin> app_sess d appID) (connections d),
                     events := filter (\<lambda>e. \<not> in_ids (ev_connection_id e) (app_conns d appID) \<and> \<not> in_ids (ev_session_id e) (app_sess d appID)) (events d),
                     session_quality := filter (\<lambda>q. q_session_id q \<notin> app_sess d appID) (session_quality d)\<rparr>\<rparr>))"

subsection \<open>Handlers of app.go\<close>

definition HandleCreateApp ::
  "bcrypt \<Rightarrow> faults \<Rightarrow> instant \<Rightarrow> string \<Rightarrow> string \<Rightarrow> Data option \<Rightarrow> string \<Rightarrow> CreateAppRequest option
     \<Rightarrow> ('s, 'c) dash \<Rightarrow> ('s, 'c) handled" where
  "HandleCreateApp bc ft now salt rnd sess orgParam body s =
     (case parseOrgParams sess orgParam of
        Inl r \<Rightarrow> (r, None, s)
      | Inr orgID \<Rightarrow>
      case body of
        None \<Rightarrow> fail 400 ''invalid request body'' s
      | Some req \<Rightarrow>
          if CA_Name req = [] then fail 400 ''name is required'' s
          else let days = (if CA_RetentionDays req \<le> 0 then 90 else CA_RetentionDays req) in
          (case generateClientKey ft rnd of
             None \<Rightarrow> fail 500 ''internal service error'' s
           | Some apiKey \<Rightarrow>
           case GenerateFromPassword bc salt apiKey of
             None \<Rightarrow> fail 500 ''internal service error'' s
           | Some hash \<Rightarrow>
               if ft ''HandleCreateApp: insert app'' then fail 500 ''internal service error'' s
               else case insert_app now orgID (CA_Name req) hash days (tabs s) of
                 None \<Rightarrow> fail 500 ''internal service error'' s
               | Some (a, T') \<Rightarrow> done_ok 201 (JObj (app_item a @ [(''api_key'', JStr apiKey)])) (s\<lparr>tabs := T'\<rparr>)))"

definition HandleDeleteApp :: "faults \<Rightarrow> Data option \<Rightarrow> string \<Rightarrow> string \<Rightarrow> ('s, 'c) dash \<Rightarrow> ('s, 'c) handled" where
  "HandleDeleteApp ft sess orgParam appParam s =
     (case parseAppParams sess orgParam appParam of
        Inl r \<Rightarrow> (r, None, s)
      | Inr (orgID, appID) \<Rightarrow>
          if ft ''HandleDeleteApp: check existence'' then fail 500 ''internal service error'' s
          else case find_app (tabs s) appID orgID of
            None \<Rightarrow> fail 404 ''app not found'' s
          | Some a \<Rightarrow>
              if ft ''HandleDeleteApp: delete app'' then fail 500 ''internal service error'' s
              else case delete_app appID (tabs s) of
                None \<Rightarrow> fail 500 ''internal service error'' s
              | Some T' \<Rightarrow> (reply 204 NoBody, None, s\<lparr>tabs := T'\<rparr>))"

definition HandleRotateKey ::
  "bcrypt \<Rightarrow> faults \<Rightarrow> string \<Rightarrow> string \<Rightarrow> Data option \<Rightarrow> string \<Rightarrow> string \<Rightarrow> ('s, 'c) dash \<Rightarrow> ('s, 'c) handled" where
  "HandleRotateKey bc ft salt rnd sess orgParam appParam s =
     (case parseAppParams sess orgParam appParam of
        Inl r \<Rightarrow> (r, None, s)
      | Inr (orgID, appID) \<Rightarrow>
          if ft ''HandleRotateKey: check existence'' then fail 500 ''internal service error'' s
          else case find_app (tabs s) appID orgID of
            None \<Rightarrow> fail 404 ''app not found'' s
          | Some a \<Rightarrow>
          (case generateClientKey ft rnd of
             None \<Rightarrow> fail 500 ''internal service error'' s
           | Some newKey \<Rightarrow>
           case GenerateFromPassword bc salt newKey of
             None \<Rightarrow> fail 500 ''internal service error'' s
           | Some hash \<Rightarrow>
               if ft ''HandleRotateKey: update api_key_hash'' then fail 500 ''internal service error'' s
               else done_ok 200 (JObj [(''api_key'', JStr newKey)])
                      (s\<lparr>tabs := update_app appID orgID (\<lambda>a. a\<lparr>app_api_key_hash := hash\<rparr>) (tabs s)\<rparr>)))"

subsection \<open>Handlers of server\_key.go\<close>

definition extractKeyParams :: "Data option \<Rightarrow> string \<Rightarrow> string \<Rightarrow> jval resp + (int \<times> int)" where
  "extractKeyParams sess orgParam appParam =
     (case sess of
        None \<Rightarrow> Inl (err_reply 401 ''unauthorized'')
      | Some d \<Rightarrow>
      case ParseInt orgParam of
        None \<Rightarrow> Inl (err_reply 400 ''invalid orgId'')
      | Some orgID \<Rightarrow>
          if orgID \<le> 0 then Inl (err_reply 400 ''invalid orgId'')
          else if orgID \<noteq> SessOrgID d then Inl (err_reply 403 ''forbidden'')
          else case ParseInt appParam of
            None \<Rightarrow> Inl (err_reply 400 ''invalid appId'')
          | Some appID \<Rightarrow> if appID \<le> 0 then Inl (err_reply 400 ''invalid appId'') else Inr (orgID, appID))"

text \<open>The columns the handlers read of an application; \<open>Inl\<close> is a database error.\<close>

definition fetchAppRow :: "faults \<Rightarrow> int \<Rightarrow> int \<Rightarrow> tables \<Rightarrow> unit + (string option \<times> string option \<times> instant option) option" where
  "fetchAppRow ft appID orgID T =
     (if ft ''fetchAppRow'' then Inl ()
      else Inr (map_option (\<lambda>a. (server_api_key a, server_api_secret_enc a, app_server_key_created_at a)) (find_app T appID orgID)))"

definition generateAndStore ::
  "crypto \<Rightarrow> faults \<Rightarrow> instant \<Rightarrow> string \<Rightarrow> string \<Rightarrow> string \<Rightarrow> string \<Rightarrow> int \<Rightarrow> int \<Rightarrow> tables
     \<Rightarrow> (string \<times> string \<times> instant \<times> tables) option" where
  "generateAndStore c ft now keyBytes secretBytes nonce masterKey appID orgID T =
     (case GenerateKeyPair ft keyBytes secretBytes of
        Inl e \<Rightarrow> None
      | Inr (apiKey, secret) \<Rightarrow>
      case EncryptSecret c ft nonce masterKey secret of
        Inl e \<Rightarrow> None
      | Inr secretEnc \<Rightarrow>
          if ft ''generateAndStore: update'' \<or> find_app T appID orgID = None
             \<or> (\<exists>a \<in> set (apps (ingest T)). server_api_key a = Some apiKey \<and> \<not> (app_id a = appID \<and> app_org_id a = orgID))
          then None
          else Some (apiKey, secret, pg_time now,
                 update_app appID orgID (\<lambda>a. a\<lparr>server_api_key := Some apiKey, server_api_secret_enc := Some secretEnc,
                                               app_server_key_created_at := Some (pg_time now)\<rparr>) T))"

definition key_response :: "string \<Rightarrow> string \<Rightarrow> instant \<Rightarrow> jval" where
  "key_response apiKey secret createdAt =
     JObj [(''api_key'', JStr apiKey), (''api_secret'', JStr secret), (''created_at'', JTime createdAt)]"

text \<open>Generation and rotation differ in whether a key must be absent or present, and in the status
  of the answer; each is written out as the source has it.\<close>

definition HandleGenerateServerKey ::
  "crypto \<Rightarrow> faults \<Rightarrow> instant \<Rightarrow> string \<Rightarrow> string \<Rightarrow> string \<Rightarrow> string \<Rightarrow> Data option \<Rightarrow> string \<Rightarrow> string
     \<Rightarrow> ('s, 'c) dash \<Rightarrow> ('s, 'c) handled" where
  "HandleGenerateServerKey c ft now keyBytes secretBytes nonce masterKey sess orgParam appParam s =
     (case extractKeyParams sess orgParam appParam of
        Inl r \<Rightarrow> (r, None, s)
      | Inr (orgID, appID) \<Rightarrow>
      case requireAdmin sess of
        Some r \<Rightarrow> (r, None, s)
      | None \<Rightarrow>
          if length masterKey \<noteq> 32 then fail 503 ''server key management not configured'' s
          else case fetchAppRow ft appID orgID (tabs s) of
            Inl _ \<Rightarrow> fail 500 ''internal error'' s
          | Inr None \<Rightarrow> fail 404 ''app not found'' s
          | Inr (Some (serverKey, _, _)) \<Rightarrow>
              if serverKey \<noteq> None then fail 409 ''server key already exists, use rotate-server-key to replace'' s
              else case generateAndStore c ft now keyBytes secretBytes nonce masterKey appID orgID (tabs s) of
                None \<Rightarrow> fail 500 ''internal error'' s
              | Some (apiKey, secret, createdAt, T') \<Rightarrow> done_ok 201 (key_response apiKey secret createdAt) (s\<lparr>tabs := T'\<rparr>))"

definition HandleGetServerKey :: "faults \<Rightarrow> Data option \<Rightarrow> string \<Rightarrow> string \<Rightarrow> ('s, 'c) dash \<Rightarrow> ('s, 'c) handled option" where
  "HandleGetServerKey ft sess orgParam appParam s =
     (case extractKeyParams sess orgParam appParam of
        Inl r \<Rightarrow> Some (r, None, s)
      | Inr (orgID, appID) \<Rightarrow>
      case fetchAppRow ft appID orgID (tabs s) of
        Inl _ \<Rightarrow> Some (fail 500 ''internal error'' s)
      | Inr None \<Rightarrow> Some (fail 404 ''app not found'' s)
      | Inr (Some (serverKey, secretEnc, created)) \<Rightarrow>
      case serverKey of
        None \<Rightarrow> Some (fail 404 ''no server key configured for this app'' s)
      | Some k \<Rightarrow>
      case created of
        None \<Rightarrow> None
      | Some t \<Rightarrow> Some (done_ok 200 (JObj [(''api_key'', JStr k), (''has_secret'', JBool (secretEnc \<noteq> None)), (''created_at'', JTime t)]) s))"

definition HandleDeleteServerKey :: "faults \<Rightarrow> Data option \<Rightarrow> string \<Rightarrow> string \<Rightarrow> ('s, 'c) dash \<Rightarrow> ('s, 'c) handled" where
  "HandleDeleteServerKey ft sess orgParam appParam s =
     (case extractKeyParams sess orgParam appParam of
        Inl r \<Rightarrow> (r, None, s)
      | Inr (orgID, appID) \<Rightarrow>
      case requireAdmin sess of
        Some r \<Rightarrow> (r, None, s)
      | None \<Rightarrow>
      case fetchAppRow ft appID orgID (tabs s) of
        Inl _ \<Rightarrow> fail 500 ''internal error'' s
      | Inr None \<Rightarrow> fail 404 ''app not found'' s
      | Inr (Some (serverKey, _, _)) \<Rightarrow>
          if serverKey = None then fail 404 ''no server key configured for this app'' s
          else if ft ''delete server key: update'' then fail 500 ''internal error'' s
          else (reply 204 NoBody, None,
                s\<lparr>tabs := update_app appID orgID (\<lambda>a. a\<lparr>server_api_key := None, server_api_secret_enc := None,
                                                        app_server_key_created_at := None\<rparr>) (tabs s)\<rparr>))"

definition HandleRotateServerKey ::
  "crypto \<Rightarrow> faults \<Rightarrow> instant \<Rightarrow> string \<Rightarrow> string \<Rightarrow> string \<Rightarrow> string \<Rightarrow> Data option \<Rightarrow> string \<Rightarrow> string
     \<Rightarrow> ('s, 'c) dash \<Rightarrow> ('s, 'c) handled" where
  "HandleRotateServerKey c ft now keyBytes secretBytes nonce masterKey sess orgParam appParam s =
     (case extractKeyParams sess orgParam appParam of
        Inl r \<Rightarrow> (r, None, s)
      | Inr (orgID, appID) \<Rightarrow>
      case requireAdmin sess of
        Some r \<Rightarrow> (r, None, s)
      | None \<Rightarrow>
          if length masterKey \<noteq> 32 then fail 503 ''server key management not configured'' s
          else case fetchAppRow ft appID orgID (tabs s) of
            Inl _ \<Rightarrow> fail 500 ''internal error'' s
          | Inr None \<Rightarrow> fail 404 ''app not found'' s
          | Inr (Some (serverKey, _, _)) \<Rightarrow>
              if serverKey = None then fail 404 ''no server key to rotate, use POST server-key to create one'' s
              else case generateAndStore c ft now keyBytes secretBytes nonce masterKey appID orgID (tabs s) of
                None \<Rightarrow> fail 500 ''internal error'' s
              | Some (apiKey, secret, createdAt, T') \<Rightarrow> done_ok 200 (key_response apiKey secret createdAt) (s\<lparr>tabs := T'\<rparr>))"

subsection \<open>Preservation of integrity\<close>

text \<open>Server keys are unique, and the three columns of a key are set together.\<close>

definition key_complete :: "app_row \<Rightarrow> bool" where
  "key_complete a \<longleftrightarrow> (server_api_key a = None \<longleftrightarrow> server_api_secret_enc a = None)
     \<and> (server_api_key a = None \<longleftrightarrow> app_server_key_created_at a = None)"

definition key_shared :: "app_row \<Rightarrow> app_row \<Rightarrow> bool" where
  "key_shared a b \<longleftrightarrow> server_api_key a \<noteq> None \<and> server_api_key a = server_api_key b"

definition keys_ok :: "tables \<Rightarrow> bool" where
  "keys_ok T \<longleftrightarrow> (\<forall>a \<in> set (apps (ingest T)). key_complete a
     \<and> (\<forall>b \<in> set (apps (ingest T)). key_shared a b \<longrightarrow> app_id a = app_id b))"

lemma key_shared_sym: "key_shared a b \<longleftrightarrow> key_shared b a"
  by (cases "server_api_key a"; cases "server_api_key b") (auto simp: key_shared_def)

lemma no_key [simp]:
  "server_api_key a = None \<Longrightarrow> \<not> key_shared a b" "server_api_key a = None \<Longrightarrow> \<not> key_shared b a"
  "server_api_key a = None \<Longrightarrow> server_api_secret_enc a = None \<Longrightarrow> app_server_key_created_at a = None \<Longrightarrow> key_complete a"
  by (auto simp: key_shared_def key_complete_def simp del: not_None_eq)

definition dash_ok :: "tables \<Rightarrow> bool" where
  "dash_ok T \<longleftrightarrow> tables_ok T \<and> keys_ok T \<and> db_ok (ingest T)"

lemma find_appD: "find_app T appID orgID = Some a \<Longrightarrow> a \<in> set (apps (ingest T)) \<and> app_id a = appID \<and> app_org_id a = orgID"
  by (auto simp: find_app_def dest: find_SomeD)

lemma app_unique:
  "dash_ok T \<Longrightarrow> a \<in> set (apps (ingest T)) \<Longrightarrow> b \<in> set (apps (ingest T)) \<Longrightarrow> app_id a = app_id b \<Longrightarrow> a = b"
  by (auto simp: dash_ok_def db_ok_def distinct_map dest: inj_onD)

lemma insert_app_ok:
  assumes "dash_ok T" and "insert_app now org name hash days T = Some (a, T')"
  shows "dash_ok T'"
proof -
  have a: "app_id a = next_app T" "app_org_id a = org" "server_api_key a = None" "server_api_secret_enc a = None"
      "app_server_key_created_at a = None" "org \<in> org_id ` set (organizations T)"
    and T': "T' = T\<lparr>ingest := (ingest T)\<lparr>apps := apps (ingest T) @ [a]\<rparr>, next_app := next_app T + 1\<rparr>"
    using assms(2) by (auto simp: insert_app_def Let_def split: if_splits)
  have new: "\<forall>b \<in> set (apps (ingest T)). app_id b < next_app T" using assms(1) by (simp add: dash_ok_def tables_ok_def sharing_ok_def)
  then have "next_app T \<notin> app_id ` set (apps (ingest T))" by auto
  moreover have "conf_org (ingest T) i g \<Longrightarrow> conf_org (ingest T') i g" for i g using T' by (auto simp: conf_org_def app_org_def)
  ultimately have "sharing_ok T'" using assms(1) a T' new by (auto simp: dash_ok_def tables_ok_def sharing_ok_def)
  then have "tables_ok T'" using assms(1) T' by (simp add: dash_ok_def tables_ok_def accounts_ok_def invitations_ok_def has_admin_def)
  moreover have "keys_ok T'" using assms(1) a(3-5) T' by (simp add: dash_ok_def keys_ok_def ball_Un)
  moreover have "db_ok (ingest T')" using assms(1) a(1) T' \<open>next_app T \<notin> app_id ` set (apps (ingest T))\<close> by (auto simp: dash_ok_def db_ok_def)
  ultimately show ?thesis by (simp add: dash_ok_def)
qed

lemma update_app_tables:
  assumes "tables_ok T" and "\<And>a. app_id (f a) = app_id a" and "\<And>a. app_org_id (f a) = app_org_id a"
  shows "tables_ok (update_app appID orgID f T)" "db_ok (ingest (update_app appID orgID f T)) \<longleftrightarrow> db_ok (ingest T)"
proof -
  let ?f = "\<lambda>a. if app_id a = appID \<and> app_org_id a = orgID then f a else a" and ?T = "update_app appID orgID f T"
  have as: "apps (ingest ?T) = map ?f (apps (ingest T))" by (simp add: update_app_def)
  have ids: "map app_id (apps (ingest ?T)) = map app_id (apps (ingest T))" "map app_org_id (apps (ingest ?T)) = map app_org_id (apps (ingest T))"
    "map (\<lambda>a. (app_id a, app_org_id a)) (apps (ingest ?T)) = map (\<lambda>a. (app_id a, app_org_id a)) (apps (ingest T))"
    unfolding as using assms(2,3) by simp_all
  note sets = ids [THEN arg_cong [where f = set], unfolded set_map]
  have rest: "conferences (ingest ?T) = conferences (ingest T)" "participants (ingest ?T) = participants (ingest T)"
    "sessions (ingest ?T) = sessions (ingest T)" "connections (ingest ?T) = connections (ingest T)"
    "connection_stats (ingest ?T) = connection_stats (ingest T)" "next_conf (ingest ?T) = next_conf (ingest T)"
    "next_part (ingest ?T) = next_part (ingest T)" "next_sess (ingest ?T) = next_sess (ingest T)" "next_conn (ingest ?T) = next_conn (ingest T)"
    "share_tokens ?T = share_tokens T" "organizations ?T = organizations T" "next_app ?T = next_app T"
    by (simp_all add: update_app_def)
  have ao: "app_org d i g \<longleftrightarrow> (i, g) \<in> (\<lambda>a. (app_id a, app_org_id a)) ` set (apps d)" for d i g by (auto simp: app_org_def)
  have conf: "conf_org (ingest ?T) i g \<longleftrightarrow> conf_org (ingest T) i g" for i g unfolding conf_org_def ao by (simp only: rest sets)
  have lt: "(\<forall>a \<in> set as. app_id a < n) \<longleftrightarrow> (\<forall>i \<in> app_id ` set as. i < n)" for as n by simp
  have "sharing_ok ?T \<longleftrightarrow> sharing_ok T" unfolding sharing_ok_def lt by (simp only: rest conf ids sets)
  moreover have "accounts_ok ?T \<longleftrightarrow> accounts_ok T" "invitations_ok ?T \<longleftrightarrow> invitations_ok T"
    by (simp_all add: update_app_def accounts_ok_def invitations_ok_def has_admin_def)
  ultimately show "tables_ok ?T" using assms(1) by (simp add: tables_ok_def)
  show "db_ok (ingest ?T) \<longleftrightarrow> db_ok (ingest T)" unfolding db_ok_def by (simp only: rest ids sets)
qed

lemma update_app_ok:
  assumes "dash_ok T" and "\<And>a. app_id (f a) = app_id a" and "\<And>a. app_org_id (f a) = app_org_id a"
    and complete: "\<And>a. key_complete a \<Longrightarrow> key_complete (f a)"
    and shared: "\<And>a b. a \<in> set (apps (ingest T)) \<Longrightarrow> app_id a = appID \<Longrightarrow> app_org_id a = orgID \<Longrightarrow>
           b \<in> set (apps (ingest T)) \<Longrightarrow> key_shared (f a) b \<Longrightarrow> app_id b = appID"
  shows "dash_ok (update_app appID orgID f T)"
proof -
  let ?f = "\<lambda>a. if app_id a = appID \<and> app_org_id a = orgID then f a else a"
  have ok: "keys_ok T" using assms(1) by (simp add: dash_ok_def)
  have as: "set (apps (ingest (update_app appID orgID f T))) = ?f ` set (apps (ingest T))"
    by (simp only: update_app_def tables.simps database.simps set_map) simp
  have "keys_ok (update_app appID orgID f T)"
    unfolding keys_ok_def as
  proof (intro ballI conjI impI; elim imageE; hypsubst)
    fix a assume a: "a \<in> set (apps (ingest T))"
    then have "key_complete a" using ok by (simp add: keys_ok_def)
    then show "key_complete (?f a)" using complete by simp
    fix b assume b: "b \<in> set (apps (ingest T))" and s: "key_shared (?f a) (?f b)"
    consider "?f a = a" "?f b = b" | "app_id a = appID" "app_org_id a = orgID" "app_id b = appID"
      | "app_id a = appID" "app_org_id a = orgID" "?f b = b" | "app_id b = appID" "app_org_id b = orgID" "?f a = a"
      by (cases "app_id a = appID \<and> app_org_id a = orgID"; cases "app_id b = appID \<and> app_org_id b = orgID") auto
    then have "app_id a = app_id b"
    proof cases
      case 1
      then show ?thesis using ok a b s unfolding keys_ok_def by metis
    next
      case 3
      then show ?thesis using shared [OF a _ _ b] s by simp
    next
      case 4
      then show ?thesis using shared [OF b _ _ a] s key_shared_sym by simp
    qed simp
    then show "app_id (?f a) = app_id (?f b)" using assms(2) by simp
  qed
  then show ?thesis using update_app_tables [of T f appID orgID] assms(1-3) by (simp add: dash_ok_def)
qed

lemma table_ok_filter: "table_ok key rid n rows \<Longrightarrow> table_ok key rid n (filter P rows)"
  by (auto simp: table_ok_def distinct_map_filter)

text \<open>A level of the hierarchy below the deleted application: rows whose parent goes, go, and so
  the parents of the rows that stay, stay.\<close>

lemma parents_stay:
  assumes "fk ` set rows \<subseteq> pid ` set parents" and "\<forall>r \<in> set rows. fk r \<notin> pid ` set (filter (\<lambda>p. \<not> Q p) parents)"
  shows "fk ` set rows \<subseteq> pid ` set (filter Q parents)"
  using assms by fastforce

lemma cascade_level:
  assumes "fk ` set rows \<subseteq> pid ` set parents"
  shows "fk ` set (filter (\<lambda>r. fk r \<notin> pid ` set (filter (\<lambda>p. \<not> Q p) parents)) rows) \<subseteq> pid ` set (filter Q parents)"
  by (rule parents_stay) (use assms in auto)

lemma delete_app_ok:
  assumes "dash_ok T" and "delete_app appID T = Some T'"
  shows "dash_ok T'"
proof -
  let ?d = "ingest T" and ?d' = "ingest T'"
  have ok: "tables_ok T" "keys_ok T" "db_ok ?d" using assms(1) by (auto simp: dash_ok_def)
  have st: "\<not> has_stats ?d appID" and
    T': "share_tokens T' = filter (\<lambda>t. st_conference_id t \<notin> app_confs ?d appID) (share_tokens T)" "users T' = users T"
      "organizations T' = organizations T" "members T' = members T" "invitations T' = invitations T" "next_user T' = next_user T"
      "next_org T' = next_org T" "next_app T' = next_app T" and
    rows: "apps ?d' = filter (\<lambda>a. app_id a \<noteq> appID) (apps ?d)" "conferences ?d' = filter (\<lambda>c. conf_app_id c \<noteq> appID) (conferences ?d)"
      "participants ?d' = filter (\<lambda>p. part_conference_id p \<notin> app_confs ?d appID) (participants ?d)"
      "sessions ?d' = filter (\<lambda>x. sess_participant_id x \<notin> app_parts ?d appID) (sessions ?d)"
      "connections ?d' = filter (\<lambda>x. conn_session_id x \<notin> app_sess ?d appID) (connections ?d)"
      "connection_stats ?d' = connection_stats ?d"
      "next_conf ?d' = next_conf ?d" "next_part ?d' = next_part ?d" "next_sess ?d' = next_sess ?d" "next_conn ?d' = next_conn ?d"
    using assms(2) by (auto simp: delete_app_def Let_def split: if_splits)
  have "conf_org ?d' i g" if co: "conf_org ?d i g" "i \<notin> app_confs ?d appID" for i g
  proof -
    obtain c a where ca: "c \<in> set (conferences ?d)" "conf_id c = i" "a \<in> set (apps ?d)" "app_id a = conf_app_id c" "app_org_id a = g"
      using co(1) unfolding conf_org_def app_org_def by blast
    then have "conf_app_id c \<noteq> appID" using co(2) by (auto simp: app_confs_def)
    with ca show ?thesis unfolding conf_org_def app_org_def by (intro bexI [of _ c] conjI bexI [of _ a]) (simp_all add: rows)
  qed
  then have "sharing_ok T'" using ok(1) T' rows by (auto simp: tables_ok_def sharing_ok_def distinct_map_filter)
  then have "tables_ok T'" using ok(1) T' by (simp add: tables_ok_def accounts_ok_def invitations_ok_def has_admin_def)
  moreover have "keys_ok T'" using ok(2) by (simp add: keys_ok_def rows(1))
  moreover have "db_ok ?d'"
  proof -
    note D = ok(3) [unfolded db_ok_def]
    have "conf_app_id ` set (conferences ?d') \<subseteq> app_id ` set (apps ?d')"
    proof (rule image_subsetI)
      fix c assume "c \<in> set (conferences ?d')"
      then have c: "conf_app_id c \<in> app_id ` set (apps ?d)" "conf_app_id c \<noteq> appID" using D by (auto simp: rows(2))
      then obtain a where "a \<in> set (apps ?d)" "app_id a = conf_app_id c" by auto
      then show "conf_app_id c \<in> app_id ` set (apps ?d')" using c(2) by (intro image_eqI [of _ _ a]) (simp_all add: rows(1))
    qed
    moreover have "part_conference_id ` set (participants ?d') \<subseteq> conf_id ` set (conferences ?d')"
      using D cascade_level [of part_conference_id "participants ?d" conf_id "conferences ?d" "\<lambda>c. conf_app_id c \<noteq> appID"]
      by (simp add: rows app_confs_def)
    moreover have "sess_participant_id ` set (sessions ?d') \<subseteq> part_id ` set (participants ?d')"
      using D cascade_level [of sess_participant_id "sessions ?d" part_id "participants ?d" "\<lambda>p. part_conference_id p \<notin> app_confs ?d appID"]
      by (simp add: rows app_parts_def)
    moreover have "conn_session_id ` set (connections ?d') \<subseteq> sess_id ` set (sessions ?d')"
      using D cascade_level [of conn_session_id "connections ?d" sess_id "sessions ?d" "\<lambda>x. sess_participant_id x \<notin> app_parts ?d appID"]
      by (simp add: rows app_sess_def)
    moreover have "cs_connection_id ` set (connection_stats ?d') \<subseteq> conn_id ` set (connections ?d')"
      unfolding rows using D st by (intro parents_stay) (simp_all add: has_stats_def app_conns_def)
    ultimately show ?thesis using D rows by (simp add: db_ok_def table_ok_filter distinct_map_filter)
  qed
  ultimately show ?thesis by (simp add: dash_ok_def)
qed

lemma generateAndStore_ok:
  assumes "dash_ok T" and "generateAndStore c ft now kb sb nonce mk appID orgID T = Some (k, secret, t, T')"
  shows "dash_ok T'"
proof -
  have fresh: "\<not> (\<exists>a \<in> set (apps (ingest T)). server_api_key a = Some k \<and> \<not> (app_id a = appID \<and> app_org_id a = orgID))"
    using assms(2) by (auto simp: generateAndStore_def split: sum.splits prod.splits if_splits)
  obtain enc where T': "T' = update_app appID orgID (\<lambda>a. a\<lparr>server_api_key := Some k, server_api_secret_enc := Some enc,
      app_server_key_created_at := Some (pg_time now)\<rparr>) T"
    using assms(2) by (auto simp: generateAndStore_def split: sum.splits prod.splits if_splits)
  show ?thesis unfolding T' by (rule update_app_ok [OF assms(1)]) (use fresh in \<open>auto simp: key_complete_def key_shared_def\<close>)
qed

lemma HandleListApps_keeps: "I (tabs s) \<Longrightarrow> keeps I (HandleListApps ft sess p s)"
  unfolding HandleListApps_def by (intro keeps_intro)

lemma HandleGetServerKey_keeps: "I (tabs s) \<Longrightarrow> HandleGetServerKey ft sess p q s = Some r \<Longrightarrow> keeps I r"
  by (auto simp: HandleGetServerKey_def keeps_def fail_def done_ok_def split: sum.splits option.splits)

lemma HandleCreateApp_ok: "dash_ok (tabs s) \<Longrightarrow> keeps dash_ok (HandleCreateApp bc ft now salt rnd sess p body s)"
  unfolding HandleCreateApp_def by (intro keeps_intro) (auto intro: insert_app_ok)

lemma HandleDeleteApp_ok: "dash_ok (tabs s) \<Longrightarrow> keeps dash_ok (HandleDeleteApp ft sess p q s)"
  unfolding HandleDeleteApp_def by (intro keeps_intro) (auto intro: delete_app_ok)

lemma hash_ok: "dash_ok T \<Longrightarrow> dash_ok (update_app appID orgID (\<lambda>a. a\<lparr>app_api_key_hash := h\<rparr>) T)"
proof -
  assume ok: "dash_ok T"
  have k: "key_complete (a\<lparr>app_api_key_hash := h\<rparr>) \<longleftrightarrow> key_complete a" "key_shared (a\<lparr>app_api_key_hash := h\<rparr>) b \<longleftrightarrow> key_shared a b" for a b
    by (simp_all add: key_complete_def key_shared_def)
  show ?thesis by (rule update_app_ok [OF ok]; (unfold k)?) (use ok in \<open>auto simp: dash_ok_def keys_ok_def\<close>)
qed

lemma no_key_ok:
  "dash_ok T \<Longrightarrow> dash_ok (update_app appID orgID (\<lambda>a. a\<lparr>server_api_key := None, server_api_secret_enc := None, app_server_key_created_at := None\<rparr>) T)"
  by (rule update_app_ok) auto

lemma HandleRotateKey_ok: "dash_ok (tabs s) \<Longrightarrow> keeps dash_ok (HandleRotateKey bc ft salt rnd sess p q s)"
  unfolding HandleRotateKey_def by (intro keeps_intro) (simp_all add: hash_ok)

lemma HandleGenerateServerKey_ok:
  "dash_ok (tabs s) \<Longrightarrow> keeps dash_ok (HandleGenerateServerKey c ft now kb sb nonce mk sess p q s)"
  unfolding HandleGenerateServerKey_def by (intro keeps_intro) (auto intro: generateAndStore_ok)

lemma HandleRotateServerKey_ok:
  "dash_ok (tabs s) \<Longrightarrow> keeps dash_ok (HandleRotateServerKey c ft now kb sb nonce mk sess p q s)"
  unfolding HandleRotateServerKey_def by (intro keeps_intro) (auto intro: generateAndStore_ok)

lemma HandleDeleteServerKey_ok: "dash_ok (tabs s) \<Longrightarrow> keeps dash_ok (HandleDeleteServerKey ft sess p q s)"
  unfolding HandleDeleteServerKey_def by (intro keeps_intro) (simp_all add: no_key_ok)

text \<open>Reading a key never dereferences a missing creation time.\<close>

lemma HandleGetServerKey_total:
  assumes "dash_ok (tabs s)"
  shows "HandleGetServerKey ft sess p q s \<noteq> None"
proof -
  have "app_server_key_created_at a \<noteq> None" if "find_app (tabs s) i g = Some a" "server_api_key a = Some k" for i g a k
  proof -
    have "key_complete a" using find_appD [OF that(1)] assms by (simp add: dash_ok_def keys_ok_def)
    then show ?thesis using that(2) by (simp add: key_complete_def)
  qed
  then show ?thesis by (fastforce simp: HandleGetServerKey_def fetchAppRow_def fail_def done_ok_def split: sum.splits option.splits if_splits)
qed

subsection \<open>Properties\<close>

text \<open>A request of a media server, signed with a secret the way the middleware verifies it.\<close>

definition signed_request :: "crypto \<Rightarrow> string \<Rightarrow> string \<Rightarrow> int \<Rightarrow> string \<Rightarrow> string \<Rightarrow> string \<Rightarrow> request" where
  "signed_request c apiKey secret ts meth path body =
     \<lparr>X_API_Key = apiKey, X_Timestamp = FormatInt ts,
      X_Signature = hex_EncodeToString (hmac_sha256 c secret (BuildCanonical c meth path ts body)),
      Method = meth, URL_Path = path, Body = body\<rparr>"

lemma find_map_unique:
  assumes "x \<in> set xs" and "P (g x)" and "\<And>y. y \<in> set xs \<Longrightarrow> P (g y) \<Longrightarrow> g y = g x"
  shows "List.find P (map g xs) = Some (g x)"
proof (cases "List.find P (map g xs)")
  case None
  then show ?thesis using find_NoneD [OF None, of "g x"] assms(1,2) by simp
next
  case (Some z)
  then obtain y where "z = g y" "y \<in> set xs" "P z" using find_SomeD [OF Some] by auto
  then show ?thesis using Some assms(3) by simp
qed

lemma find_updated_app:
  assumes "dash_ok T" and "find_app T appID orgID = Some a" and "server_api_key (f a) = Some k" and "app_id (f a) = app_id a"
    and "\<And>b. b \<in> set (apps (ingest T)) \<Longrightarrow> server_api_key b = Some k \<Longrightarrow> app_id b = appID \<and> app_org_id b = orgID"
  shows "List.find (\<lambda>b. server_api_key b = Some k) (apps (ingest (update_app appID orgID f T))) = Some (f a)"
proof -
  let ?f = "\<lambda>a. if app_id a = appID \<and> app_org_id a = orgID then f a else a"
  have a: "a \<in> set (apps (ingest T))" "app_id a = appID" "app_org_id a = orgID" using find_appD [OF assms(2)] by auto
  have only: "?f b = f a" if "b \<in> set (apps (ingest T))" "server_api_key (?f b) = Some k" for b
  proof (cases "app_id b = appID \<and> app_org_id b = orgID")
    case True
    then show ?thesis using app_unique [OF assms(1) that(1) a(1)] a(2) by simp
  next
    case False
    then have "server_api_key b = Some k" using that(2) by (simp only: if_not_P if_False)
    then show ?thesis using assms(5) [OF that(1)] False by blast
  qed
  have "apps (ingest (update_app appID orgID f T)) = map ?f (apps (ingest T))" by (simp add: update_app_def)
  then show ?thesis using find_map_unique [OF a(1), of "\<lambda>b. server_api_key b = Some k" ?f] only a(2,3) assms(3) by simp
qed

lemma deleted_key_not_found:
  assumes "dash_ok T" and "x \<in> set (apps (ingest T))" and "server_api_key x = Some k" and "app_id x = app" and "app_org_id x = org"
  shows "List.find (\<lambda>b. server_api_key b = Some k) (apps (ingest (update_app app org
    (\<lambda>a. a\<lparr>server_api_key := None, server_api_secret_enc := None, app_server_key_created_at := None\<rparr>) T))) = None"
proof -
  let ?f = "\<lambda>a. if app_id a = app \<and> app_org_id a = org then a\<lparr>server_api_key := None, server_api_secret_enc := None,
      app_server_key_created_at := None\<rparr> else a"
  have "server_api_key (?f b) \<noteq> Some k" if b: "b \<in> set (apps (ingest T))" for b
  proof
    assume k: "server_api_key (?f b) = Some k"
    then have "server_api_key b = Some k" by (simp split: if_splits)
    then have "key_shared b x" using assms(3) by (simp add: key_shared_def)
    then have "app_id b = app_id x" using assms(1,2) b unfolding dash_ok_def keys_ok_def by blast
    then have "b = x" by (rule app_unique [OF assms(1) b assms(2)])
    then show False using k assms(4,5) by simp
  qed
  moreover have "apps (ingest (update_app app org (\<lambda>a. a\<lparr>server_api_key := None, server_api_secret_enc := None,
      app_server_key_created_at := None\<rparr>) T)) = map ?f (apps (ingest T))" by (simp add: update_app_def)
  ultimately show ?thesis by (auto simp only: find_None_iff set_map)
qed

lemma extractKeyParams_Inl: "extractKeyParams sess p q = Inl r \<Longrightarrow> status r \<in> {400, 401, 403}"
  by (auto simp: extractKeyParams_def split: option.splits if_splits)

lemma extractKeyParams_Inr: "extractKeyParams sess p q = Inr (org, app) \<Longrightarrow> ParseInt p = Some org \<and> ParseInt q = Some app"
  by (auto simp: extractKeyParams_def split: option.splits if_splits)

lemma requireAdmin_Some: "requireAdmin sess = Some r \<Longrightarrow> status r = 403"
  by (auto simp: requireAdmin_def split: option.splits if_splits)

lemma generate_201:
  assumes "HandleGenerateServerKey c ft now keyBytes secretBytes nonce masterKey sess p q s = (r, ck, s')" and "status r = 201"
  obtains org app a apiKey secret createdAt T' where "extractKeyParams sess p q = Inr (org, app)" "requireAdmin sess = None"
    "find_app (tabs s) app org = Some a"
    "generateAndStore c ft now keyBytes secretBytes nonce masterKey app org (tabs s) = Some (apiKey, secret, createdAt, T')"
    "rbody r = OkBody (key_response apiKey secret createdAt)" "s' = s\<lparr>tabs := T'\<rparr>"
proof -
  note H = assms(1) [unfolded HandleGenerateServerKey_def]
  obtain org app where x: "extractKeyParams sess p q = Inr (org, app)"
    using H assms(2) extractKeyParams_Inl [of sess p q] by (cases "extractKeyParams sess p q") auto
  have adm: "requireAdmin sess = None" using H assms(2) requireAdmin_Some [of sess] by (cases "requireAdmin sess") (auto simp: x)
  have mk: "length masterKey = 32" using H assms(2) by (cases "length masterKey = 32") (auto simp: x adm fail_def)
  have ft: "\<not> ft ''fetchAppRow''" using H assms(2) by (auto simp: x adm mk fetchAppRow_def fail_def)
  obtain a where a: "find_app (tabs s) app org = Some a"
    using H assms(2) by (cases "find_app (tabs s) app org") (auto simp: x adm mk ft fetchAppRow_def fail_def)
  have nokey: "server_api_key a = None"
    using H assms(2) by (cases "server_api_key a") (auto simp: x adm mk ft a fetchAppRow_def fail_def)
  obtain apiKey secret createdAt T' where g: "generateAndStore c ft now keyBytes secretBytes nonce masterKey app org (tabs s) = Some (apiKey, secret, createdAt, T')"
    using H assms(2) by (cases "generateAndStore c ft now keyBytes secretBytes nonce masterKey app org (tabs s)")
      (auto simp: x adm mk ft a nokey fetchAppRow_def fail_def)
  show ?thesis by (rule that [OF x adm a g]) (use H in \<open>auto simp: x adm mk ft a nokey g fetchAppRow_def done_ok_def\<close>)
qed

lemma generateAndStore_SomeD:
  assumes "generateAndStore c ft now keyBytes secretBytes nonce masterKey app org T = Some (apiKey, secret, createdAt, T')"
  obtains enc where "apiKey = hex_EncodeToString keyBytes" "createdAt = pg_time now" "EncryptSecret c ft nonce masterKey secret = Inr enc"
    "\<forall>b \<in> set (apps (ingest T)). server_api_key b = Some apiKey \<longrightarrow> app_id b = app \<and> app_org_id b = org"
    "T' = update_app app org (\<lambda>a. a\<lparr>server_api_key := Some apiKey, server_api_secret_enc := Some enc,
                                    app_server_key_created_at := Some (pg_time now)\<rparr>) T"
  using assms by (auto simp: generateAndStore_def GenerateKeyPair_def split: sum.splits if_splits)

lemma check_signed_request:
  assumes "in_i64 ts" and "\<bar>now div 1000000000 - ts\<bar> \<le> 300" and "apiKey \<noteq> []" and "\<And>k m. hmac_sha256 c k m \<noteq> []"
  shows "check_signed c (\<lambda>_. False) now masterKey d (signed_request c apiKey secret ts meth path body) =
    (case defaultLookup (\<lambda>_. False) d apiKey of
       Inl e \<Rightarrow> Inl (401, ''invalid credentials'')
     | Inr (appID, orgID, secretEnc) \<Rightarrow>
         (case DecryptSecret c masterKey secretEnc of
            Inl e \<Rightarrow> Inl (500, ''internal error'')
          | Inr secretBytes \<Rightarrow>
              if hmac_sha256 c secretBytes (BuildCanonical c meth path ts body) = hmac_sha256 c secret (BuildCanonical c meth path ts body)
              then Inr (ts, \<lparr>SAppID = appID, SOrgID = orgID, APIKey = apiKey\<rparr>) else Inl (401, ''invalid credentials'')))"
proof -
  have "in_i64 (now div 1000000000 - ts)" using assms(2) by (auto simp: in_i64_def)
  moreover have "hex_EncodeToString b = [] \<longleftrightarrow> b = []" for b by (cases b) auto
  ultimately show ?thesis using assms
    by (auto simp: check_signed_def signed_request_def VerifyHMAC_def Let_def split: sum.splits)
qed

text \<open>(C32) A server key works as soon as it is handed out, and stops working when it is deleted.  If
  the generate endpoint answers 201, the answer carries a key and a secret such that every request
  signed with that secret, whatever its method, path and body, passes the ingest API's key check
  within five minutes of its timestamp and is attributed to this application and organization; after
  the delete endpoint answers 204 the same request is rejected with 401.\<close>
theorem server_key_accepted:
  assumes "gcm_ok c" and "length nonce = 12" and "\<And>k m. hmac_sha256 c k m \<noteq> []" and "keyBytes \<noteq> []" and "dash_ok (tabs s)"
    and gen: "HandleGenerateServerKey c ft now keyBytes secretBytes nonce masterKey sess p q s = (r, ck, s')" "status r = 201"
    and ts: "in_i64 ts" "0 \<le> now'" "\<bar>now' div 1000000000 - ts\<bar> \<le> 300"
  shows "\<exists>apiKey secret org app. rbody r = OkBody (key_response apiKey secret (pg_time now))
    \<and> ParseInt p = Some org \<and> ParseInt q = Some app
    \<and> check_signed c (\<lambda>_. False) now' masterKey (ingest (tabs s')) (signed_request c apiKey secret ts meth path body)
        = Inr (ts, \<lparr>SAppID = app, SOrgID = org, APIKey = apiKey\<rparr>)
    \<and> (\<forall>r2 ck2 s2. HandleDeleteServerKey (\<lambda>_. False) sess p q s' = (r2, ck2, s2) \<longrightarrow>
         status r2 = 204
       \<and> check_signed c (\<lambda>_. False) now' masterKey (ingest (tabs s2)) (signed_request c apiKey secret ts meth path body)
           = Inl (401, ''invalid credentials''))"
proof -
  obtain org app a apiKey secret createdAt T' where g: "extractKeyParams sess p q = Inr (org, app)" "requireAdmin sess = None"
    "find_app (tabs s) app org = Some a"
    "generateAndStore c ft now keyBytes secretBytes nonce masterKey app org (tabs s) = Some (apiKey, secret, createdAt, T')"
    "rbody r = OkBody (key_response apiKey secret createdAt)" "s' = s\<lparr>tabs := T'\<rparr>" by (rule generate_201 [OF gen])
  obtain enc where e: "apiKey = hex_EncodeToString keyBytes" "createdAt = pg_time now" "EncryptSecret c ft nonce masterKey secret = Inr enc"
    "\<forall>b \<in> set (apps (ingest (tabs s))). server_api_key b = Some apiKey \<longrightarrow> app_id b = app \<and> app_org_id b = org"
    "T' = update_app app org (\<lambda>a. a\<lparr>server_api_key := Some apiKey, server_api_secret_enc := Some enc,
       app_server_key_created_at := Some (pg_time now)\<rparr>) (tabs s)" by (rule generateAndStore_SomeD [OF g(4)])
  let ?f = "\<lambda>a. a\<lparr>server_api_key := Some apiKey, server_api_secret_enc := Some enc, app_server_key_created_at := Some (pg_time now)\<rparr>"
  have k: "apiKey \<noteq> []" using assms(4) e(1) by (cases keyBytes) auto
  note chk = check_signed_request [OF ts(1,3) k assms(3)]
  have a: "app_id a = app" "app_org_id a = org" using find_appD [OF g(3)] by auto
  have found: "List.find (\<lambda>b. server_api_key b = Some apiKey) (apps (ingest T')) = Some (?f a)"
    unfolding e(5) by (rule find_updated_app [OF assms(5) g(3)]) (use e(4) in auto)
  have ok': "dash_ok T'" by (rule generateAndStore_ok [OF assms(5) g(4)])
  have in': "?f a \<in> set (apps (ingest T'))" using find_SomeD [OF found] by simp
  have "find_app T' app org \<noteq> None"
    using find_NoneD [of "\<lambda>b. app_id b = app \<and> app_org_id b = org" "apps (ingest T')" "?f a"] in' a by (auto simp: find_app_def)
  then obtain a' where a': "find_app T' app org = Some a'" by auto
  then have a'f: "a' = ?f a" using find_appD [OF a'] app_unique [OF ok' _ in', of a'] a by simp
  have "check_signed c (\<lambda>_. False) now' masterKey (ingest (tabs s')) (signed_request c apiKey secret ts meth path body)
      = Inr (ts, \<lparr>SAppID = app, SOrgID = org, APIKey = apiKey\<rparr>)"
    using DecryptSecret_EncryptSecret [OF assms(1,2) e(3)] found a g(6) by (simp add: chk defaultLookup_def)
  moreover have "status r2 = 204 \<and> check_signed c (\<lambda>_. False) now' masterKey (ingest (tabs s2)) (signed_request c apiKey secret ts meth path body)
      = Inl (401, ''invalid credentials'')" if d: "HandleDeleteServerKey (\<lambda>_. False) sess p q s' = (r2, ck2, s2)" for r2 ck2 s2
  proof -
    have s2: "status r2 = 204" "tabs s2 = update_app app org (\<lambda>a. a\<lparr>server_api_key := None, server_api_secret_enc := None, app_server_key_created_at := None\<rparr>) T'"
      using d g(1,2,6) a' a'f by (auto simp: HandleDeleteServerKey_def fetchAppRow_def)
    have "List.find (\<lambda>b. server_api_key b = Some apiKey) (apps (ingest (tabs s2))) = None"
      unfolding s2(2) by (rule deleted_key_not_found [OF ok' in']) (simp_all add: a)
    then show ?thesis using s2(1) by (simp add: chk defaultLookup_def)
  qed
  ultimately show ?thesis using g(5) e(2) extractKeyParams_Inr [OF g(1)] by blast
qed

definition demo_app :: app_row where
  "demo_app = \<lparr>app_id = 7, app_org_id = 1, retention_days = 90, observation_config = None, server_api_key = None,
     server_api_secret_enc = None, app_name = ''web'', app_api_key_hash = ''h'', app_created_at = 0, app_server_key_created_at = None\<rparr>"

definition demo_tables :: tables where
  "demo_tables = empty_tables\<lparr>users := [\<lparr>usr_id = 1, usr_email = ''a@x'', usr_name = ''A'', usr_password_hash = ''h''\<rparr>], next_user := 2,
     organizations := [\<lparr>org_id = 1, org_name = ''O'', org_created_at = 0\<rparr>], next_org := 2,
     members := [\<lparr>mem_org_id = 1, mem_user_id = 1, mem_role = ''admin'', mem_invited_by = None, mem_joined_at = 0\<rparr>],
     ingest := empty_db\<lparr>apps := [demo_app]\<rparr>, next_app := 8\<rparr>"

definition demo_dash :: "(unit, unit) dash" where
  "demo_dash = \<lparr>tabs = demo_tables, store = (), cache = ()\<rparr>"

definition demo_admin :: Data where
  "demo_admin = \<lparr>SessUserID = 1, SessOrgID = 1, SessRole = ''admin'', SessEmail = ''a@x'', SessName = ''A''\<rparr>"

lemma demo_tables_ok: "dash_ok demo_tables"
  by (simp add: dash_ok_def tables_ok_def tables_ok_defs keys_ok_def key_complete_def key_shared_def db_ok_def table_ok_def
      has_admin_def roles_def demo_tables_def demo_app_def empty_tables_def empty_db_def)

definition demo_generate :: "(unit, unit) handled" where
  "demo_generate = HandleGenerateServerKey demo_crypto (\<lambda>_. False) 0 ''key'' ''sec'' (replicate 12 (CHR ''n'')) demo_key
     (Some demo_admin) ''1'' ''7'' demo_dash"

theorem server_key_accepted_witness:
  "\<exists>apiKey secret org app. ParseInt ''1'' = Some org \<and> ParseInt ''7'' = Some app
    \<and> check_signed demo_crypto (\<lambda>_. False) (1000 * 1000000000) demo_key (ingest (tabs (snd (snd demo_generate))))
        (signed_request demo_crypto apiKey secret 800 ''POST'' ''/v1/events'' ''{}'')
      = Inr (800, \<lparr>SAppID = app, SOrgID = org, APIKey = apiKey\<rparr>)"
proof -
  have g: "HandleGenerateServerKey demo_crypto (\<lambda>_. False) 0 ''key'' ''sec'' (replicate 12 (CHR ''n'')) demo_key (Some demo_admin) ''1'' ''7'' demo_dash
      = (fst demo_generate, fst (snd demo_generate), snd (snd demo_generate))" by (simp add: demo_generate_def)
  have st: "status (fst demo_generate) = 201" by code_simp
  have h: "hmac_sha256 demo_crypto k m \<noteq> []" for k m by (simp add: demo_crypto_def)
  from server_key_accepted [OF demo_gcm_ok _ h _ _ g st, of 800 "1000 * 1000000000" "''POST''" "''/v1/events''" "''{}''"]
  show ?thesis using demo_tables_ok by (fastforce simp: in_i64_def demo_dash_def)
qed



end
