(* ===== verification/GoRFC3339.thy ===== *)
theory GoRFC3339
  imports GoTime GoStd
begin

text \<open>
  \<open>time.Parse(time.RFC3339, s)\<close> and \<open>t.UTC().Format(time.RFC3339)\<close>, as the query handlers use
  them.  Parsing follows the lenient path of the library (the strict path it tries first accepts a
  subset with the same results): the hour may have one digit, a fraction after a point or a comma is
  accepted although the layout has none and is cut to nanoseconds, and a numeric offset may be as
  large as 24:60.  Formatting writes whole seconds.
\<close>

subsection \<open>Parsing\<close>

definition dig :: "char \<Rightarrow> int" where
  "dig c = int (of_char c) - 48"

fun expect :: "char \<Rightarrow> string \<Rightarrow> string option" where
  "expect c [] = None"
| "expect c (x # xs) = (if x = c then Some xs else None)"

text \<open>\<open>getnum\<close> with \<open>fixed\<close> set or not.\<close>

fun getnum :: "bool \<Rightarrow> string \<Rightarrow> (int \<times> string) option" where
  "getnum fixed (a # b # s) =
     (if \<not> is_digit a then None
      else if is_digit b then Some (dig a * 10 + dig b, s)
      else if fixed then None else Some (dig a, b # s))"
| "getnum fixed [a] = (if is_digit a \<and> \<not> fixed then Some (dig a, []) else None)"
| "getnum fixed [] = None"

fun getyear :: "string \<Rightarrow> (int \<times> string) option" where
  "getyear (a # b # c # d # s) =
     (if is_digit a \<and> is_digit b \<and> is_digit c \<and> is_digit d
      then Some (dig a * 1000 + dig b * 100 + dig c * 10 + dig d, s) else None)"
| "getyear _ = None"

definition parseNanoseconds :: "string \<Rightarrow> int" where
  "parseNanoseconds ds = (let d = take 9 ds in foldl (\<lambda>n c. n * 10 + dig c) 0 d * 10 ^ (9 - length d))"

definition fraction :: "string \<Rightarrow> int \<times> string" where
  "fraction s =
     (case s of
        p # c # _ \<Rightarrow> if (p = CHR ''.'' \<or> p = CHR '','') \<and> is_digit c
                       then (parseNanoseconds (takeWhile is_digit (tl s)), dropWhile is_digit (tl s)) else (0, s)
      | _ \<Rightarrow> (0, s))"

text \<open>The offset in seconds east of UTC and what is left of the text.\<close>

definition zone :: "string \<Rightarrow> (int \<times> string) option" where
  "zone s =
     (case s of
        [] \<Rightarrow> None
      | sg # rest \<Rightarrow>
          if sg = CHR ''Z'' then Some (0, rest)
          else if sg \<noteq> CHR ''+'' \<and> sg \<noteq> CHR ''-'' then None
          else case getnum True rest of
            None \<Rightarrow> None
          | Some (hr, r1) \<Rightarrow>
          case expect (CHR '':'') r1 of
            None \<Rightarrow> None
          | Some r2 \<Rightarrow>
          case getnum True r2 of
            None \<Rightarrow> None
          | Some (mm, r3) \<Rightarrow>
              if hr > 24 \<or> mm > 60 then None
              else Some ((if sg = CHR ''-'' then - 1 else 1) * (hr * 3600 + mm * 60), r3))"

definition days_in :: "int \<Rightarrow> int \<Rightarrow> int" where
  "days_in y m = month_start y (m + 1) - month_start y m"

definition parse_date :: "string \<Rightarrow> (int \<times> int \<times> int \<times> string) option" where
  "parse_date s =
     (case getyear s of None \<Rightarrow> None | Some (y, s1) \<Rightarrow>
      case expect (CHR ''-'') s1 of None \<Rightarrow> None | Some s2 \<Rightarrow>
      case getnum True s2 of None \<Rightarrow> None | Some (m, s3) \<Rightarrow>
      case expect (CHR ''-'') s3 of None \<Rightarrow> None | Some s4 \<Rightarrow>
      case getnum True s4 of None \<Rightarrow> None | Some (d, s5) \<Rightarrow>
      if m < 1 \<or> m > 12 \<or> d < 1 \<or> d > days_in y m then None else Some (y, m, d, s5))"

definition parse_clock :: "string \<Rightarrow> (int \<times> int \<times> int \<times> string) option" where
  "parse_clock s =
     (case expect (CHR ''T'') s of None \<Rightarrow> None | Some s1 \<Rightarrow>
      case getnum False s1 of None \<Rightarrow> None | Some (h, s2) \<Rightarrow>
      case expect (CHR '':'') s2 of None \<Rightarrow> None | Some s3 \<Rightarrow>
      case getnum True s3 of None \<Rightarrow> None | Some (mi, s4) \<Rightarrow>
      case expect (CHR '':'') s4 of None \<Rightarrow> None | Some s5 \<Rightarrow>
      case getnum True s5 of None \<Rightarrow> None | Some (sec, s6) \<Rightarrow>
      if h \<ge> 24 \<or> mi \<ge> 60 \<or> sec \<ge> 60 then None else Some (h, mi, sec, s6))"

definition ParseRFC3339 :: "string \<Rightarrow> instant option" where
  "ParseRFC3339 s =
     (case parse_date s of None \<Rightarrow> None | Some (y, m, d, s1) \<Rightarrow>
      case parse_clock s1 of None \<Rightarrow> None | Some (h, mi, sec, s2) \<Rightarrow>
      case fraction s2 of (ns, s3) \<Rightarrow>
      case zone s3 of None \<Rightarrow> None | Some (off, s4) \<Rightarrow>
      if s4 \<noteq> [] then None else Some (Date y m d h mi sec ns - off * 1000000000))"

subsection \<open>Formatting\<close>

text \<open>\<open>appendInt\<close>: decimal digits, padded with zeros to a width.\<close>

definition appendInt :: "int \<Rightarrow> nat \<Rightarrow> string" where
  "appendInt x width = (let ds = dec_nat (nat \<bar>x\<bar>) in (if x < 0 then ''-'' else []) @ replicate (width - length ds) (CHR ''0'') @ ds)"

definition Hour :: "instant \<Rightarrow> int" where
  "Hour t = t mod day_ns div (3600 * 1000000000)"

definition Minute :: "instant \<Rightarrow> int" where
  "Minute t = t mod day_ns div (60 * 1000000000) mod 60"

definition Second :: "instant \<Rightarrow> int" where
  "Second t = t mod day_ns div 1000000000 mod 60"

definition FormatRFC3339 :: "instant \<Rightarrow> string" where
  "FormatRFC3339 t =
     appendInt (Year t) 4 @ ''-'' @ appendInt (Month t) 2 @ ''-'' @ appendInt (Day t) 2 @ ''T'' @
     appendInt (Hour t) 2 @ '':'' @ appendInt (Minute t) 2 @ '':'' @ appendInt (Second t) 2 @ ''Z''"

text \<open>The zero \<open>time.Time\<close>, the first of January of the year 1.\<close>

definition zero_time :: instant where
  "zero_time = - 62135596800 * 1000000000"

lemma zero_time_formats: "FormatRFC3339 zero_time = ''0001-01-01T00:00:00Z''"
  by code_simp

lemma parse_samples:
  "ParseRFC3339 ''2024-02-29T5:04:05,25+01:30'' = Some (Date 2024 2 29 3 34 5 250000000)"
  "ParseRFC3339 ''2023-02-29T05:04:05Z'' = None" "ParseRFC3339 ''2024-02-29 05:04:05Z'' = None"
  by code_simp+

subsection \<open>Formatting loses fractions of a second and nothing else\<close>

lemma dec_nat_no_lead: "length (dec_nat n) \<ge> 1"
  using dec_nat_nonempty [of n] by (cases "dec_nat n") auto

lemma digits_val_zeros: "digits_val 0 (replicate k (CHR ''0'') @ s) = digits_val 0 s"
  by (induction k) (simp_all add: is_digit_def)

lemma appendInt_inject: "0 \<le> x \<Longrightarrow> 0 \<le> y \<Longrightarrow> appendInt x w = appendInt y w \<Longrightarrow> x = y"
proof -
  assume xy: "0 \<le> x" "0 \<le> y" and e: "appendInt x w = appendInt y w"
  have "digits_val 0 (appendInt x w) = Some (nat x)" if "0 \<le> x" for x
    using that by (simp add: appendInt_def Let_def digits_val_zeros digits_val_dec_nat)
  then have "nat x = nat y" using xy arg_cong [OF e, of "digits_val 0"] by simp
  then show "x = y" using xy by simp
qed

lemma length_appendInt_2:
  assumes "0 \<le> x" and "x < 100"
  shows "length (appendInt x 2) = 2"
proof -
  have "length (dec_nat n) \<le> 2" if "n < 100" for n
    using that by (subst dec_nat.simps, subst dec_nat.simps) auto
  then have "length (dec_nat (nat x)) \<le> 2" using assms by simp
  then show ?thesis using assms(1) by (simp add: appendInt_def Let_def)
qed

lemma appendInt_year_inject: "appendInt x w = appendInt y w \<Longrightarrow> x = y"
proof -
  assume e: "appendInt x w = appendInt y w"
  have neg: "hd (appendInt z w) = CHR ''-'' \<longleftrightarrow> z < 0" for z
  proof (cases "z < 0")
    case False
    have "c \<in> set (appendInt z w) \<Longrightarrow> is_digit c" for c
      using False dec_nat_digits by (auto simp: appendInt_def Let_def is_digit_def split: if_splits)
    moreover have "appendInt z w \<noteq> []" using False by (simp add: appendInt_def Let_def)
    ultimately have "is_digit (hd (appendInt z w))" by simp
    then show ?thesis using False by auto
  qed (simp add: appendInt_def Let_def)
  then have s: "x < 0 \<longleftrightarrow> y < 0" using e neg [of x] neg [of y] by simp
  show "x = y"
  proof (cases "x < 0")
    case False
    then show ?thesis using appendInt_inject [OF _ _ e] s by simp
  next
    case True
    then have "appendInt (- x) w = appendInt (- y) w" using e s by (auto simp: appendInt_def Let_def)
    then show ?thesis using appendInt_inject [of "- x" "- y" w] True s by simp
  qed
qed

lemma clock_bounds: "0 \<le> Hour t" "Hour t < 24" "0 \<le> Minute t" "Minute t < 60" "0 \<le> Second t" "Second t < 60"
proof -
  have m: "0 \<le> t mod day_ns" "t mod day_ns < day_ns" by (simp_all add: day_ns_def)
  then show "0 \<le> Hour t" by (simp add: Hour_def div_int_pos_iff)
  have "t mod day_ns < 24 * (3600 * 1000000000)" using m(2) by (simp add: day_ns_def)
  then show "Hour t < 24" unfolding Hour_def by (simp add: div_less_iff_less_mult)
qed (simp_all add: Minute_def Second_def)

text \<open>The seconds of the day, and day and clock as functions of the seconds since the epoch.\<close>

lemma second_of_day: "t mod day_ns div 1000000000 = t div 1000000000 mod 86400"
proof -
  have "t mod (1000000000 * 86400) = 1000000000 * (t div 1000000000 mod 86400) + t mod 1000000000" by (rule zmod_zmult2_eq) simp
  moreover have "day_ns = 1000000000 * 86400" by (simp add: day_ns_def)
  ultimately show ?thesis by (intro int_div_pos_eq [of _ _ _ "t mod 1000000000"]) simp_all
qed

lemma day_of_second: "t div day_ns = t div 1000000000 div 86400"
  by (simp add: day_ns_def zdiv_zmult2_eq [symmetric])

lemma clock_of:
  defines "n \<equiv> \<lambda>t. t div 1000000000 mod 86400"
  shows "Hour t = n t div 60 div 60" "Minute t = n t div 60 mod 60" "Second t = n t mod 60"
  unfolding n_def second_of_day [symmetric] Hour_def Minute_def Second_def by (simp_all add: zdiv_zmult2_eq [symmetric])

lemma clock_seconds: "(Hour t * 60 + Minute t) * 60 + Second t = t div 1000000000 mod 86400"
proof -
  define n where "n = t div 1000000000 mod 86400"
  have "n div 60 div 60 * 60 + n div 60 mod 60 = n div 60" "n div 60 * 60 + n mod 60 = n" by (rule div_mult_mod_eq)+
  then show ?thesis unfolding clock_of n_def [symmetric] by simp
qed

lemma day_bounds: "1 \<le> Day t" "Day t \<le> 31"
proof -
  let ?n = "t div day_ns"
  have b: "year_start (Year t) + month_start (Year t) (Month t) \<le> ?n" "?n < year_start (Year t) + month_start (Year t) (Month t + 1)"
    "1 \<le> Month t" "Month t \<le> 12"
    using month_of_day [of ?n] by (simp_all add: Year_def Month_def)
  show "1 \<le> Day t" using b(1) by (simp add: Day_def)
  have "Month t = 1 \<or> Month t = 2 \<or> Month t = 3 \<or> Month t = 4 \<or> Month t = 5 \<or> Month t = 6 \<or> Month t = 7 \<or> Month t = 8
      \<or> Month t = 9 \<or> Month t = 10 \<or> Month t = 11 \<or> Month t = 12" using b(3,4) by presburger
  then have "month_start (Year t) (Month t + 1) - month_start (Year t) (Month t) \<le> 31"
    by (elim disjE) (simp_all add: month_start_def)
  then show "Day t \<le> 31" using b(2) by (simp add: Day_def)
qed

theorem FormatRFC3339_eq_iff: "FormatRFC3339 t = FormatRFC3339 u \<longleftrightarrow> t div 1000000000 = u div 1000000000"
proof
  assume e: "FormatRFC3339 t = FormatRFC3339 u"
  note l = length_appendInt_2
  have M: "1 \<le> Month x" "Month x \<le> 12" for x using month_of_day(1,2) [of "x div day_ns"] by (simp_all add: Month_def)
  have len: "length (appendInt (Month x) 2) = 2" "length (appendInt (Day x) 2) = 2" "length (appendInt (Hour x) 2) = 2"
    "length (appendInt (Minute x) 2) = 2" "length (appendInt (Second x) 2) = 2" for x
    using l M [of x] day_bounds [of x] clock_bounds [of x] by auto
  have parts: "appendInt (Year t) 4 = appendInt (Year u) 4" "appendInt (Month t) 2 = appendInt (Month u) 2"
    "appendInt (Day t) 2 = appendInt (Day u) 2" "appendInt (Hour t) 2 = appendInt (Hour u) 2"
    "appendInt (Minute t) 2 = appendInt (Minute u) 2" "appendInt (Second t) 2 = appendInt (Second u) 2"
    using e len [of t] len [of u] by (simp_all add: FormatRFC3339_def append_eq_append_conv)
  have eq: "Year t = Year u" "Month t = Month u" "Day t = Day u" "Hour t = Hour u" "Minute t = Minute u" "Second t = Second u"
    using parts appendInt_year_inject by blast+
  have "t div 1000000000 div 86400 = u div 1000000000 div 86400"
    using eq(1-3) unfolding day_of_second [symmetric] by (simp add: Day_def)
  moreover have "t div 1000000000 mod 86400 = u div 1000000000 mod 86400" using clock_seconds [of t] clock_seconds [of u] eq(4-6) by simp
  ultimately show "t div 1000000000 = u div 1000000000" by (metis div_mult_mod_eq)
next
  assume e: "t div 1000000000 = u div 1000000000"
  have "Year t = Year u" "Month t = Month u" "Hour t = Hour u" "Minute t = Minute u" "Second t = Second u" "t div day_ns = u div day_ns"
    unfolding Year_def Month_def clock_of day_of_second by (simp_all only: e)
  then show "FormatRFC3339 t = FormatRFC3339 u" by (simp add: FormatRFC3339_def Day_def)
qed

end
