(* ===== verification/Reports.thy ===== *)
theory Reports
  imports Detail GoRFC3339
begin

text \<open>
  Lists of the query API that read the database only: conferences of an application
  (\<^verbatim>\<open>handler/conference.go\<close>), the call history of a user
  (\<^verbatim>\<open>handler/user_calls.go\<close>) and the events of a connection
  (\<^verbatim>\<open>handler/connection_events.go\<close>).

  Query parameters are a function from names to values, the empty string where a parameter is
  missing, as \<open>url.Values.Get\<close> returns it.  SQL aggregates are written out: \<open>AVG\<close> of a
  \<open>float4\<close> column sums in \<open>float8\<close> in table order, rows with equal sort keys stay in table
  order, and \<open>MIN\<close> of a text follows the database's collation, a parameter.
\<close>

type_synonym params = "string \<Rightarrow> string"

subsection \<open>Aggregates\<close>

definition agg_avg :: "rat list \<Rightarrow> rat option" where
  "agg_avg xs = (if xs = [] then None else Some (f32 (f64 (foldl (\<lambda>a x. f64 (a + x)) 0 xs / of_nat (length xs)))))"

definition worst_outcome :: "quality_row list \<Rightarrow> string option" where
  "worst_outcome qs =
     (if \<exists>q \<in> set qs. q_outcome q = ''failed'' then Some ''failed''
      else if \<exists>q \<in> set qs. q_outcome q = ''degraded'' then Some ''degraded''
      else if \<exists>q \<in> set qs. q_outcome q = ''success'' then Some ''success''
      else None)"

definition sessions_of :: "database \<Rightarrow> participant_row list \<Rightarrow> session_row list" where
  "sessions_of d ps = concat (map (\<lambda>p. filter (\<lambda>s. sess_participant_id s = part_id p) (sessions d)) ps)"

definition quality_of :: "database \<Rightarrow> session_row list \<Rightarrow> quality_row list" where
  "quality_of d ss = concat (map (\<lambda>s. filter (\<lambda>q. q_session_id q = sess_id s) (session_quality d)) ss)"

text \<open>The common table expression \<open>conf_quality\<close>.\<close>

definition conf_quality :: "database \<Rightarrow> int \<Rightarrow> rat option \<times> string option" where
  "conf_quality d conferenceID =
     (let qs = quality_of d (sessions_of d (filter (\<lambda>p. part_conference_id p = conferenceID) (participants d))) in
      (agg_avg (map q_emos qs), worst_outcome qs))"

definition jopt :: "('a \<Rightarrow> jval) \<Rightarrow> 'a option \<Rightarrow> jval" where
  "jopt f x = (case x of None \<Rightarrow> JNull | Some v \<Rightarrow> f v)"

subsection \<open>Conferences of an application\<close>

definition parseIntParam :: "string \<Rightarrow> int \<Rightarrow> int" where
  "parseIntParam s defaultVal = (if s = [] then defaultVal else case Atoi s of None \<Rightarrow> defaultVal | Some n \<Rightarrow> n)"

definition qualityToOutcome :: "string \<Rightarrow> string option" where
  "qualityToOutcome = [''good'' \<mapsto> ''success'', ''degraded'' \<mapsto> ''degraded'', ''failed'' \<mapsto> ''failed'']"

text \<open>An optional time parameter: \<open>None\<close> when it is present and malformed.\<close>

definition time_param :: "string \<Rightarrow> instant option option" where
  "time_param s = (if s = [] then Some None else map_option Some (ParseRFC3339 s))"

definition page_param :: "params \<Rightarrow> int" where
  "page_param q = max 1 (parseIntParam (q ''page'') 1)"

definition limit_param :: "params \<Rightarrow> int" where
  "limit_param q = min 100 (max 1 (parseIntParam (q ''limit'') 20))"

definition matching_conferences :: "database \<Rightarrow> int \<Rightarrow> instant option \<Rightarrow> instant option \<Rightarrow> string option \<Rightarrow> conference_row list" where
  "matching_conferences d appID fromT toT outcome =
     filter (\<lambda>c. conf_app_id c = appID
        \<and> (case fromT of None \<Rightarrow> True | Some t \<Rightarrow> pg_time t \<le> conf_started_at c)
        \<and> (case toT of None \<Rightarrow> True | Some t \<Rightarrow> conf_started_at c \<le> pg_time t)
        \<and> (outcome = None \<or> snd (conf_quality d (conf_id c)) = outcome)) (conferences d)"

definition conference_item :: "database \<Rightarrow> conference_row \<Rightarrow> jval" where
  "conference_item d c =
     (let (emos, outcome) = conf_quality d (conf_id c) in
      JObj [(''id'', JInt (conf_id c)), (''external_id'', JStr (conf_external_id c)), (''started_at'', JTime (conf_started_at c)),
        (''ended_at'', jtime (conf_ended_at c)), (''participant_count'', JInt (conf_participant_count c)),
        (''emos'', jopt JNum emos), (''outcome'', jopt JStr outcome)])"

definition page_rows :: "int \<Rightarrow> int \<Rightarrow> conference_row list \<Rightarrow> conference_row list" where
  "page_rows limit offset rows = take (nat limit) (drop (nat offset) (sort_key (\<lambda>c. - conf_started_at c) rows))"

definition page_response :: "database \<Rightarrow> int \<Rightarrow> int \<Rightarrow> nat \<Rightarrow> conference_row list \<Rightarrow> jval" where
  "page_response d page limit n rows = JObj [(''data'', JArr (map (conference_item d) rows)),
     (''pagination'', JObj [(''page'', JInt page), (''limit'', JInt limit), (''total'', JInt (int n))])]"

definition HandleListConferences :: "faults \<Rightarrow> Data option \<Rightarrow> string \<Rightarrow> params \<Rightarrow> ('s, 'c) dash \<Rightarrow> ('s, 'c) handled" where
  "HandleListConferences ft sess appParam q s =
     (case sess of
        None \<Rightarrow> fail 401 ''unauthorized'' s
      | Some dt \<Rightarrow>
      case ParseInt appParam of
        None \<Rightarrow> fail 400 ''invalid appId'' s
      | Some appID \<Rightarrow>
      let page = page_param q; limit = limit_param q; offset = i64 ((page - 1) * limit) in
      case time_param (q ''from'') of
        None \<Rightarrow> fail 400 ''invalid from: must be RFC 3339'' s
      | Some fromTime \<Rightarrow>
      case time_param (q ''to'') of
        None \<Rightarrow> fail 400 ''invalid to: must be RFC 3339'' s
      | Some toTime \<Rightarrow>
      if q ''quality'' \<noteq> [] \<and> qualityToOutcome (q ''quality'') = None then fail 400 ''quality must be good, degraded, or failed'' s
      else if ft ''conference list: app ownership check'' then fail 500 ''internal error'' s
      else case find_app (tabs s) appID (SessOrgID dt) of
        None \<Rightarrow> fail 403 ''forbidden'' s
      | Some a \<Rightarrow>
          let d = ingest (tabs s);
              rows = matching_conferences d appID fromTime toTime (if q ''quality'' = [] then None else qualityToOutcome (q ''quality'')) in
          if ft ''conference list: count query'' \<or> ft ''conference list: data query'' \<or> offset < 0
             \<or> ft ''conference list: scan row'' \<or> ft ''conference list: rows error'' then fail 500 ''internal error'' s
          else done_ok 200 (page_response d page limit (length rows) (page_rows limit offset rows)) s)"

subsection \<open>Call history\<close>

text \<open>\<open>EXTRACT(EPOCH FROM interval)::bigint\<close>: seconds rounded half away from zero.\<close>

definition epoch_seconds :: "int \<Rightarrow> int" where
  "epoch_seconds ns = (let us = \<bar>ns\<bar> div 1000; n = (us + 500000) div 1000000 in if ns < 0 then - n else n)"

definition call_item :: "(string list \<Rightarrow> string) \<Rightarrow> database \<Rightarrow> participant_row list \<Rightarrow> conference_row \<Rightarrow> jval" where
  "call_item text_min d ps c =
     (let ss = sessions_of d (filter (\<lambda>p. part_conference_id p = conf_id c) ps); qs = quality_of d ss;
          least = (\<lambda>col. if ss = [] then [] else text_min (map col ss)) in
      JObj [(''conference_id'', JInt (conf_id c)), (''external_id'', JStr (conf_external_id c)), (''started_at'', JTime (conf_started_at c)),
        (''ended_at'', jtime (conf_ended_at c)),
        (''duration_secs'', jopt (\<lambda>e. JInt (epoch_seconds (e - conf_started_at c))) (conf_ended_at c)),
        (''emos'', jopt JNum (agg_avg (map q_emos qs))), (''outcome'', jopt JStr (worst_outcome qs)),
        (''browser'', JStr (least sess_browser)), (''os'', JStr (least sess_os)), (''country'', JStr (least sess_country))])"

definition HandleGetUserCalls ::
  "(string list \<Rightarrow> string) \<Rightarrow> faults \<Rightarrow> Data option \<Rightarrow> string \<Rightarrow> params \<Rightarrow> ('s, 'c) dash \<Rightarrow> ('s, 'c) handled" where
  "HandleGetUserCalls text_min ft sess userID q s =
     (case sess of
        None \<Rightarrow> fail 401 ''unauthorized'' s
      | Some dt \<Rightarrow>
      if q ''appId'' = [] then fail 400 ''appId is required'' s
      else case ParseInt (q ''appId'') of
        None \<Rightarrow> fail 400 ''invalid appId'' s
      | Some appID \<Rightarrow>
      let limit = min 50 (max 1 (parseIntParam (q ''limit'') 20)) in
      if ft ''user calls: app ownership check'' then fail 500 ''internal error'' s
      else case find_app (tabs s) appID (SessOrgID dt) of
        None \<Rightarrow> fail 403 ''forbidden'' s
      | Some a \<Rightarrow>
          let d = ingest (tabs s); ps = filter (\<lambda>p. part_user_id p = userID) (participants d);
              confs = filter (\<lambda>c. conf_app_id c = appID \<and> conf_id c \<in> part_conference_id ` set ps) (conferences d) in
          if ft ''user calls: query'' \<or> \<not> pg_text userID \<or> ft ''user calls: scan row'' \<or> ft ''user calls: rows error''
          then fail 500 ''internal error'' s
          else done_ok 200 (JObj [(''data'', JArr (map (call_item text_min d ps)
                 (take (nat limit) (sort_key (\<lambda>c. - conf_started_at c) confs))))]) s)"

subsection \<open>Events of a connection\<close>

text \<open>The ownership query: a connection with the organization of the application it belongs to.\<close>

definition connection_owner :: "database \<Rightarrow> int \<Rightarrow> (connection_row \<times> int) option" where
  "connection_owner d connectionID =
     (case List.find (\<lambda>c. conn_id c = connectionID) (connections d) of None \<Rightarrow> None | Some c \<Rightarrow>
      case List.find (\<lambda>x. sess_id x = conn_session_id c) (sessions d) of None \<Rightarrow> None | Some x \<Rightarrow>
      case List.find (\<lambda>p. part_id p = sess_participant_id x) (participants d) of None \<Rightarrow> None | Some p \<Rightarrow>
      case conference_row_of d (part_conference_id p) of None \<Rightarrow> None | Some (cf, org) \<Rightarrow> Some (c, org))"

definition event_item :: "event_row \<Rightarrow> jval" where
  "event_item e = JObj [(''id'', JInt (ev_id e)), (''ts'', JTime (ev_ts e)), (''event_type'', JStr (ev_event_type e)), (''payload'', ev_payload e)]"

definition HandleGetConnectionEvents :: "faults \<Rightarrow> Data option \<Rightarrow> string \<Rightarrow> ('s, 'c) dash \<Rightarrow> ('s, 'c) handled" where
  "HandleGetConnectionEvents ft sess connParam s =
     (case sess of
        None \<Rightarrow> fail 401 ''unauthorized'' s
      | Some dt \<Rightarrow>
      case ParseInt connParam of
        None \<Rightarrow> fail 400 ''invalid connectionId'' s
      | Some connectionID \<Rightarrow>
      if ft ''connection events: ownership check'' then fail 500 ''internal error'' s
      else case connection_owner (ingest (tabs s)) connectionID of
        None \<Rightarrow> fail 404 ''not found'' s
      | Some (c, orgID) \<Rightarrow>
          if orgID \<noteq> SessOrgID dt then fail 403 ''forbidden'' s
          else if ft ''connection events: query'' \<or> ft ''connection events: scan row'' \<or> ft ''connection events: rows error''
          then fail 500 ''internal error'' s
          else done_ok 200 (JObj [(''data'', JArr (map event_item
                 (sort_key ev_ts (filter (\<lambda>e. ev_connection_id e = Some connectionID) (events (ingest (tabs s)))))))]) s)"

lemma HandleListConferences_keeps: "I (tabs s) \<Longrightarrow> keeps I (HandleListConferences ft sess p q s)"
  unfolding HandleListConferences_def by (intro keeps_intro)

lemma HandleGetUserCalls_keeps: "I (tabs s) \<Longrightarrow> keeps I (HandleGetUserCalls tm ft sess u q s)"
  unfolding HandleGetUserCalls_def by (intro keeps_intro)

lemma HandleGetConnectionEvents_keeps: "I (tabs s) \<Longrightarrow> keeps I (HandleGetConnectionEvents ft sess p s)"
  unfolding HandleGetConnectionEvents_def by (intro keeps_intro)

subsection \<open>Properties\<close>

lemma concat_pages: "concat (map (\<lambda>k. take n (drop (k * n) xs)) [0..<m]) = take (m * n) xs"
proof (induction m)
  case (Suc m)
  have "take (Suc m * n) xs = take (m * n) xs @ take n (drop (m * n) xs)" by (metis add.commute mult_Suc take_add)
  then show ?case using Suc by simp
qed simp

lemma page_of_FormatInt:
  assumes "1 \<le> k" and "in_i64 k"
  shows "page_param (q(''page'' := FormatInt k)) = k" "limit_param (q(''page'' := v)) = limit_param q"
  using assms by (simp_all add: page_param_def limit_param_def parseIntParam_def Atoi_def)

text \<open>What a page shows once the parameters are valid and the application is the caller's.\<close>

lemma list_page:
  assumes "ParseInt p = Some app" and "find_app (tabs s) app (SessOrgID dt) = Some a"
    and "time_param (q ''from'') = Some fromT" and "time_param (q ''to'') = Some toT" and "q ''quality'' = []"
    and "1 \<le> k" and "in_i64 k" and "0 \<le> i64 ((k - 1) * limit_param q)"
  shows "HandleListConferences (\<lambda>_. False) (Some dt) p (q(''page'' := FormatInt k)) s =
    (let rows = matching_conferences (ingest (tabs s)) app fromT toT None in
     done_ok 200 (page_response (ingest (tabs s)) k (limit_param q) (length rows)
       (page_rows (limit_param q) (i64 ((k - 1) * limit_param q)) rows)) s)"
  using assms page_of_FormatInt [OF assms(6,7), of q]
  by (simp add: HandleListConferences_def Let_def del: FormatInt_nonempty)


definition no_params :: params where
  "no_params = (\<lambda>_. [])"

lemma demo_viewer_app: "find_app (tabs demo_detail_dash) 7 (SessOrgID demo_viewer) = Some (hd (apps demo_detail_db))"
  by (simp add: find_app_def demo_detail_dash_def demo_detail_db_def demo_viewer_def)


text \<open>Beyond that bound the offset wraps around: with four entries per page, page \<open>2 ^ 62 + 1\<close>
  shows the first page again.\<close>

lemma page_wraps:
  assumes "ParseInt p = Some app" and "find_app (tabs s) app (SessOrgID dt) = Some a" and "limit_param q = 4"
    and "time_param (q ''from'') = Some fromT" and "time_param (q ''to'') = Some toT" and "q ''quality'' = []"
  shows "let rows = matching_conferences (ingest (tabs s)) app fromT toT None in
    HandleListConferences (\<lambda>_. False) (Some dt) p (q(''page'' := FormatInt (2 ^ 62 + 1))) s
    = done_ok 200 (page_response (ingest (tabs s)) (2 ^ 62 + 1) 4 (length rows) (take 4 (sort_key (\<lambda>c. - conf_started_at c) rows))) s"
proof -
  have w: "i64 ((2 ^ 62 + 1 - 1) * 4) = 0" by (simp add: i64_def)
  show ?thesis using list_page [OF assms(1,2,4-6), of "2 ^ 62 + 1"] assms(3) w by (simp add: in_i64_def page_rows_def Let_def)
qed

end
