(* ===== verification/Analytics.thy ===== *)
theory Analytics
  imports Reports Redis_KV
begin

text \<open>
  The cached queries: statistics of a connection (\<^verbatim>\<open>handler/connection_stats.go\<close>),
  overview and breakdown of an application (\<^verbatim>\<open>handler/analytics_overview.go\<close>,
  \<^verbatim>\<open>handler/analytics_breakdown.go\<close>).

  All three look into Redis before they touch the database, and store their answer there for a
  while.  The cache is a \<open>kv_api\<close> whose values are response bodies; a cache that cannot be
  reached is a miss, and a failed store is ignored.  The theorems show what the order of the checks
  means: a fresh entry is answered to every session.
\<close>

subsection \<open>The cache\<close>

definition cache_get :: "('c, jval) kv_api \<Rightarrow> faults \<Rightarrow> instant \<Rightarrow> string \<Rightarrow> ('s, 'c) dash \<Rightarrow> jval option" where
  "cache_get api ft now key s = (if ft ''cache get'' then None else GET api (cache s) now key)"

definition cache_put :: "('c, jval) kv_api \<Rightarrow> faults \<Rightarrow> instant \<Rightarrow> string \<Rightarrow> jval \<Rightarrow> int \<Rightarrow> ('s, 'c) dash \<Rightarrow> ('s, 'c) dash" where
  "cache_put api ft now key v life s = (if ft ''cache set failed'' then s else s\<lparr>cache := SET api (cache s) now key v life\<rparr>)"

definition answer :: "('c, jval) kv_api \<Rightarrow> faults \<Rightarrow> instant \<Rightarrow> string \<Rightarrow> jval \<Rightarrow> int \<Rightarrow> ('s, 'c) dash \<Rightarrow> ('s, 'c) handled" where
  "answer api ft now key v life s = (reply 200 (OkBody v), None, cache_put api ft now key v life s)"

subsection \<open>Statistics of a connection\<close>

definition statsCacheTTL :: int where
  "statsCacheTTL = 60 * 1000000000"

definition stat_item :: "stats_row \<Rightarrow> jval" where
  "stat_item r = JObj [(''ts'', JTime (cs_ts r)), (''rtt_ms'', JNum (cs_rtt_ms r)), (''jitter_ms'', JNum (cs_jitter_ms r)),
     (''packet_loss_rate'', JNum (cs_packets_lost_rate r)), (''bitrate_in_kbps'', JInt (cs_bitrate_in_kbps r)),
     (''bitrate_out_kbps'', JInt (cs_bitrate_out_kbps r)), (''ewma_rtt_ms'', JNum (cs_ewma_rtt_ms r)),
     (''ewma_jitter_ms'', JNum (cs_ewma_jitter_ms r)), (''ewma_packet_loss_rate'', JNum (cs_ewma_packets_lost_rate r)),
     (''ewma_bitrate_in_kbps'', JNum (cs_ewma_bitrate_in_kbps r)), (''ewma_bitrate_out_kbps'', JNum (cs_ewma_bitrate_out_kbps r)),
     (''fps'', JInt (cs_fps r)), (''frame_width'', JInt (cs_frame_width r)), (''frame_height'', JInt (cs_frame_height r)),
     (''audio_level'', JNum (cs_audio_level r)), (''concealment_ratio'', JNum (cs_concealment_ratio r)), (''source'', JStr (cs_source r))]"

definition queryStats :: "database \<Rightarrow> int \<Rightarrow> instant \<Rightarrow> instant \<Rightarrow> string \<Rightarrow> stats_row list" where
  "queryStats d connectionID fromT toT sourceFilter =
     sort_key cs_ts (filter (\<lambda>r. cs_connection_id r = connectionID \<and> pg_time fromT \<le> cs_ts r \<and> cs_ts r \<le> pg_time toT
        \<and> (sourceFilter = [] \<or> cs_source r = sourceFilter)) (connection_stats d))"

text \<open>An absent bound is the zero time, and the zero time is treated as absent.\<close>

definition stats_key :: "int \<Rightarrow> instant \<Rightarrow> instant \<Rightarrow> string \<Rightarrow> string" where
  "stats_key connectionID fromT toT sourceFilter =
     ''stats:'' @ FormatInt connectionID @ '':'' @ FormatRFC3339 fromT @ '':'' @ FormatRFC3339 toT @ '':'' @
     (if sourceFilter = [] then ''all'' else sourceFilter)"

definition HandleGetConnectionStats ::
  "('c, jval) kv_api \<Rightarrow> faults \<Rightarrow> instant \<Rightarrow> Data option \<Rightarrow> string \<Rightarrow> params \<Rightarrow> ('s, 'c) dash \<Rightarrow> ('s, 'c) handled" where
  "HandleGetConnectionStats api ft now sess connParam q s =
     (case sess of
        None \<Rightarrow> fail 401 ''unauthorized'' s
      | Some dt \<Rightarrow>
      case ParseInt connParam of
        None \<Rightarrow> fail 400 ''invalid connectionId'' s
      | Some connectionID \<Rightarrow>
      case (if q ''from'' = [] then Some zero_time else ParseRFC3339 (q ''from'')) of
        None \<Rightarrow> fail 400 ''invalid from: must be RFC 3339'' s
      | Some fromTime \<Rightarrow>
      case (if q ''to'' = [] then Some zero_time else ParseRFC3339 (q ''to'')) of
        None \<Rightarrow> fail 400 ''invalid to: must be RFC 3339'' s
      | Some toTime \<Rightarrow>
      let sourceFilter = q ''source'' in
      if sourceFilter \<noteq> [] \<and> sourceFilter \<noteq> ''browser'' \<and> sourceFilter \<noteq> ''server''
      then fail 400 ''source must be browser or server'' s
      else let cacheKey = stats_key connectionID fromTime toTime sourceFilter in
      case cache_get api ft now cacheKey s of
        Some cached \<Rightarrow> done_ok 200 cached s
      | None \<Rightarrow>
      if ft ''connection stats: ownership check'' then fail 500 ''internal error'' s
      else case connection_owner (ingest (tabs s)) connectionID of
        None \<Rightarrow> fail 404 ''not found'' s
      | Some (c, orgID) \<Rightarrow>
          if orgID \<noteq> SessOrgID dt then fail 403 ''forbidden'' s
          else let fromT = (if fromTime = zero_time then conn_started_at c else fromTime);
                   toT = (if toTime = zero_time
                          then (case conn_ended_at c of Some e \<Rightarrow> e | None \<Rightarrow> conn_started_at c + 3600 * 1000000000) else toTime) in
               if ft ''connection stats: query'' then fail 500 ''internal error'' s
               else answer api ft now cacheKey
                      (JObj [(''data'', JArr (map stat_item (queryStats (ingest (tabs s)) connectionID fromT toT sourceFilter)))]) statsCacheTTL s)"

subsection \<open>Overview of an application\<close>

definition overviewCacheTTL :: int where
  "overviewCacheTTL = 300 * 1000000000"

definition confs_between :: "database \<Rightarrow> int \<Rightarrow> instant \<Rightarrow> instant \<Rightarrow> conference_row list" where
  "confs_between d appID fromT toT =
     filter (\<lambda>c. conf_app_id c = appID \<and> pg_time fromT \<le> conf_started_at c \<and> conf_started_at c < pg_time toT) (conferences d)"

definition parts_between :: "database \<Rightarrow> int \<Rightarrow> instant \<Rightarrow> instant \<Rightarrow> participant_row list" where
  "parts_between d appID fromT toT =
     concat (map (\<lambda>c. filter (\<lambda>p. part_conference_id p = conf_id c) (participants d)) (confs_between d appID fromT toT))"

text \<open>\<open>float8\<close> division of two counts, 0 when the denominator is 0.\<close>

definition count_ratio :: "nat \<Rightarrow> nat \<Rightarrow> rat" where
  "count_ratio n m = (if m = 0 then 0 else f64 (of_nat n / of_nat m))"

definition success_rate :: "string option list \<Rightarrow> rat" where
  "success_rate outcomes = count_ratio (length (filter (\<lambda>x. x = Some ''success'') outcomes)) (length (filter (\<lambda>x. x \<noteq> None) outcomes))"

text \<open>Milliseconds from joining to the start of a connection.\<close>

definition setup_times :: "database \<Rightarrow> participant_row list \<Rightarrow> rat list" where
  "setup_times d ps =
     concat (map (\<lambda>p. concat (map (\<lambda>x. map (\<lambda>c. f64 (of_int ((conn_started_at c - part_joined_at p) div 1000) / 1000))
         (filter (\<lambda>c. conn_session_id c = sess_id x \<and> part_joined_at p \<le> conn_started_at c) (connections d)))
       (filter (\<lambda>x. sess_participant_id x = part_id p) (sessions d)))) ps)"

definition percentile_cont :: "rat \<Rightarrow> rat list \<Rightarrow> rat option" where
  "percentile_cont p xs =
     (if xs = [] then None
      else let ys = sort xs; pos = f64 (f64 p * of_nat (length xs - 1)); lo = ys ! nat \<lfloor>pos\<rfloor>; hi = ys ! nat \<lceil>pos\<rceil>;
               frac = f64 (pos - of_int \<lfloor>pos\<rfloor>) in
           Some (if \<lfloor>pos\<rfloor> = \<lceil>pos\<rceil> then lo else f64 (lo + f64 (frac * f64 (hi - lo)))))"

definition percentile_ms :: "rat \<Rightarrow> rat list \<Rightarrow> int" where
  "percentile_ms p xs = (case percentile_cont p xs of None \<Rightarrow> 0 | Some v \<Rightarrow> rne v)"

definition overview :: "database \<Rightarrow> int \<Rightarrow> instant \<Rightarrow> instant \<Rightarrow> jval" where
  "overview d appID fromT toT =
     (let cs = confs_between d appID fromT toT; ps = parts_between d appID fromT toT; times = setup_times d ps in
      JObj [(''total_conferences'', JInt (int (length cs))),
        (''call_success_rate'', JNum (success_rate (map (\<lambda>c. snd (conf_quality d (conf_id c))) cs))),
        (''avg_emos'', JNum (case agg_avg (map q_emos (quality_of d (sessions_of d ps))) of None \<Rightarrow> 0 | Some v \<Rightarrow> v)),
        (''p50_setup_time_ms'', JInt (percentile_ms (1 / 2) times)), (''p95_setup_time_ms'', JInt (percentile_ms (95 / 100) times)),
        (''total_participants'', JInt (int (length (remdups (map part_id ps)))))])"

definition overview_key :: "int \<Rightarrow> instant \<Rightarrow> instant \<Rightarrow> string" where
  "overview_key appID fromT toT = ''overview:'' @ FormatInt appID @ '':'' @ FormatRFC3339 fromT @ '':'' @ FormatRFC3339 toT"

text \<open>A required time parameter; \<open>Inl\<close> is the message of the 400 answer.\<close>

definition required_time :: "string \<Rightarrow> string \<Rightarrow> string + instant" where
  "required_time name v =
     (if v = [] then Inl (name @ '' is required'')
      else case ParseRFC3339 v of None \<Rightarrow> Inl (''invalid '' @ name @ '': must be RFC 3339'') | Some t \<Rightarrow> Inr t)"

definition HandleGetAnalyticsOverview ::
  "('c, jval) kv_api \<Rightarrow> faults \<Rightarrow> instant \<Rightarrow> Data option \<Rightarrow> string \<Rightarrow> params \<Rightarrow> ('s, 'c) dash \<Rightarrow> ('s, 'c) handled" where
  "HandleGetAnalyticsOverview api ft now sess appParam q s =
     (case sess of
        None \<Rightarrow> fail 401 ''unauthorized'' s
      | Some dt \<Rightarrow>
      case ParseInt appParam of
        None \<Rightarrow> fail 400 ''invalid appId'' s
      | Some appID \<Rightarrow>
      case required_time ''from'' (q ''from'') of
        Inl msg \<Rightarrow> fail 400 msg s
      | Inr fromTime \<Rightarrow>
      case required_time ''to'' (q ''to'') of
        Inl msg \<Rightarrow> fail 400 msg s
      | Inr toTime \<Rightarrow>
      let cacheKey = overview_key appID fromTime toTime in
      case cache_get api ft now cacheKey s of
        Some cached \<Rightarrow> done_ok 200 cached s
      | None \<Rightarrow>
      if ft ''analytics overview: app ownership check'' then fail 500 ''internal error'' s
      else case find_app (tabs s) appID (SessOrgID dt) of
        None \<Rightarrow> fail 403 ''forbidden'' s
      | Some a \<Rightarrow>
          if ft ''analytics overview: query'' then fail 500 ''internal error'' s
          else answer api ft now cacheKey (overview (ingest (tabs s)) appID fromTime toTime) overviewCacheTTL s)"

subsection \<open>Breakdown by a dimension\<close>

definition breakdownCacheTTL :: int where
  "breakdownCacheTTL = 300 * 1000000000"

definition dimensionColumns :: "string \<Rightarrow> (session_row \<Rightarrow> string) option" where
  "dimensionColumns = [''browser'' \<mapsto> sess_browser, ''os'' \<mapsto> sess_os, ''region'' \<mapsto> sess_country, ''connection_type'' \<mapsto> sess_network_type]"

definition breakdown_item :: "database \<Rightarrow> (session_row \<Rightarrow> string) \<Rightarrow> session_row list \<Rightarrow> string \<Rightarrow> jval" where
  "breakdown_item d col ss v =
     (let grp = filter (\<lambda>x. col x = v) ss; qs = quality_of d grp in
      JObj [(''value'', JStr v), (''count'', JInt (int (length grp))),
        (''avg_emos'', JNum (case agg_avg (map q_emos qs) of None \<Rightarrow> 0 | Some e \<Rightarrow> e)),
        (''success_rate'', JNum (count_ratio (length (filter (\<lambda>r. q_outcome r = ''success'') qs)) (length qs)))])"

definition breakdown :: "database \<Rightarrow> (session_row \<Rightarrow> string) \<Rightarrow> string \<Rightarrow> int \<Rightarrow> instant \<Rightarrow> instant \<Rightarrow> jval" where
  "breakdown d col by appID fromT toT =
     (let ss = sessions_of d (parts_between d appID fromT toT) in
      JObj [(''dimension'', JStr by), (''data'', JArr (map (breakdown_item d col ss)
        (sort_key (\<lambda>v. - int (length (filter (\<lambda>x. col x = v) ss))) (remdups (map col ss)))))])"

definition breakdown_key :: "int \<Rightarrow> string \<Rightarrow> instant \<Rightarrow> instant \<Rightarrow> string" where
  "breakdown_key appID by fromT toT = ''breakdown:'' @ FormatInt appID @ '':'' @ by @ '':'' @ FormatRFC3339 fromT @ '':'' @ FormatRFC3339 toT"

definition HandleGetAnalyticsBreakdown ::
  "('c, jval) kv_api \<Rightarrow> faults \<Rightarrow> instant \<Rightarrow> Data option \<Rightarrow> string \<Rightarrow> params \<Rightarrow> ('s, 'c) dash \<Rightarrow> ('s, 'c) handled" where
  "HandleGetAnalyticsBreakdown api ft now sess appParam q s =
     (case sess of
        None \<Rightarrow> fail 401 ''unauthorized'' s
      | Some dt \<Rightarrow>
      case ParseInt appParam of
        None \<Rightarrow> fail 400 ''invalid appId'' s
      | Some appID \<Rightarrow>
      if q ''by'' = [] then fail 400 ''by is required'' s
      else case dimensionColumns (q ''by'') of
        None \<Rightarrow> fail 400 ''invalid dimension'' s
      | Some col \<Rightarrow>
      case required_time ''from'' (q ''from'') of
        Inl msg \<Rightarrow> fail 400 msg s
      | Inr fromTime \<Rightarrow>
      case required_time ''to'' (q ''to'') of
        Inl msg \<Rightarrow> fail 400 msg s
      | Inr toTime \<Rightarrow>
      let cacheKey = breakdown_key appID (q ''by'') fromTime toTime in
      case cache_get api ft now cacheKey s of
        Some cached \<Rightarrow> done_ok 200 cached s
      | None \<Rightarrow>
      if ft ''analytics breakdown: app ownership check'' then fail 500 ''internal error'' s
      else case find_app (tabs s) appID (SessOrgID dt) of
        None \<Rightarrow> fail 403 ''forbidden'' s
      | Some a \<Rightarrow>
          if ft ''analytics breakdown: query'' \<or> ft ''analytics breakdown: scan'' \<or> ft ''analytics breakdown: rows error''
          then fail 500 ''internal error'' s
          else answer api ft now cacheKey (breakdown (ingest (tabs s)) col (q ''by'') appID fromTime toTime) breakdownCacheTTL s)"

lemma keeps_answer [keeps_intro]: "I (tabs s) \<Longrightarrow> keeps I (answer api ft now key v life s)"
  by (simp add: keeps_def answer_def cache_put_def)

lemma HandleGetConnectionStats_keeps: "I (tabs s) \<Longrightarrow> keeps I (HandleGetConnectionStats api ft now sess p q s)"
  unfolding HandleGetConnectionStats_def by (intro keeps_intro)

lemma HandleGetAnalyticsOverview_keeps: "I (tabs s) \<Longrightarrow> keeps I (HandleGetAnalyticsOverview api ft now sess p q s)"
  unfolding HandleGetAnalyticsOverview_def by (intro keeps_intro)

lemma HandleGetAnalyticsBreakdown_keeps: "I (tabs s) \<Longrightarrow> keeps I (HandleGetAnalyticsBreakdown api ft now sess p q s)"
  unfolding HandleGetAnalyticsBreakdown_def by (intro keeps_intro)

subsection \<open>Properties\<close>

text \<open>A formatted time is a text without \<open>Z\<close>, followed by \<open>Z\<close>.\<close>

lemma FormatRFC3339_Z: "\<exists>b. FormatRFC3339 t = b @ [CHR ''Z''] \<and> CHR ''Z'' \<notin> set b"
proof -
  have "c \<in> set (appendInt x w) \<Longrightarrow> c \<noteq> CHR ''Z''" for c x w
    using dec_nat_digits [of c "nat \<bar>x\<bar>"] by (auto simp: appendInt_def Let_def is_digit_def split: if_splits)
  then show ?thesis unfolding FormatRFC3339_def by (intro exI [of _ "appendInt (Year t) 4 @ ''-'' @ appendInt (Month t) 2 @ ''-'' @
    appendInt (Day t) 2 @ ''T'' @ appendInt (Hour t) 2 @ '':'' @ appendInt (Minute t) 2 @ '':'' @ appendInt (Second t) 2"]) auto
qed

lemma FormatRFC3339_append:
  assumes "FormatRFC3339 t @ xs = FormatRFC3339 u @ ys"
  shows "t div 1000000000 = u div 1000000000" "xs = ys"
proof -
  obtain b c where b: "FormatRFC3339 t = b @ [CHR ''Z'']" "CHR ''Z'' \<notin> set b" and c: "FormatRFC3339 u = c @ [CHR ''Z'']" "CHR ''Z'' \<notin> set c"
    using FormatRFC3339_Z by meson
  have e: "b @ CHR ''Z'' # xs = c @ CHR ''Z'' # ys" using assms b(1) c(1) by simp
  have "b = c \<and> xs = ys" using append_sep_inject [OF e b(2) c(2)] by simp
  then have "FormatRFC3339 t = FormatRFC3339 u" "xs = ys" using b(1) c(1) by simp_all
  then show "t div 1000000000 = u div 1000000000" "xs = ys" using iffD1 [OF FormatRFC3339_eq_iff [of t u]] by blast+
qed

lemma id_append:
  assumes "FormatInt a @ '':'' @ xs = FormatInt b @ '':'' @ ys"
  shows "a = b" "xs = ys"
proof -
  have e: "FormatInt a @ CHR '':'' # xs = FormatInt b @ CHR '':'' # ys" using assms by simp
  show "a = b" "xs = ys" using append_sep_inject [OF e] by (simp_all add: FormatInt_no_colon)
qed

lemma dimension_no_colon: "dimensionColumns by \<noteq> None \<Longrightarrow> CHR '':'' \<notin> set by"
  by (auto simp: dimensionColumns_def split: if_splits)

lemma range_key_iff:
  "FormatInt a @ '':'' @ FormatRFC3339 f @ '':'' @ FormatRFC3339 t @ xs = FormatInt a' @ '':'' @ FormatRFC3339 f' @ '':'' @ FormatRFC3339 t' @ ys
   \<longleftrightarrow> a = a' \<and> f div 1000000000 = f' div 1000000000 \<and> t div 1000000000 = t' div 1000000000 \<and> xs = ys" (is "?l = ?r")
proof
  assume ?l
  note 1 = id_append [OF this]
  note 2 = FormatRFC3339_append [OF 1(2)]
  from 2(2) have "FormatRFC3339 t @ xs = FormatRFC3339 t' @ ys" by simp
  note 3 = FormatRFC3339_append [OF this]
  show ?r using 1(1) 2(1) 3 by blast
next
  assume r: ?r
  then have "FormatRFC3339 f = FormatRFC3339 f'" "FormatRFC3339 t = FormatRFC3339 t'" by (simp_all add: FormatRFC3339_eq_iff)
  then show ?l using r by simp
qed

text \<open>A cache key identifies the request up to fractions of a second.  Two requests of the same
  endpoint share a key exactly when they are about the same connection or application, with bounds
  in the same seconds, and with the same source filter or dimension; keys of different endpoints
  differ.  So an entry may be served for bounds that differ by less than a second, and for nothing
  else.\<close>
theorem cache_key_identifies:
  "(stats_key i f t src = stats_key i' f' t' src' \<longleftrightarrow>
      i = i' \<and> f div 1000000000 = f' div 1000000000 \<and> t div 1000000000 = t' div 1000000000
    \<and> (if src = [] then ''all'' else src) = (if src' = [] then ''all'' else src'))
 \<and> (overview_key i f t = overview_key i' f' t' \<longleftrightarrow>
      i = i' \<and> f div 1000000000 = f' div 1000000000 \<and> t div 1000000000 = t' div 1000000000)
 \<and> (dimensionColumns by \<noteq> None \<and> dimensionColumns by' \<noteq> None \<longrightarrow>
      (breakdown_key i by f t = breakdown_key i' by' f' t' \<longleftrightarrow>
         i = i' \<and> by = by' \<and> f div 1000000000 = f' div 1000000000 \<and> t div 1000000000 = t' div 1000000000))
 \<and> stats_key i f t src \<noteq> overview_key i' f' t' \<and> stats_key i f t src \<noteq> breakdown_key i' by' f' t' \<and> overview_key i f t \<noteq> breakdown_key i' by' f' t'"
proof -
  have b: "breakdown_key i by f t = breakdown_key i' by' f' t' \<longleftrightarrow>
      i = i' \<and> by = by' \<and> f div 1000000000 = f' div 1000000000 \<and> t div 1000000000 = t' div 1000000000"
    if d: "dimensionColumns by \<noteq> None" "dimensionColumns by' \<noteq> None"
  proof
    assume "breakdown_key i by f t = breakdown_key i' by' f' t'"
    then have "FormatInt i @ '':'' @ by @ '':'' @ FormatRFC3339 f @ '':'' @ FormatRFC3339 t
        = FormatInt i' @ '':'' @ by' @ '':'' @ FormatRFC3339 f' @ '':'' @ FormatRFC3339 t'" by (simp add: breakdown_key_def)
    note 1 = id_append [OF this]
    from 1(2) have e: "by @ CHR '':'' # FormatRFC3339 f @ '':'' @ FormatRFC3339 t = by' @ CHR '':'' # FormatRFC3339 f' @ '':'' @ FormatRFC3339 t'" by simp
    note 2 = append_sep_inject [OF e dimension_no_colon [OF d(1)] dimension_no_colon [OF d(2)]]
    then show "i = i' \<and> by = by' \<and> f div 1000000000 = f' div 1000000000 \<and> t div 1000000000 = t' div 1000000000"
      using 1(1) range_key_iff [of i f t "[]" i f' t' "[]"] by simp
  next
    assume "i = i' \<and> by = by' \<and> f div 1000000000 = f' div 1000000000 \<and> t div 1000000000 = t' div 1000000000"
    then show "breakdown_key i by f t = breakdown_key i' by' f' t'"
      using FormatRFC3339_eq_iff [of f f'] FormatRFC3339_eq_iff [of t t'] by (simp add: breakdown_key_def)
  qed
  have o: "overview_key i f t = overview_key i' f' t' \<longleftrightarrow> i = i' \<and> f div 1000000000 = f' div 1000000000 \<and> t div 1000000000 = t' div 1000000000"
    using range_key_iff [of i f t "[]" i' f' t' "[]"] by (simp add: overview_key_def)
  have st: "stats_key i f t src = stats_key i' f' t' src' \<longleftrightarrow> i = i' \<and> f div 1000000000 = f' div 1000000000 \<and> t div 1000000000 = t' div 1000000000
      \<and> (if src = [] then ''all'' else src) = (if src' = [] then ''all'' else src')"
    using range_key_iff [of i f t "'':'' @ (if src = [] then ''all'' else src)" i' f' t' "'':'' @ (if src' = [] then ''all'' else src')"]
    by (simp add: stats_key_def)
  show ?thesis using b o st by (auto simp: stats_key_def overview_key_def breakdown_key_def)
qed

theorem cache_key_identifies_witness:
  "breakdown_key 7 ''os'' 0 5000000000 = breakdown_key 7 ''os'' 999999999 5000000000
 \<and> breakdown_key 7 ''os'' 0 5000000000 \<noteq> breakdown_key 7 ''browser'' 0 5000000000"
proof -
  have d: "dimensionColumns ''os'' \<noteq> None" "dimensionColumns ''browser'' \<noteq> None" by (simp_all add: dimensionColumns_def)
  show ?thesis
    using cache_key_identifies [where i = 7 and f = 0 and t = 5000000000 and i' = 7 and f' = 999999999 and t' = 5000000000
        and ?by = "''os''" and by' = "''os''"]
      cache_key_identifies [where i = 7 and f = 0 and t = 5000000000 and i' = 7 and f' = 0 and t' = 5000000000
        and ?by = "''os''" and by' = "''browser''"] d
    by simp
qed

text \<open>A cold cache, and a request that found it so: the answer is stored under the key of the request.\<close>

lemma overview_computed:
  assumes "GET api (cache s) now (overview_key app f t) = None" and "\<not> ft ''cache set failed''"
    and "ParseInt p = Some app" and "required_time ''from'' (q ''from'') = Inr f" and "required_time ''to'' (q ''to'') = Inr t"
    and "HandleGetAnalyticsOverview api ft now (Some dt) p q s = (r, ck, s')" and "status r = 200"
  shows "\<exists>a. find_app (tabs s) app (SessOrgID dt) = Some a"
    and "r = reply 200 (OkBody (overview (ingest (tabs s)) app f t))"
    and "s' = s\<lparr>cache := SET api (cache s) now (overview_key app f t) (overview (ingest (tabs s)) app f t) overviewCacheTTL\<rparr>"
proof -
  have g: "cache_get api ft now (overview_key app f t) s = None" using assms(1) by (simp add: cache_get_def)
  have "(\<exists>a. find_app (tabs s) app (SessOrgID dt) = Some a) \<and> r = reply 200 (OkBody (overview (ingest (tabs s)) app f t))
      \<and> s' = s\<lparr>cache := SET api (cache s) now (overview_key app f t) (overview (ingest (tabs s)) app f t) overviewCacheTTL\<rparr>"
    using assms(2-) g
    by (auto simp: HandleGetAnalyticsOverview_def Let_def fail_def err_reply_def reply_def answer_def cache_put_def split: if_splits option.splits)
  then show "\<exists>a. find_app (tabs s) app (SessOrgID dt) = Some a" "r = reply 200 (OkBody (overview (ingest (tabs s)) app f t))"
    "s' = s\<lparr>cache := SET api (cache s) now (overview_key app f t) (overview (ingest (tabs s)) app f t) overviewCacheTTL\<rparr>"
    by blast+
qed

text \<open>(C37) A cached overview is answered to everyone.  Once the overview of an application was computed
  for a member of its organization, the same request within the five minutes the entry lives is
  answered 200 with the same body to every session, whatever its organization, and whatever
  happened to the tables meanwhile; a session of another organization is refused with 403 only
  when the cache cannot be read.  When the entry has expired and the application is not the
  session's, the answer is 403 again.\<close>
theorem cache_hit_ignores_owner:
  assumes kv: "kv_server api"
    and first: "HandleGetAnalyticsOverview api ft now (Some dt) p q s = (r, ck, s')" "status r = 200"
    and cold: "GET api (cache s) now (overview_key app f t) = None" "\<not> ft ''cache set failed''"
    and req: "ParseInt p = Some app" "required_time ''from'' (q ''from'') = Inr f" "required_time ''to'' (q ''to'') = Inr t"
    and later: "now \<le> later"
  shows "(later < now + overviewCacheTTL \<and> \<not> ft' ''cache get'' \<longrightarrow>
            HandleGetAnalyticsOverview api ft' later (Some other) p q (s'\<lparr>tabs := T\<rparr>) = (r, None, s'\<lparr>tabs := T\<rparr>))
       \<and> (find_app T app (SessOrgID other) = None \<and> (now + overviewCacheTTL \<le> later \<or> ft' ''cache get'')
            \<and> \<not> ft' ''analytics overview: app ownership check'' \<longrightarrow>
            HandleGetAnalyticsOverview api ft' later (Some other) p q (s'\<lparr>tabs := T\<rparr>) = fail 403 ''forbidden'' (s'\<lparr>tabs := T\<rparr>))"
proof -
  note c = overview_computed [OF cold req first]
  have g: "GET api (cache s') later (overview_key app f t)
      = (if later < now + overviewCacheTTL then Some (overview (ingest (tabs s)) app f t) else None)"
    using kv_server.set_same [OF kv later, of overviewCacheTTL] by (simp add: c(3) overviewCacheTTL_def)
  show ?thesis
    using req g c(2) by (simp add: HandleGetAnalyticsOverview_def Let_def cache_get_def done_ok_def)
qed

definition demo_range :: params where
  "demo_range = no_params(''from'' := ''2024-01-01T00:00:00Z'', ''to'' := ''2024-01-02T00:00:00Z'')"

definition demo_cached :: "(unit, jval kv_store) dash" where
  "demo_cached = \<lparr>tabs = tabs demo_detail_dash, store = (), cache = (\<lambda>_. None)\<rparr>"

definition demo_stranger :: Data where
  "demo_stranger = demo_viewer\<lparr>SessUserID := 9, SessOrgID := 99\<rparr>"

theorem cache_hit_ignores_owner_witness:
  "let h = HandleGetAnalyticsOverview map_server (\<lambda>_. False) 0 (Some demo_viewer) ''7'' demo_range demo_cached in
   HandleGetAnalyticsOverview map_server (\<lambda>_. False) 1000000000 (Some demo_stranger) ''7'' demo_range (snd (snd h)) = (fst h, None, snd (snd h))
 \<and> status (fst h) = 200 \<and> find_app (tabs demo_cached) 7 (SessOrgID demo_stranger) = None"
proof -
  define h where "h = HandleGetAnalyticsOverview map_server (\<lambda>_. False) 0 (Some demo_viewer) ''7'' demo_range demo_cached"
  have p: "ParseInt ''7'' = Some 7" by code_simp
  have a: "find_app (tabs demo_cached) 7 (SessOrgID demo_viewer) = Some (hd (apps demo_detail_db))"
    using demo_viewer_app by (simp add: demo_cached_def)
  have "ParseRFC3339 ''2024-01-01T00:00:00Z'' \<noteq> None" "ParseRFC3339 ''2024-01-02T00:00:00Z'' \<noteq> None" by code_simp+
  then obtain f t where q: "required_time ''from'' (demo_range ''from'') = Inr f" "required_time ''to'' (demo_range ''to'') = Inr t"
    by (auto simp: required_time_def demo_range_def)
  have g: "GET map_server (cache demo_cached) 0 k = None" for k by (simp add: map_server_def kv_get_def demo_cached_def)
  have st: "status (fst h) = 200"
    using p a q g by (simp add: h_def HandleGetAnalyticsOverview_def Let_def cache_get_def answer_def reply_def)
  have hh: "HandleGetAnalyticsOverview map_server (\<lambda>_. False) 0 (Some demo_viewer) ''7'' demo_range demo_cached = (fst h, fst (snd h), snd (snd h))"
    by (simp add: h_def)
  have "HandleGetAnalyticsOverview map_server (\<lambda>_. False) 1000000000 (Some demo_stranger) ''7'' demo_range (snd (snd h)\<lparr>tabs := tabs (snd (snd h))\<rparr>)
      = (fst h, None, snd (snd h)\<lparr>tabs := tabs (snd (snd h))\<rparr>)"
    using cache_hit_ignores_owner [OF map_server.kv_server_axioms hh st g _ p q,
      where other = demo_stranger and T = "tabs (snd (snd h))" and later = 1000000000 and ft' = "\<lambda>_. False"]
    by (simp add: overviewCacheTTL_def)
  moreover have "find_app (tabs demo_cached) 7 (SessOrgID demo_stranger) = None"
    by (simp add: find_app_def demo_cached_def demo_detail_dash_def demo_detail_db_def demo_stranger_def)
  ultimately show ?thesis using st by (simp add: h_def Let_def)
qed

end
