(* ===== verification/Query_API.thy ===== *)
theory Query_API
  imports Team Share Apps Analytics
begin

text \<open>
  The query API as a whole, \<^verbatim>\<open>services/query-api/server/server.go\<close> and
  \<^verbatim>\<open>handler/health.go\<close>: the table of routes, the middlewares, and the dispatch to the
  handlers of the theories above.

  The chi router and its \<open>Recoverer\<close> are third-party code.  The router is a parameter: given
  the registered methods and patterns it answers a request itself (404, 405) or names the route with
  the values of the URL parameters.  A panic of a handler is \<open>None\<close>, which \<open>Recoverer\<close>
  turns into a 500 answer.  A request carries the result of decoding its body for each request type.
\<close>

subsection \<open>Requests and the server\<close>

record http_request =
  rq_Method :: string
  rq_Path :: string
  rq_RequestURI :: string
  rq_Host :: string
  rq_TLS :: bool
  rq_Origin :: string
  rq_Cookie :: "string option"
  rq_Query :: params
  as_register :: "RegisterRequest option"
  as_login :: "LoginRequest option"
  as_patch :: "PatchMeRequest option"
  as_org :: "string option"
  as_app :: "CreateAppRequest option"
  as_role :: "ChangeRoleRequest option"
  as_invitation :: "CreateInvitationRequest option"
  as_accept :: "AcceptInvitationRequest option"

type_synonym routes_key = "string \<times> string"

record ('s, 'c) Server =
  srv_sessions :: "('s, Data) kv_api"
  srv_redis :: "('c, jval) kv_api"
  srv_store :: Store
  serverMasterKey :: string
  srv_bcrypt :: bcrypt
  srv_crypto :: crypto
  srv_router :: "routes_key list \<Rightarrow> string \<Rightarrow> string \<Rightarrow> nat + (routes_key \<times> params)"
  srv_grow :: "nat \<Rightarrow> nat"
  srv_text_min :: "string list \<Rightarrow> string"
  srv_parse_address :: "string \<Rightarrow> bool"
  srv_static :: "http_request \<Rightarrow> jval resp"

text \<open>What one call draws from the outside: the time, the faults, random bytes and the bcrypt salt.\<close>

record call =
  cl_now :: instant
  cl_faults :: faults
  cl_rnd :: string
  cl_rnd2 :: string
  cl_nonce :: string
  cl_salt :: string

subsection \<open>Health\<close>

definition HandleHealth :: "faults \<Rightarrow> ('s, 'c) dash \<Rightarrow> ('s, 'c) handled" where
  "HandleHealth ft s =
     (let DB = (if ft ''health: db ping failed'' then ''error'' else ''ok'');
          Redis = (if ft ''health: redis ping failed'' then ''error'' else ''ok'');
          Status = (if ft ''health: db ping failed'' \<or> ft ''health: redis ping failed'' then ''error'' else ''ok'') in
      done_ok (if Status = ''error'' then 503 else 200)
        (JObj [(''status'', JStr Status), (''db'', JStr DB), (''redis'', JStr Redis)]) s)"

subsection \<open>Routes\<close>

datatype endpoint =
    E_Health | E_Static | E_Register | E_Login | E_Logout | E_AcceptInvitation | E_GetShareToken
  | E_Me | E_PatchMe | E_CreateOrg | E_ListApps | E_CreateApp | E_DeleteApp | E_RotateKey
  | E_ListConferences | E_GetConference | E_ConnectionStats | E_ConnectionEvents | E_UserCalls | E_Overview | E_Breakdown
  | E_GetServerKey | E_GenerateServerKey | E_DeleteServerKey | E_RotateServerKey
  | E_ListMembers | E_ChangeRole | E_RemoveMember | E_CreateInvitation | E_ListInvitations | E_RevokeInvitation
  | E_CreateShareToken | E_RevokeShareToken | E_ListShareTokens

definition public_routes :: "(routes_key \<times> endpoint) list" where
  "public_routes = [
     ((''GET'', ''/health''), E_Health),
     ((''GET'', ''/swagger/*''), E_Static),
     ((''GET'', ''/metrics''), E_Static),
     ((''POST'', ''/auth/register''), E_Register),
     ((''POST'', ''/auth/login''), E_Login),
     ((''POST'', ''/auth/logout''), E_Logout),
     ((''POST'', ''/v1/team/invitations/{token}/accept''), E_AcceptInvitation),
     ((''GET'', ''/share/{token}''), E_GetShareToken)]"

definition session_routes :: "(routes_key \<times> endpoint) list" where
  "session_routes = [
     ((''GET'', ''/auth/me''), E_Me),
     ((''PATCH'', ''/auth/me''), E_PatchMe),
     ((''POST'', ''/v1/orgs''), E_CreateOrg),
     ((''GET'', ''/v1/orgs/{orgId}/apps''), E_ListApps),
     ((''POST'', ''/v1/orgs/{orgId}/apps''), E_CreateApp),
     ((''DELETE'', ''/v1/orgs/{orgId}/apps/{appId}''), E_DeleteApp),
     ((''POST'', ''/v1/orgs/{orgId}/apps/{appId}/rotate-key''), E_RotateKey),
     ((''GET'', ''/v1/apps/{appId}/conferences''), E_ListConferences),
     ((''GET'', ''/v1/conferences/{conferenceId}''), E_GetConference),
     ((''GET'', ''/v1/connections/{connectionId}/stats''), E_ConnectionStats),
     ((''GET'', ''/v1/connections/{connectionId}/events''), E_ConnectionEvents),
     ((''GET'', ''/v1/users/{userId}/calls''), E_UserCalls),
     ((''GET'', ''/v1/apps/{appId}/analytics/overview''), E_Overview),
     ((''GET'', ''/v1/apps/{appId}/analytics/breakdown''), E_Breakdown),
     ((''GET'', ''/v1/orgs/{orgId}/apps/{appId}/server-key''), E_GetServerKey),
     ((''POST'', ''/v1/orgs/{orgId}/apps/{appId}/server-key''), E_GenerateServerKey),
     ((''DELETE'', ''/v1/orgs/{orgId}/apps/{appId}/server-key''), E_DeleteServerKey),
     ((''POST'', ''/v1/orgs/{orgId}/apps/{appId}/rotate-server-key''), E_RotateServerKey),
     ((''GET'', ''/v1/team/members''), E_ListMembers),
     ((''PATCH'', ''/v1/team/members/{userId}/role''), E_ChangeRole),
     ((''DELETE'', ''/v1/team/members/{userId}''), E_RemoveMember),
     ((''POST'', ''/v1/team/invitations''), E_CreateInvitation),
     ((''GET'', ''/v1/team/invitations''), E_ListInvitations),
     ((''DELETE'', ''/v1/team/invitations/{token}''), E_RevokeInvitation),
     ((''POST'', ''/v1/conferences/{id}/share''), E_CreateShareToken),
     ((''DELETE'', ''/v1/share-tokens/{token}''), E_RevokeShareToken),
     ((''GET'', ''/v1/share-tokens''), E_ListShareTokens)]"

text \<open>The handler mounted on a route.  \<open>sess\<close> is what \<open>session.FromContext\<close> finds,
  \<open>up\<close> the URL parameters.\<close>

definition endpoint_handler ::
  "('s, 'c) Server \<Rightarrow> call \<Rightarrow> http_request \<Rightarrow> params \<Rightarrow> Data option \<Rightarrow> endpoint \<Rightarrow> ('s, 'c) dash \<Rightarrow> ('s, 'c) handled option" where
  "endpoint_handler srv cl rq up sess e s =
     (let ft = cl_faults cl; now = cl_now cl; q = rq_Query rq; api = srv_sessions srv; bc = srv_bcrypt srv; st = srv_store srv in
      case e of
        E_Health \<Rightarrow> Some (HandleHealth ft s)
      | E_Static \<Rightarrow> Some (srv_static srv rq, None, s)
      | E_Register \<Rightarrow> Some (HandleRegister api bc ft now (cl_salt cl) (cl_rnd cl) st (as_register rq) s)
      | E_Login \<Rightarrow> Some (HandleLogin api bc ft now (cl_rnd cl) st (as_login rq) s)
      | E_Logout \<Rightarrow> Some (HandleLogout api ft now (rq_Cookie rq) s)
      | E_AcceptInvitation \<Rightarrow> Some (HandleAcceptInvitation api bc ft now (cl_salt cl) (cl_rnd cl) st (up ''token'') (as_accept rq) s)
      | E_GetShareToken \<Rightarrow> HandleGetShareToken (srv_grow srv) ft sess (rq_RequestURI rq) (up ''token'') s
      | E_Me \<Rightarrow> Some (HandleMe sess s)
      | E_PatchMe \<Rightarrow> Some (HandlePatchMe bc ft (cl_salt cl) sess (as_patch rq) s)
      | E_CreateOrg \<Rightarrow> Some (HandleCreateOrg api ft now (cl_rnd cl) st sess (rq_Cookie rq) (as_org rq) s)
      | E_ListApps \<Rightarrow> Some (HandleListApps ft sess (up ''orgId'') s)
      | E_CreateApp \<Rightarrow> Some (HandleCreateApp bc ft now (cl_salt cl) (cl_rnd cl) sess (up ''orgId'') (as_app rq) s)
      | E_DeleteApp \<Rightarrow> Some (HandleDeleteApp ft sess (up ''orgId'') (up ''appId'') s)
      | E_RotateKey \<Rightarrow> Some (HandleRotateKey bc ft (cl_salt cl) (cl_rnd cl) sess (up ''orgId'') (up ''appId'') s)
      | E_ListConferences \<Rightarrow> Some (HandleListConferences ft sess (up ''appId'') q s)
      | E_GetConference \<Rightarrow> HandleGetConference (srv_grow srv) ft sess (up ''conferenceId'') s
      | E_ConnectionStats \<Rightarrow> Some (HandleGetConnectionStats (srv_redis srv) ft now sess (up ''connectionId'') q s)
      | E_ConnectionEvents \<Rightarrow> Some (HandleGetConnectionEvents ft sess (up ''connectionId'') s)
      | E_UserCalls \<Rightarrow> Some (HandleGetUserCalls (srv_text_min srv) ft sess (up ''userId'') q s)
      | E_Overview \<Rightarrow> Some (HandleGetAnalyticsOverview (srv_redis srv) ft now sess (up ''appId'') q s)
      | E_Breakdown \<Rightarrow> Some (HandleGetAnalyticsBreakdown (srv_redis srv) ft now sess (up ''appId'') q s)
      | E_GetServerKey \<Rightarrow> HandleGetServerKey ft sess (up ''orgId'') (up ''appId'') s
      | E_GenerateServerKey \<Rightarrow> Some (HandleGenerateServerKey (srv_crypto srv) ft now (cl_rnd cl) (cl_rnd2 cl) (cl_nonce cl)
          (serverMasterKey srv) sess (up ''orgId'') (up ''appId'') s)
      | E_DeleteServerKey \<Rightarrow> Some (HandleDeleteServerKey ft sess (up ''orgId'') (up ''appId'') s)
      | E_RotateServerKey \<Rightarrow> Some (HandleRotateServerKey (srv_crypto srv) ft now (cl_rnd cl) (cl_rnd2 cl) (cl_nonce cl)
          (serverMasterKey srv) sess (up ''orgId'') (up ''appId'') s)
      | E_ListMembers \<Rightarrow> Some (HandleListMembers ft sess s)
      | E_ChangeRole \<Rightarrow> Some (HandleChangeRole ft sess (up ''userId'') (as_role rq) s)
      | E_RemoveMember \<Rightarrow> Some (HandleRemoveMember ft sess (up ''userId'') s)
      | E_CreateInvitation \<Rightarrow> Some (HandleCreateInvitation (srv_parse_address srv) ft now (cl_rnd cl) sess (as_invitation rq) s)
      | E_ListInvitations \<Rightarrow> Some (HandleListInvitations ft now sess s)
      | E_RevokeInvitation \<Rightarrow> Some (HandleRevokeInvitation ft sess (up ''token'') s)
      | E_CreateShareToken \<Rightarrow> Some (HandleCreateShareToken ft now (cl_rnd cl) sess (up ''id'') s)
      | E_RevokeShareToken \<Rightarrow> Some (HandleRevokeShareToken ft sess (up ''token'') s)
      | E_ListShareTokens \<Rightarrow> Some (HandleListShareTokens ft sess s))"

subsection \<open>Middlewares\<close>

definition writeUnauthorized :: "('s, 'c) dash \<Rightarrow> ('s, 'c) handled" where
  "writeUnauthorized s = fail 401 ''unauthorized'' s"

definition sessionMiddleware ::
  "('s, 'c) Server \<Rightarrow> call \<Rightarrow> http_request \<Rightarrow> (Data \<Rightarrow> ('s, 'c) dash \<Rightarrow> ('s, 'c) handled option) \<Rightarrow> ('s, 'c) dash \<Rightarrow> ('s, 'c) handled option" where
  "sessionMiddleware srv cl rq next_h s =
     (case rq_Cookie rq of
        None \<Rightarrow> Some (writeUnauthorized s)
      | Some token \<Rightarrow>
      case Get (srv_sessions srv) (cl_faults cl) (cl_now cl) token (store s) of
        Inl e \<Rightarrow> Some (writeUnauthorized s)
      | Inr None \<Rightarrow> Some (writeUnauthorized s)
      | Inr (Some data) \<Rightarrow> next_h data s)"

definition own_origin :: "http_request \<Rightarrow> string" where
  "own_origin rq = (if rq_TLS rq then ''https'' else ''http'') @ ''://'' @ rq_Host rq"

definition csrfMiddleware :: "http_request \<Rightarrow> (('s, 'c) dash \<Rightarrow> ('s, 'c) handled) \<Rightarrow> ('s, 'c) dash \<Rightarrow> ('s, 'c) handled" where
  "csrfMiddleware rq next_h s =
     (if rq_Method rq \<in> {''POST'', ''PATCH'', ''PUT'', ''DELETE''} \<and> rq_Origin rq \<noteq> [] \<and> rq_Origin rq \<noteq> own_origin rq
      then fail 403 ''invalid origin'' s else next_h s)"

definition Recoverer :: "(('s, 'c) dash \<Rightarrow> ('s, 'c) handled option) \<Rightarrow> ('s, 'c) dash \<Rightarrow> ('s, 'c) handled" where
  "Recoverer next_h s = (case next_h s of Some r \<Rightarrow> r | None \<Rightarrow> (reply 500 NoBody, None, s))"

definition router :: "('s, 'c) Server \<Rightarrow> http_request \<Rightarrow> nat + (routes_key \<times> params)" where
  "router srv rq = srv_router srv (map fst (public_routes @ session_routes)) (rq_Method rq) (rq_Path rq)"

definition setupRoutes :: "('s, 'c) Server \<Rightarrow> call \<Rightarrow> http_request \<Rightarrow> ('s, 'c) dash \<Rightarrow> ('s, 'c) handled option" where
  "setupRoutes srv cl rq s =
     (case router srv rq of
        Inl code \<Rightarrow> Some (reply code NoBody, None, s)
      | Inr (key, up) \<Rightarrow>
      case map_of public_routes key of
        Some e \<Rightarrow> endpoint_handler srv cl rq up None e s
      | None \<Rightarrow>
      case map_of session_routes key of
        Some e \<Rightarrow> sessionMiddleware srv cl rq (\<lambda>data. endpoint_handler srv cl rq up (Some data) e) s
      | None \<Rightarrow> Some (reply 404 NoBody, None, s))"

definition ServeHTTP :: "('s, 'c) Server \<Rightarrow> call \<Rightarrow> http_request \<Rightarrow> ('s, 'c) dash \<Rightarrow> ('s, 'c) handled" where
  "ServeHTTP srv cl rq s = csrfMiddleware rq (Recoverer (setupRoutes srv cl rq)) s"

subsection \<open>Accounts, teams and share links leave the ingest side alone\<close>

definition same_ingest :: "database \<Rightarrow> tables \<Rightarrow> bool" where
  "same_ingest d T \<longleftrightarrow> ingest T = d"

lemma insert_user_ingest: "insert_user e n h T = Some (i, T') \<Longrightarrow> ingest T' = ingest T"
  by (auto simp: insert_user_def split: if_splits)

lemma insert_org_ingest: "insert_org now n T = Some (i, T') \<Longrightarrow> ingest T' = ingest T"
  by (auto simp: insert_org_def split: if_splits)

lemma insert_member_ingest: "insert_member now g u r b T = Some T' \<Longrightarrow> ingest T' = ingest T"
  by (auto simp: insert_member_def split: if_splits)

lemma insert_or_find_user_ingest: "insert_or_find_user e n h T = Some (i, T') \<Longrightarrow> ingest T' = ingest T"
  by (auto simp: insert_or_find_user_def insert_user_ingest split: if_splits option.splits)

lemma insert_member_if_new_ingest: "insert_member_if_new now g u r b T = Some T' \<Longrightarrow> ingest T' = ingest T"
  by (auto simp: insert_member_if_new_def insert_member_ingest split: if_splits)

lemmas ingest_simps = update_user_def set_role_def delete_member_def mark_accepted_def count_view_def
lemmas ingest_dests = insert_user_ingest insert_org_ingest insert_member_ingest insert_or_find_user_ingest insert_member_if_new_ingest

lemma accounts_same_ingest:
  "same_ingest d (tabs s) \<Longrightarrow> keeps (same_ingest d) (HandleRegister api bc ft now salt rnd st b1 s)"
  "same_ingest d (tabs s) \<Longrightarrow> keeps (same_ingest d) (HandlePatchMe bc ft salt sess b2 s)"
  "same_ingest d (tabs s) \<Longrightarrow> keeps (same_ingest d) (HandleCreateOrg api ft now rnd st sess c b3 s)"
  unfolding HandleRegister_def HandlePatchMe_def HandleCreateOrg_def
  by (intro keeps_intro; auto simp: same_ingest_def ingest_simps dest!: ingest_dests split: option.splits if_splits)+

lemma team_same_ingest:
  "same_ingest d (tabs s) \<Longrightarrow> keeps (same_ingest d) (HandleChangeRole ft sess p b1 s)"
  "same_ingest d (tabs s) \<Longrightarrow> keeps (same_ingest d) (HandleRemoveMember ft sess p s)"
  "same_ingest d (tabs s) \<Longrightarrow> keeps (same_ingest d) (HandleCreateInvitation pa ft now rnd sess b2 s)"
  "same_ingest d (tabs s) \<Longrightarrow> keeps (same_ingest d) (HandleRevokeInvitation ft sess token s)"
  "same_ingest d (tabs s) \<Longrightarrow> keeps (same_ingest d) (HandleAcceptInvitation api bc ft now salt rnd st token b3 s)"
  unfolding HandleChangeRole_def HandleRemoveMember_def HandleCreateInvitation_def HandleRevokeInvitation_def HandleAcceptInvitation_def
  by (intro keeps_intro; simp add: same_ingest_def ingest_simps ingest_dests)+

lemma share_same_ingest:
  "same_ingest d (tabs s) \<Longrightarrow> keeps (same_ingest d) (HandleCreateShareToken ft now rnd sess p s)"
  "same_ingest d (tabs s) \<Longrightarrow> keeps (same_ingest d) (HandleRevokeShareToken ft sess token s)"
  unfolding HandleCreateShareToken_def HandleRevokeShareToken_def
  by (intro keeps_intro; simp add: same_ingest_def)+

lemma HandleGetShareToken_same_ingest:
  "same_ingest d (tabs s) \<Longrightarrow> HandleGetShareToken grow ft sess u token s = Some r \<Longrightarrow> keeps (same_ingest d) r"
  by (auto simp: HandleGetShareToken_def keeps_def fail_def done_ok_def same_ingest_def count_view_def split: option.splits if_splits sum.splits bool.splits)


lemma keeps_dash_ok:
  assumes "dash_ok (tabs s)" and "tables_ok (tabs s) \<Longrightarrow> keeps tables_ok r"
    and "same_ingest (ingest (tabs s)) (tabs s) \<Longrightarrow> keeps (same_ingest (ingest (tabs s))) r"
  shows "keeps dash_ok r"
  using assms by (simp add: dash_ok_def keeps_def keys_ok_def same_ingest_def)

lemmas reads_keep = HandleLogin_keeps HandleLogout_keeps HandleMe_keeps HandleListMembers_keeps HandleListInvitations_keeps
  HandleListApps_keeps HandleListConferences_keeps HandleGetUserCalls_keeps HandleGetConnectionEvents_keeps
  HandleGetConnectionStats_keeps HandleGetAnalyticsOverview_keeps HandleGetAnalyticsBreakdown_keeps HandleListShareTokens_keeps

lemmas apps_ok = HandleCreateApp_ok HandleDeleteApp_ok HandleRotateKey_ok HandleGenerateServerKey_ok HandleRotateServerKey_ok HandleDeleteServerKey_ok

lemma HandleHealth_keeps: "I (tabs s) \<Longrightarrow> keeps I (HandleHealth ft s)"
  unfolding HandleHealth_def by (intro keeps_intro)

lemma accounts_dash_ok:
  assumes "dash_ok (tabs s)"
  shows "keeps dash_ok (HandleRegister api bc ft now salt rnd st b1 s)"
    and "keeps dash_ok (HandlePatchMe bc ft salt sess b2 s)"
    and "keeps dash_ok (HandleCreateOrg api ft now rnd st sess c b3 s)"
  by (rule keeps_dash_ok [OF assms]; simp add: HandleRegister_ok HandlePatchMe_ok HandleCreateOrg_ok accounts_same_ingest)+

lemma team_dash_ok:
  assumes "dash_ok (tabs s)"
  shows "keeps dash_ok (HandleChangeRole ft sess p b1 s)"
    and "keeps dash_ok (HandleRemoveMember ft sess p s)"
    and "keeps dash_ok (HandleCreateInvitation pa ft now rnd sess b2 s)"
    and "keeps dash_ok (HandleRevokeInvitation ft sess token s)"
    and "keeps dash_ok (HandleAcceptInvitation api bc ft now salt rnd st token b3 s)"
  by (rule keeps_dash_ok [OF assms]; simp add: HandleChangeRole_ok HandleRemoveMember_ok HandleCreateInvitation_ok
      HandleRevokeInvitation_ok HandleAcceptInvitation_ok team_same_ingest)+

lemma share_dash_ok:
  assumes "dash_ok (tabs s)"
  shows "keeps dash_ok (HandleCreateShareToken ft now rnd sess p s)"
    and "keeps dash_ok (HandleRevokeShareToken ft sess token s)"
    and "HandleGetShareToken grow ft sess u token s = Some r \<Longrightarrow> keeps dash_ok r"
  by (rule keeps_dash_ok [OF assms]; simp add: HandleCreateShareToken_ok HandleRevokeShareToken_ok HandleGetShareToken_ok
      share_same_ingest HandleGetShareToken_same_ingest)+

lemmas writes_ok = accounts_dash_ok team_dash_ok share_dash_ok apps_ok

lemma endpoint_dash_ok:
  assumes "dash_ok (tabs s)" and "endpoint_handler srv cl rq up sess e s = Some r"
  shows "keeps dash_ok r"
proof (cases e)
  case E_GetConference
  then show ?thesis using assms HandleGetConference_keeps [of dash_ok s] by (simp add: endpoint_handler_def Let_def)
next
  case E_GetServerKey
  then show ?thesis using assms HandleGetServerKey_keeps [of dash_ok s] by (simp add: endpoint_handler_def Let_def)
next
  case E_GetShareToken
  then show ?thesis using assms share_dash_ok(3) [of s] by (simp add: endpoint_handler_def Let_def)
qed (use assms in \<open>auto simp: endpoint_handler_def Let_def intro: reads_keep writes_ok HandleHealth_keeps keeps_reply\<close>)

text \<open>A panic is impossible in a sound state.\<close>

lemma assemble_total:
  assumes "db_ok d"
  obtains x where "assemble grow d c = Some x"
proof -
  have "distinct (map sess_id (sessions d))" using assms by (simp add: db_ok_def table_ok_def)
  then show ?thesis using that assemble_tree by blast
qed

lemma HandleGetConference_total:
  assumes "db_ok (ingest (tabs s))"
  shows "HandleGetConference grow ft sess p s \<noteq> None"
proof
  assume "HandleGetConference grow ft sess p s = None"
  then obtain c where "assemble grow (ingest (tabs s)) c = None" by (auto simp: HandleGetConference_def split: option.splits if_splits)
  then show False using assemble_total [OF assms, of grow c] by simp
qed

lemma HandleGetShareToken_total:
  assumes "db_ok (ingest (tabs s))"
  shows "HandleGetShareToken grow ft sess u token s \<noteq> None"
proof
  assume "HandleGetShareToken grow ft sess u token s = None"
  then obtain i g where "fetchConferenceDetail grow ft (ingest (tabs s)) i g = None"
    by (auto simp: HandleGetShareToken_def split: option.splits if_splits sum.splits bool.splits)
  then obtain c where "assemble grow (ingest (tabs s)) c = None" by (auto simp: fetchConferenceDetail_def split: option.splits if_splits)
  then show False using assemble_total [OF assms, of grow c] by simp
qed

lemma endpoint_total:
  assumes "dash_ok (tabs s)"
  shows "endpoint_handler srv cl rq up sess e s \<noteq> None"
proof -
  have "db_ok (ingest (tabs s))" using assms by (simp add: dash_ok_def)
  note total = HandleGetServerKey_total [OF assms] HandleGetConference_total [OF this] HandleGetShareToken_total [OF this]
  show ?thesis by (cases e) (simp_all add: endpoint_handler_def Let_def total del: not_None_eq)
qed

definition session_of :: "('s, 'c) Server \<Rightarrow> call \<Rightarrow> http_request \<Rightarrow> ('s, 'c) dash \<Rightarrow> Data option" where
  "session_of srv cl rq s =
     (case rq_Cookie rq of
        None \<Rightarrow> None
      | Some token \<Rightarrow> (case Get (srv_sessions srv) (cl_faults cl) (cl_now cl) token (store s) of Inl e \<Rightarrow> None | Inr x \<Rightarrow> x))"

lemma sessionMiddleware_session_of:
  "sessionMiddleware srv cl rq next_h s = (case session_of srv cl rq s of None \<Rightarrow> Some (writeUnauthorized s) | Some data \<Rightarrow> next_h data s)"
  by (simp add: sessionMiddleware_def session_of_def split: option.splits sum.splits)

lemma setupRoutes_cases:
  obtains (chi) c where "setupRoutes srv cl rq s = Some (reply c NoBody, None, s)"
  | (public) key up e where "router srv rq = Inr (key, up)" "map_of public_routes key = Some e"
      "setupRoutes srv cl rq s = endpoint_handler srv cl rq up None e s"
  | (refused) key up e where "router srv rq = Inr (key, up)" "map_of session_routes key = Some e" "session_of srv cl rq s = None"
      "setupRoutes srv cl rq s = Some (writeUnauthorized s)"
  | (session) key up e data where "router srv rq = Inr (key, up)" "map_of session_routes key = Some e" "session_of srv cl rq s = Some data"
      "setupRoutes srv cl rq s = endpoint_handler srv cl rq up (Some data) e s"
proof (cases "router srv rq")
  case (Inl c)
  then show ?thesis by (intro chi [of c]) (simp add: setupRoutes_def)
next
  case (Inr kp)
  obtain key up where kp: "kp = (key, up)" by (cases kp)
  note r = Inr [unfolded kp]
  show ?thesis
  proof (cases "map_of public_routes key")
    case (Some e)
    then show ?thesis by (intro public [OF r Some]) (simp add: setupRoutes_def r)
  next
    case None
    note p = None
    show ?thesis
    proof (cases "map_of session_routes key")
      case None
      then show ?thesis by (intro chi [of 404]) (simp add: setupRoutes_def r p)
    next
      case (Some e)
      then show ?thesis
        using refused [OF r Some] session [OF r Some]
        by (cases "session_of srv cl rq s") (simp_all add: setupRoutes_def r p sessionMiddleware_session_of)
    qed
  qed
qed

lemma setupRoutes_ok:
  assumes "dash_ok (tabs s)"
  shows "\<exists>r. setupRoutes srv cl rq s = Some r \<and> keeps dash_ok r"
proof -
  have e: "\<exists>r. endpoint_handler srv cl rq up sess e s = Some r \<and> keeps dash_ok r" for up sess e
    using endpoint_total [OF assms, of srv cl rq up sess e] endpoint_dash_ok [OF assms, of srv cl rq up sess e] by auto
  show ?thesis
    by (cases srv cl rq s rule: setupRoutes_cases) (use e assms in \<open>simp_all add: writeUnauthorized_def keeps_fail keeps_reply\<close>)
qed

lemma ServeHTTP_dash_ok:
  assumes "dash_ok (tabs s)"
  shows "keeps dash_ok (ServeHTTP srv cl rq s)"
  using setupRoutes_ok [OF assms, of srv cl rq] assms by (auto simp: ServeHTTP_def csrfMiddleware_def Recoverer_def keeps_fail)

subsection \<open>Tenants\<close>

text \<open>What belongs to an organization: its members, invitations, share links, applications and their
  conferences.\<close>

definition org_view :: "int \<Rightarrow> tables \<Rightarrow> member_row list \<times> invitation_row list \<times> share_row list \<times> app_row list \<times> conference_row list" where
  "org_view g T = (filter (\<lambda>m. mem_org_id m = g) (members T), filter (\<lambda>i. inv_org_id i = g) (invitations T),
     filter (\<lambda>t. st_org_id t = g) (share_tokens T), filter (\<lambda>a. app_org_id a = g) (apps (ingest T)),
     filter (\<lambda>c. app_org (ingest T) (conf_app_id c) g) (conferences (ingest T)))"

definition same_view :: "int \<Rightarrow> tables \<Rightarrow> tables \<Rightarrow> bool" where
  "same_view g T T' \<longleftrightarrow> org_view g T' = org_view g T"

lemma same_view_refl: "same_view g T T"
  by (simp add: same_view_def)

lemma filter_map_other:
  assumes "\<And>x. P x \<Longrightarrow> f x = x" and "\<And>x. P (f x) \<longleftrightarrow> P x"
  shows "filter P (map f xs) = filter P xs"
  using assms by (induction xs) auto

lemma view_update_user: "same_view g T (update_user u f T)"
  by (simp add: same_view_def org_view_def update_user_def)

lemma view_set_role: "h \<noteq> g \<Longrightarrow> same_view g T (set_role h u r T)"
  by (auto simp: same_view_def org_view_def set_role_def intro!: filter_map_other)

lemma view_delete_member: "h \<noteq> g \<Longrightarrow> same_view g T (delete_member h u T)"
  by (auto simp: same_view_def org_view_def delete_member_def intro!: filter_cong)

lemma view_new_invitation: "inv_org_id i \<noteq> g \<Longrightarrow> same_view g T (T\<lparr>invitations := invitations T @ [i]\<rparr>)"
  by (simp add: same_view_def org_view_def)

lemma view_filter_invitations:
  "h \<noteq> g \<Longrightarrow> same_view g T (T\<lparr>invitations := filter (\<lambda>i. inv_token i = token \<longrightarrow> inv_org_id i \<noteq> h) (invitations T)\<rparr>)"
  by (auto simp: same_view_def org_view_def intro!: filter_cong)

lemma view_new_share: "st_org_id t \<noteq> g \<Longrightarrow> same_view g T (T\<lparr>share_tokens := share_tokens T @ [t]\<rparr>)"
  by (simp add: same_view_def org_view_def)

lemma view_filter_shares:
  "h \<noteq> g \<Longrightarrow> same_view g T (T\<lparr>share_tokens := filter (\<lambda>t. st_token t = token \<longrightarrow> st_org_id t \<noteq> h) (share_tokens T)\<rparr>)"
  by (auto simp: same_view_def org_view_def intro!: filter_cong)

lemma view_new_org:
  assumes "tables_ok T" and "g \<in> org_id ` set (organizations T)" and "insert_org now n T = Some (h, T1)" and "insert_member now h u r b T1 = Some T2"
  shows "same_view g T T2"
proof -
  have "g < next_org T" using assms(1,2) by (auto simp: tables_ok_def accounts_ok_def table_ok_def)
  then have "h \<noteq> g" using assms(3) by (auto simp: insert_org_def split: if_splits)
  then show ?thesis using assms(3,4) by (auto simp: same_view_def org_view_def insert_org_def insert_member_def split: if_splits)
qed

text \<open>An application row of another organization does not matter.\<close>

lemma view_new_app:
  assumes "insert_app now h n hash days T = Some (a, T')" and "h \<noteq> g"
  shows "same_view g T T'"
proof -
  have a: "app_org_id a = h" and T': "members T' = members T" "invitations T' = invitations T" "share_tokens T' = share_tokens T"
    "apps (ingest T') = apps (ingest T) @ [a]" "conferences (ingest T') = conferences (ingest T)"
    using assms(1) by (auto simp: insert_app_def Let_def split: if_splits)
  have "app_org (ingest T') i g \<longleftrightarrow> app_org (ingest T) i g" for i using a T' assms(2) by (auto simp: app_org_def)
  then show ?thesis using a T' assms(2) by (simp add: same_view_def org_view_def)
qed

lemma view_update_app:
  assumes "h \<noteq> g" and "\<And>a. app_id (f a) = app_id a" and "\<And>a. app_org_id (f a) = app_org_id a"
  shows "same_view g T (update_app i h f T)"
proof -
  have T': "members (update_app i h f T) = members T" "invitations (update_app i h f T) = invitations T" "share_tokens (update_app i h f T) = share_tokens T"
    "conferences (ingest (update_app i h f T)) = conferences (ingest T)"
    "apps (ingest (update_app i h f T)) = map (\<lambda>a. if app_id a = i \<and> app_org_id a = h then f a else a) (apps (ingest T))"
    by (simp_all add: update_app_def)
  have apps: "filter (\<lambda>a. app_org_id a = g) (apps (ingest (update_app i h f T))) = filter (\<lambda>a. app_org_id a = g) (apps (ingest T))"
    unfolding T' using assms by (intro filter_map_other) auto
  have ids: "app_org (ingest U) j g \<longleftrightarrow> j \<in> app_id ` set (filter (\<lambda>a. app_org_id a = g) (apps (ingest U)))" for U j by (auto simp: app_org_def)
  have "app_org (ingest (update_app i h f T)) j g \<longleftrightarrow> app_org (ingest T) j g" for j unfolding ids apps by (rule refl)
  then show ?thesis using apps T'(1-4) by (simp add: same_view_def org_view_def)
qed

lemma view_delete_app:
  assumes "dash_ok T" and "delete_app i T = Some T'" and "find_app T i h = Some a" and "h \<noteq> g"
  shows "same_view g T T'"
proof -
  have a: "a \<in> set (apps (ingest T))" "app_id a = i" "app_org_id a = h" using find_appD [OF assms(3)] by auto
  have other: "app_id b \<noteq> i" if "b \<in> set (apps (ingest T))" "app_org_id b = g" for b
  proof
    assume "app_id b = i"
    then have "a = b" by (intro app_unique [OF assms(1) a(1) that(1)]) (simp add: a(2))
    then show False using a(3) that(2) assms(4) by simp
  qed
  have conf: "conf_app_id c \<noteq> i" if "app_org (ingest T) (conf_app_id c) g" for c
    using that other unfolding app_org_def by blast
  have T': "members T' = members T" "invitations T' = invitations T" "apps (ingest T') = filter (\<lambda>b. app_id b \<noteq> i) (apps (ingest T))"
    "conferences (ingest T') = filter (\<lambda>c. conf_app_id c \<noteq> i) (conferences (ingest T))"
    "share_tokens T' = filter (\<lambda>t. st_conference_id t \<notin> app_confs (ingest T) i) (share_tokens T)"
    using assms(2) by (auto simp: delete_app_def Let_def split: if_splits)
  have "app_org (ingest T') j g \<longleftrightarrow> app_org (ingest T) j g" for j using T'(3) other by (auto simp: app_org_def)
  moreover have "st_conference_id t \<notin> app_confs (ingest T) i" if t: "t \<in> set (share_tokens T)" "st_org_id t = g" for t
  proof
    assume "st_conference_id t \<in> app_confs (ingest T) i"
    then obtain c where c: "c \<in> set (conferences (ingest T))" "conf_id c = st_conference_id t" "conf_app_id c = i" by (auto simp: app_confs_def)
    have ok: "sharing_ok T" using assms(1) by (simp add: dash_ok_def tables_ok_def)
    then obtain c' where c': "c' \<in> set (conferences (ingest T))" "conf_id c' = st_conference_id t" "app_org (ingest T) (conf_app_id c') g"
      using t by (auto simp: sharing_ok_def conf_org_def)
    have inj: "inj_on conf_id (set (conferences (ingest T)))" using ok by (simp add: sharing_ok_def distinct_map)
    have "c = c'" by (rule inj_onD [OF inj]) (simp_all add: c c')
    then show False using conf [OF c'(3)] c(3) by simp
  qed
  ultimately show ?thesis unfolding same_view_def org_view_def T' filter_filter prod.inject
    using other conf by (intro conjI filter_cong refl) blast+
qed

lemma parse_params_own:
  "parseOrgParams (Some d) p = Inr h \<Longrightarrow> h = SessOrgID d"
  "parseAppParams (Some d) p q = Inr (h, i) \<Longrightarrow> h = SessOrgID d"
  "extractKeyParams (Some d) p q = Inr (h, i) \<Longrightarrow> h = SessOrgID d"
  by (auto simp: parseOrgParams_def parseAppParams_def extractKeyParams_def split: option.splits if_splits sum.splits)

lemma view_generateAndStore: "generateAndStore c ft now kb sb nonce mk i h T = Some (k, x, t, T') \<Longrightarrow> h \<noteq> g \<Longrightarrow> same_view g T T'"
  by (auto simp: generateAndStore_def intro!: view_update_app split: sum.splits prod.splits if_splits)

lemma accounts_view:
  assumes "dash_ok (tabs s)" and "g \<in> org_id ` set (organizations (tabs s))"
  shows "keeps (same_view g (tabs s)) (HandlePatchMe bc ft salt (Some d) b1 s)"
    and "keeps (same_view g (tabs s)) (HandleCreateOrg api ft now rnd st (Some d) c b2 s)"
proof -
  have twice: "same_view g T (update_user u f (update_user u' f' T))" for T u f u' f'
    by (simp add: same_view_def org_view_def update_user_def)
  show "keeps (same_view g (tabs s)) (HandlePatchMe bc ft salt (Some d) b1 s)"
    unfolding HandlePatchMe_def
    by (intro keeps_intro) (auto simp: same_view_refl view_update_user twice split: option.splits if_splits)
  show "keeps (same_view g (tabs s)) (HandleCreateOrg api ft now rnd st (Some d) c b2 s)"
    unfolding HandleCreateOrg_def using assms view_new_org [of "tabs s" g]
    by (intro keeps_intro) (auto simp: same_view_refl dash_ok_def)
qed

lemma team_view:
  assumes "g \<noteq> SessOrgID d"
  shows "keeps (same_view g (tabs s)) (HandleChangeRole ft (Some d) p b1 s)"
    and "keeps (same_view g (tabs s)) (HandleRemoveMember ft (Some d) p s)"
    and "keeps (same_view g (tabs s)) (HandleCreateInvitation pa ft now rnd (Some d) b2 s)"
    and "keeps (same_view g (tabs s)) (HandleRevokeInvitation ft (Some d) token s)"
  unfolding HandleChangeRole_def HandleRemoveMember_def HandleCreateInvitation_def HandleRevokeInvitation_def
  using assms assms [symmetric]
  by (intro keeps_intro; simp add: same_view_refl view_set_role view_delete_member view_new_invitation view_filter_invitations)+

lemma share_view:
  assumes "g \<noteq> SessOrgID d"
  shows "keeps (same_view g (tabs s)) (HandleCreateShareToken ft now rnd (Some d) p s)"
    and "keeps (same_view g (tabs s)) (HandleRevokeShareToken ft (Some d) token s)"
  unfolding HandleCreateShareToken_def HandleRevokeShareToken_def using assms assms [symmetric]
  by (intro keeps_intro; simp add: same_view_refl view_new_share view_filter_shares)+

lemma apps_view:
  assumes "dash_ok (tabs s)" and "g \<noteq> SessOrgID d"
  shows "keeps (same_view g (tabs s)) (HandleCreateApp bc ft now salt rnd (Some d) p b s)"
    and "keeps (same_view g (tabs s)) (HandleDeleteApp ft (Some d) p q s)"
    and "keeps (same_view g (tabs s)) (HandleRotateKey bc ft salt rnd (Some d) p q s)"
    and "keeps (same_view g (tabs s)) (HandleGenerateServerKey c ft now kb sb nonce mk (Some d) p q s)"
    and "keeps (same_view g (tabs s)) (HandleRotateServerKey c ft now kb sb nonce mk (Some d) p q s)"
    and "keeps (same_view g (tabs s)) (HandleDeleteServerKey ft (Some d) p q s)"
  unfolding HandleCreateApp_def HandleDeleteApp_def HandleRotateKey_def HandleGenerateServerKey_def HandleRotateServerKey_def HandleDeleteServerKey_def
  using assms
  by (intro keeps_intro; auto simp: same_view_refl dest!: parse_params_own intro: view_new_app view_delete_app view_update_app view_generateAndStore)+

lemma session_routes_endpoints:
  "map_of session_routes key = Some e \<Longrightarrow> e \<notin> {E_Health, E_Static, E_Register, E_Login, E_Logout, E_AcceptInvitation, E_GetShareToken}"
  by (drule map_of_SomeD) (auto simp: session_routes_def)

lemma session_routes_not_public:
  assumes "map_of session_routes key = Some e"
  shows "map_of public_routes key = None"
proof -
  have "list_all (\<lambda>k. map_of public_routes k = None) (map fst session_routes)" by code_simp
  then show ?thesis using map_of_SomeD [OF assms] by (force simp: list_all_iff)
qed

lemma endpoint_view:
  assumes "dash_ok (tabs s)" and "g \<in> org_id ` set (organizations (tabs s))" and "g \<noteq> SessOrgID d"
    and "map_of session_routes key = Some e" and "endpoint_handler srv cl rq up (Some d) e s = Some r"
  shows "keeps (same_view g (tabs s)) r"
proof -
  note rd = reads_keep [of "same_view g (tabs s)", OF same_view_refl]
  show ?thesis
  proof (cases e)
    case E_GetConference
    then show ?thesis using assms(5) HandleGetConference_keeps [of "same_view g (tabs s)", OF same_view_refl] by (simp add: endpoint_handler_def Let_def)
  next
    case E_GetServerKey
    then show ?thesis using assms(5) HandleGetServerKey_keeps [of "same_view g (tabs s)", OF same_view_refl] by (simp add: endpoint_handler_def Let_def)
  qed (use session_routes_endpoints [OF assms(4)] assms(5) in \<open>auto simp: endpoint_handler_def Let_def
        intro: rd accounts_view [OF assms(1,2)] team_view [OF assms(3)] share_view [OF assms(3)] apps_view [OF assms(1,3)]\<close>)
qed

text \<open>(C9) Tenants are isolated.  A request on a session route, whatever it asks for, leaves the members,
  invitations, share links, applications and conferences of every organization other than the
  session's exactly as they are.\<close>
theorem tenant_isolation:
  assumes "dash_ok (tabs s)" and "router srv rq = Inr (key, up)" and "map_of session_routes key = Some e"
    and "session_of srv cl rq s = Some d" and "g \<in> org_id ` set (organizations (tabs s))" and "g \<noteq> SessOrgID d"
    and "ServeHTTP srv cl rq s = (r, ck, s')"
  shows "org_view g (tabs s') = org_view g (tabs s)"
proof -
  note p = session_routes_not_public [OF assms(3)]
  obtain r1 where r1: "endpoint_handler srv cl rq up (Some d) e s = Some r1" using endpoint_total [OF assms(1)] by blast
  have "setupRoutes srv cl rq s = Some r1"
    using assms(2-4) p r1 by (simp add: setupRoutes_def sessionMiddleware_session_of)
  moreover have "keeps (same_view g (tabs s)) r1" by (rule endpoint_view [OF assms(1,5,6,3) r1])
  ultimately have "keeps (same_view g (tabs s)) (ServeHTTP srv cl rq s)"
    by (simp add: ServeHTTP_def csrfMiddleware_def Recoverer_def keeps_fail same_view_refl)
  then show ?thesis by (simp add: assms(7) keeps_def same_view_def)
qed


text \<open>(C29) The share view.  It is mounted outside the group that looks up the session, and it asks the
  request context for one: whatever cookie is sent, the answer is the redirect to the log-in page (or
  400 without a token), no view is ever counted, and no conference is ever shown.\<close>
theorem share_view_always_redirects:
  assumes "router srv rq = Inr ((''GET'', ''/share/{token}''), up)" and "rq_Method rq = ''GET''"
  shows "ServeHTTP srv cl rq s =
    (if up ''token'' = [] then (err_reply 400 ''token required'', None, s)
     else (reply 307 NoBody, Some (Location (''/login?next='' @ QueryEscape (rq_RequestURI rq))), s))"
proof -
  have p: "map_of public_routes (''GET'', ''/share/{token}'') = Some E_GetShareToken" by (simp add: public_routes_def)
  show ?thesis using assms
    by (simp add: ServeHTTP_def csrfMiddleware_def Recoverer_def setupRoutes_def p endpoint_handler_def Let_def HandleGetShareToken_def fail_def)
qed

subsection \<open>A server to try the theorems on\<close>

text \<open>A router that compares segments, and a server with the reference implementations of the other
  parameters.\<close>

fun match_segments :: "string list \<Rightarrow> string list \<Rightarrow> params \<Rightarrow> params option" where
  "match_segments [] [] up = Some up"
| "match_segments (p # ps) (x # xs) up =
     (if p \<noteq> [] \<and> hd p = CHR ''{'' then match_segments ps xs (up(butlast (tl p) := x))
      else if p = x then match_segments ps xs up else None)"
| "match_segments _ _ up = None"

definition demo_router :: "routes_key list \<Rightarrow> string \<Rightarrow> string \<Rightarrow> nat + (routes_key \<times> params)" where
  "demo_router keys m path =
     (let hit = (\<lambda>k. if fst k = m then match_segments (Split (CHR ''/'') (snd k)) (Split (CHR ''/'') path) no_params else None) in
      case List.find (\<lambda>k. case hit k of None \<Rightarrow> False | Some up \<Rightarrow> True) keys of
        None \<Rightarrow> Inl 404
      | Some k \<Rightarrow> (case hit k of None \<Rightarrow> Inl 404 | Some up \<Rightarrow> Inr (k, up)))"

definition demo_server :: "(Data kv_store, jval kv_store) Server" where
  "demo_server = \<lparr>srv_sessions = map_server, srv_redis = map_server, srv_store = NewStore 0, serverMasterKey = demo_key,
     srv_bcrypt = plain_bcrypt, srv_crypto = demo_crypto, srv_router = demo_router, srv_grow = Suc, srv_text_min = concat,
     srv_parse_address = (\<lambda>_. True), srv_static = (\<lambda>_. reply 200 NoBody)\<rparr>"

definition demo_call :: call where
  "demo_call = \<lparr>cl_now = 50, cl_faults = (\<lambda>_. False), cl_rnd = ''r'', cl_rnd2 = ''s'', cl_nonce = ''n'', cl_salt = []\<rparr>"

definition demo_request :: "string \<Rightarrow> string \<Rightarrow> string option \<Rightarrow> http_request" where
  "demo_request m path token = \<lparr>rq_Method = m, rq_Path = path, rq_RequestURI = path, rq_Host = ''h'', rq_TLS = False, rq_Origin = [],
     rq_Cookie = token, rq_Query = no_params, as_register = None, as_login = None, as_patch = None, as_org = None, as_app = None,
     as_role = None, as_invitation = None, as_accept = None\<rparr>"

definition two_org_dash :: "(Data kv_store, jval kv_store) dash" where
  "two_org_dash = \<lparr>tabs = two_admin_tables\<lparr>organizations := organizations two_admin_tables @ [\<lparr>org_id = 2, org_name = ''P'', org_created_at = 0\<rparr>],
       next_org := 3, members := members two_admin_tables @ [\<lparr>mem_org_id = 2, mem_user_id = 2, mem_role = ''admin'', mem_invited_by = None, mem_joined_at = 0\<rparr>]\<rparr>,
     store = [session_key ''k'' \<mapsto> (demo_admin, 1000)], cache = (\<lambda>_. None)\<rparr>"

lemma two_org_ok: "dash_ok (tabs two_org_dash)"
  by (simp add: two_org_dash_def two_admin_tables_def dash_ok_def tables_ok_def tables_ok_defs keys_ok_def db_ok_def table_ok_def has_admin_def roles_def
      empty_tables_def empty_db_def)

lemma demo_routed:
  assumes "case router demo_server rq of Inl x \<Rightarrow> False | Inr (k, up) \<Rightarrow> k = key \<and> up p = v"
  obtains up where "router demo_server rq = Inr (key, up)" "up p = v"
  using assms by (auto split: sum.splits)

theorem tenant_isolation_witness:
  "org_view 2 (tabs (snd (snd (ServeHTTP demo_server demo_call (demo_request ''DELETE'' ''/v1/team/invitations/t'' (Some ''k'')) two_org_dash))))
   = org_view 2 (tabs two_org_dash)"
proof -
  let ?rq = "demo_request ''DELETE'' ''/v1/team/invitations/t'' (Some ''k'')"
  have "case router demo_server ?rq of Inl x \<Rightarrow> False | Inr (k, up) \<Rightarrow> k = (''DELETE'', ''/v1/team/invitations/{token}'') \<and> up ''token'' = ''t''"
    by code_simp
  then obtain up where r: "router demo_server ?rq = Inr ((''DELETE'', ''/v1/team/invitations/{token}''), up)" by (rule demo_routed)
  have m: "map_of session_routes (''DELETE'', ''/v1/team/invitations/{token}'') = Some E_RevokeInvitation" by code_simp
  have d: "session_of demo_server demo_call ?rq two_org_dash = Some demo_admin"
    by (simp add: session_of_def Get_def demo_server_def demo_call_def demo_request_def two_org_dash_def map_server_def kv_get_def)
  have g: "2 \<in> org_id ` set (organizations (tabs two_org_dash))" "2 \<noteq> SessOrgID demo_admin"
    by (simp_all add: two_org_dash_def demo_admin_def)
  obtain a b c where s: "ServeHTTP demo_server demo_call ?rq two_org_dash = (a, b, c)" by (cases "ServeHTTP demo_server demo_call ?rq two_org_dash")
  show ?thesis using tenant_isolation [OF two_org_ok r m d g s] s by simp
qed


theorem share_view_always_redirects_witness:
  "ServeHTTP demo_server demo_call (demo_request ''GET'' ''/share/abc'' (Some ''k'')) two_org_dash
   = (reply 307 NoBody, Some (Location ''/login?next=%2Fshare%2Fabc''), two_org_dash)"
proof -
  let ?rq = "demo_request ''GET'' ''/share/abc'' (Some ''k'')"
  have "case router demo_server ?rq of Inl x \<Rightarrow> False | Inr (k, up) \<Rightarrow> k = (''GET'', ''/share/{token}'') \<and> up ''token'' = ''abc''" by code_simp
  then obtain up where r: "router demo_server ?rq = Inr ((''GET'', ''/share/{token}''), up)" "up ''token'' = ''abc''" by (rule demo_routed)
  have q: "QueryEscape ''/share/abc'' = ''%2Fshare%2Fabc''" by code_simp
  show ?thesis using share_view_always_redirects [OF r(1), of demo_call two_org_dash] r(2) q by (simp add: demo_request_def)
qed

end
