(* ===== verification/System.thy ===== *)
theory System
  imports Query_API Flush Ingest_API Stale Retention Observations
begin

text \<open>
  The two services and the background jobs on one database.

  A state holds what the query API works on, the flusher of the worker pool and the channel of eMOS
  jobs.  A step is one transaction of one writer: a request to the query API, the flush of a batch,
  the end of a conference, an eMOS job, a pass of the stale job or of the retention job; all run
  with arbitrary faults, so a step may also stop half-way where the code does.  The theorems are the
  invariant of the whole and the invalidation of the query cache by the ingest API.
\<close>

subsection \<open>States and steps\<close>

record ('s, 'c) system =
  board :: "('s, 'c) dash"
  flusher :: Flusher
  jobs :: "int list"

definition sdb :: "('s, 'c) system \<Rightarrow> database" where
  "sdb w = ingest (tabs (board w))"

definition put_db :: "database \<Rightarrow> ('s, 'c) system \<Rightarrow> ('s, 'c) system" where
  "put_db d w = w\<lparr>board := (board w)\<lparr>tabs := (tabs (board w))\<lparr>ingest := d\<rparr>\<rparr>\<rparr>"

text \<open>The keys the ingest API deletes from the cache: those \<open>SCAN\<close> found and the handler does
  not keep.\<close>

definition drop_keys :: "('c, jval) kv_api \<Rightarrow> instant \<Rightarrow> string list \<Rightarrow> string list \<Rightarrow> 'c \<Rightarrow> 'c" where
  "drop_keys api now found kept c = fold (\<lambda>k c. DEL api c now k) (filter (\<lambda>k. k \<notin> set kept) found) c"

inductive step :: "('s, 'c) Query_API.Server \<Rightarrow> ('s, 'c) system \<Rightarrow> ('s, 'c) system \<Rightarrow> bool" for srv where
  request: "Query_API.ServeHTTP srv cl rq (board w) = (r, ck, s') \<Longrightarrow> step srv w (w\<lparr>board := s'\<rparr>)"
| flush_batch: "Flush ft now batch (flusher w) (sdb w) = (f', d') \<Longrightarrow> step srv w (put_db d' (w\<lparr>flusher := f'\<rparr>))"
| end_conference: "HandleEndConference ft now claims sclaims ext \<lparr>edb = sdb w, emosCh = jobs w, analytics_keys = found\<rparr> = (rep, e)
    \<Longrightarrow> step srv w (put_db (edb e) (w\<lparr>jobs := emosCh e,
          board := (board w)\<lparr>cache := drop_keys (srv_redis srv) now found (analytics_keys e) (cache (board w))\<rparr>\<rparr>))"
| emos_job: "jobs w = c # cs \<Longrightarrow> RunJob ft sc now k c (sdb w) = (err, d') \<Longrightarrow> step srv w (put_db d' (w\<lparr>jobs := cs\<rparr>))"
| stale_pass: "Stale.RunOnce ft clk idle \<lparr>edb = sdb w, emosCh = jobs w, analytics_keys = []\<rparr> = (err', e)
    \<Longrightarrow> step srv w (put_db (edb e) (w\<lparr>jobs := emosCh e\<rparr>))"
| retention_pass: "Retention.RunOnce ft clk (sdb w) = (err', d') \<Longrightarrow> step srv w (put_db d' w)"

inductive reachable :: "('s, 'c) Query_API.Server \<Rightarrow> ('s, 'c) system \<Rightarrow> bool" for srv where
  init: "tabs (board w) = empty_tables\<lparr>ingest := empty_db\<lparr>partitions := ps\<rparr>\<rparr> \<Longrightarrow> jobs w = [] \<Longrightarrow> reachable srv w"
| steps: "reachable srv w \<Longrightarrow> step srv w w' \<Longrightarrow> reachable srv w'"

lemma put_db_simps [simp]:
  "tabs (board (put_db d w)) = (tabs (board w))\<lparr>ingest := d\<rparr>" "jobs (put_db d w) = jobs w" "flusher (put_db d w) = flusher w"
  "store (board (put_db d w)) = store (board w)" "cache (board (put_db d w)) = cache (board w)"
  by (simp_all add: put_db_def)

subsection \<open>What the ingest side does to the tables\<close>

definition entities_kept :: "database \<Rightarrow> database \<Rightarrow> bool" where
  "entities_kept d d' \<longleftrightarrow> (db_ok d \<longrightarrow> db_ok d') \<and> apps d' = apps d
     \<and> (\<forall>c \<in> set (conferences d). \<exists>c' \<in> set (conferences d'). conf_id c' = conf_id c \<and> conf_app_id c' = conf_app_id c)"

lemma entities_kept_refl [simp]: "entities_kept d d"
  by (auto simp: entities_kept_def)

lemma entities_kept_trans: "entities_kept d d' \<Longrightarrow> entities_kept d' d'' \<Longrightarrow> entities_kept d d''"
  unfolding entities_kept_def by (metis (no_types, lifting))

lemma entities_kept_dash_ok:
  assumes "dash_ok T" and "entities_kept (ingest T) d'"
  shows "dash_ok (T\<lparr>ingest := d'\<rparr>)"
proof -
  have d': "db_ok d'" "apps d' = apps (ingest T)" using assms by (auto simp: entities_kept_def dash_ok_def)
  have "conf_org d' c g" if "conf_org (ingest T) c g" for c g
    using that assms(2) d'(2) unfolding conf_org_def entities_kept_def app_org_def by metis
  moreover have "distinct (map conf_id (conferences d'))" using d'(1) by (simp add: db_ok_def table_ok_def)
  ultimately show ?thesis
    using assms(1) d' by (simp add: dash_ok_def tables_ok_def tables_ok_defs keys_ok_def has_admin_def)
qed

lemma Flush_kept: "db_ok d \<Longrightarrow> entities_kept d (snd (Flush ft now batch f d))"
  using flush_SomeD [of ft now batch f d] flush_NoneD [of d ft now batch f]
  by (cases "flush ft now batch f d"; cases "fst (flush ft now batch f d)") (auto simp: Flush_def entities_kept_def covers_def)

lemma end_update_kept: "entities_kept d (d\<lparr>conferences := end_update now i (conferences d)\<rparr>)"
proof -
  let ?f = "\<lambda>c. if conf_id c = i \<and> conf_ended_at c = None then c\<lparr>conf_ended_at := Some (pg_time now)\<rparr> else c"
  have m: "map (\<lambda>c. (conf_app_id c, conf_external_id c)) (map ?f cs) = map (\<lambda>c. (conf_app_id c, conf_external_id c)) cs"
    "map conf_id (map ?f cs) = map conf_id cs" "map conf_app_id (map ?f cs) = map conf_app_id cs" for cs by simp_all
  have s: "conf_id ` set (map ?f cs) = conf_id ` set cs" "conf_app_id ` set (map ?f cs) = conf_app_id ` set cs" for cs
    using arg_cong [OF m(2), of set cs] arg_cong [OF m(3), of set cs] by (simp_all only: set_map)
  have t: "table_ok (\<lambda>c. (conf_app_id c, conf_external_id c)) conf_id n (map ?f cs) \<longleftrightarrow> table_ok (\<lambda>c. (conf_app_id c, conf_external_id c)) conf_id n cs" for n cs
  proof -
    have b: "(\<forall>r \<in> set xs. conf_id r < n) \<longleftrightarrow> (\<forall>j \<in> conf_id ` set xs. j < n)" for xs by simp
    show ?thesis unfolding table_ok_def m b s by (rule refl)
  qed
  have "db_ok (d\<lparr>conferences := map ?f (conferences d)\<rparr>) \<longleftrightarrow> db_ok d" by (simp add: db_ok_def t s del: set_map map_map)
  moreover have "\<exists>c' \<in> set (map ?f (conferences d)). conf_id c' = conf_id c \<and> conf_app_id c' = conf_app_id c" if "c \<in> set (conferences d)" for c
    using that by (intro bexI [of _ "?f c"]) (auto simp del: map_map)
  ultimately show ?thesis unfolding entities_kept_def end_update_def by (simp del: set_map)
qed

lemma HandleEndConference_kept: "entities_kept (edb s) (edb (snd (HandleEndConference ft now claims sclaims ext s)))"
  by (simp add: HandleEndConference_def end_update_kept split: option.splits)

lemma close_loop_kept: "entities_kept (edb s) (edb (snd (close_loop ft clk i ids s)))"
proof (induction ft clk i ids s rule: close_loop.induct)
  case (2 ft clk i c ids s)
  show ?case
  proof (cases "ft (''stale job: update ended_at: '' @ FormatInt c)")
    case False
    then show ?thesis using 2 [OF False refl refl refl] end_update_kept [of "edb s" "clk (Suc i)" c]
      by (auto simp: Let_def intro: entities_kept_trans split: if_splits)
  qed simp
qed simp

lemma same_data_kept: "same_data d d' \<Longrightarrow> entities_kept d d'"
  by (auto simp: same_data_def entities_kept_def db_ok_def)

lemma write_quality_kept: "entities_kept d (snd (write_quality ft now k qs d))"
proof (induction ft now k qs d rule: write_quality.induct)
  case (2 ft now k sid loss rtt qs d)
  have q: "entities_kept d (d\<lparr>session_quality := x\<rparr>)" for x by (auto simp: entities_kept_def db_ok_def)
  obtain emos out where e: "ComputeEMOS loss rtt k = (emos, out)" by (cases "ComputeEMOS loss rtt k")
  show ?case using 2 [OF e [symmetric] refl] q by (auto simp: e intro: entities_kept_trans)
qed simp

lemma RunJob_kept: "entities_kept d (snd (RunJob ft sc now k c d))"
proof -
  have r: "entities_kept d1 d2" if "runObservations ft sc c d1 = (e, d2)" for d1 d2 e
    using runObservations_keeps [of d1 ft sc c] that by (intro same_data_kept) simp
  obtain e d1 where w: "write_quality ft now k (quality_rows d c) d = (e, d1)" by (cases "write_quality ft now k (quality_rows d c) d")
  obtain e2 d2 where o: "runObservations ft sc c d1 = (e2, d2)" by (cases "runObservations ft sc c d1")
  have "entities_kept d d1" using write_quality_kept [of d ft now k "quality_rows d c"] w by simp
  moreover from this have "entities_kept d d2" using r [OF o] by (rule entities_kept_trans)
  ultimately show ?thesis by (simp add: RunJob_def w o split: option.splits job_error.splits)
qed

lemma fewer_stats_kept: "entities_kept d (d\<lparr>partitions := ps, detached := ds, connection_stats := filter P (connection_stats d)\<rparr>)"
proof -
  have fewer: "cs_connection_id ` set (filter P (connection_stats d)) \<subseteq> C" if "cs_connection_id ` set (connection_stats d) \<subseteq> C" for C
    using that by auto
  show ?thesis by (simp add: entities_kept_def db_ok_def fewer del: set_filter) blast
qed

lemma detach_partition_kept: "detach_partition ft name d = Some d' \<Longrightarrow> entities_kept d d'"
  using fewer_stats_kept [of d] by (auto simp: detach_partition_def split: if_splits option.splits)

lemma drop_table_kept: "entities_kept d (drop_table name d)"
  by (simp add: drop_table_def entities_kept_def db_ok_def) blast

lemma drop_loop_kept: "entities_kept d (snd (drop_loop ft m names n d))"
proof (induction names arbitrary: n d)
  case (Cons name names)
  show ?case
  proof (cases "detach_partition ft name d")
    case None
    then show ?thesis using Cons.IH by (simp split: option.splits)
  next
    case (Some d1)
    note k = detach_partition_kept [OF Some]
    have "entities_kept d (snd (drop_loop ft m names (Suc n) (drop_table name d1)))"
      by (rule entities_kept_trans [OF entities_kept_trans [OF k drop_table_kept] Cons.IH])
    then show ?thesis using Some k Cons.IH by (simp split: option.splits)
  qed
qed simp

lemma delete_batch_kept: "entities_kept d (snd (delete_batch app cutoff d))"
  by (simp add: delete_batch_def Let_def entities_kept_def db_ok_def) blast

lemma delete_loop_kept: "entities_kept d (snd (delete_loop ft app cutoff n b d))"
proof (induction ft app cutoff n b d rule: delete_loop.induct)
  case (1 ft app cutoff n b d)
  obtain k d' where k: "delete_batch app cutoff d = (k, d')" by (cases "delete_batch app cutoff d")
  have e: "entities_kept d d'" using delete_batch_kept [of d app cutoff] k by simp
  let ?stop = "ft (''retention: delete events for app '' @ FormatInt app @ '': '' @ dec_nat b)"
  have "entities_kept d (snd (delete_loop ft app cutoff (n + k) (b + 1) d'))" if "\<not> ?stop" "k \<noteq> 0"
    using 1 [OF that(1) k [symmetric] that(2)] by (rule entities_kept_trans [OF e])
  then show ?case using e k by (simp add: delete_loop.simps [of ft app cutoff n b d])
qed

lemma delete_apps_kept: "entities_kept d (snd (delete_apps ft clk i as d))"
proof (induction ft clk i as d rule: delete_apps.induct)
  case (2 ft clk i a as d)
  have "entities_kept d (snd (deleteOldEvents ft (app_id a) (AddDays (clk i) (- retention_days a)) d))"
    unfolding deleteOldEvents_def by (rule delete_loop_kept)
  then show ?case using 2 by (auto split: prod.splits sum.splits intro: entities_kept_trans)
qed simp

lemma retention_kept: "entities_kept d (snd (Retention.RunOnce ft clk d))"
proof -
  let ?as = "filter (\<lambda>a. retention_days a > 0) (apps d)"
  obtain r d1 where d1: "dropOldPartitions ft (clk 0) (minRetention ?as) d = (r, d1)" by (cases "dropOldPartitions ft (clk 0) (minRetention ?as) d")
  have "entities_kept d (snd (dropOldPartitions ft (clk 0) (minRetention ?as) d))"
    by (simp add: dropOldPartitions_def Let_def drop_loop_kept)
  then have "entities_kept d d1" by (simp add: d1)
  then have "entities_kept d d1" "entities_kept d (snd (delete_apps ft clk 1 ?as d1))"
    using entities_kept_trans delete_apps_kept by blast+
  then show ?thesis by (simp add: Retention.RunOnce_def Let_def d1 split: sum.splits)
qed

subsection \<open>Properties\<close>

lemma close_loop_jobs: "length (emosCh s) \<le> 256 \<Longrightarrow> length (emosCh (snd (close_loop ft clk i ids s))) \<le> 256"
  by (induction ft clk i ids s rule: close_loop.induct) (simp_all add: Let_def emosTrigger_def)

lemma step_sound:
  assumes "step srv w w'" and "dash_ok (tabs (board w))" and "length (jobs w) \<le> 256"
  shows "dash_ok (tabs (board w')) \<and> length (jobs w') \<le> 256"
  using assms
proof cases
  case (request cl rq r ck s')
  then show ?thesis using assms ServeHTTP_dash_ok [OF assms(2), of srv cl rq] by (simp add: keeps_def)
next
  case (flush_batch ft now batch f' d')
  have "db_ok (sdb w)" using assms(2) by (simp add: dash_ok_def sdb_def)
  then show ?thesis using flush_batch assms Flush_kept [of "sdb w" ft now batch "flusher w"]
    by (simp add: entities_kept_dash_ok sdb_def)
next
  case (end_conference ft now claims sclaims ext found rep e)
  have "entities_kept (sdb w) (edb e)"
    using HandleEndConference_kept [of "\<lparr>edb = sdb w, emosCh = jobs w, analytics_keys = found\<rparr>" ft now claims sclaims ext] end_conference(2) by simp
  moreover have "length (emosCh e) \<le> 256"
    using end_conference(2) assms(3) by (auto simp: HandleEndConference_def emosTrigger_def split: option.splits if_splits)
  ultimately show ?thesis using end_conference(1) assms(2) by (simp add: entities_kept_dash_ok sdb_def)
next
  case (emos_job c cs ft sc now k err d')
  then show ?thesis using assms RunJob_kept [of "sdb w" ft sc now k c] by (simp add: entities_kept_dash_ok sdb_def)
next
  case (stale_pass ft clk idle err' e)
  have "entities_kept (sdb w) (edb e) \<and> length (emosCh e) \<le> 256"
    using stale_pass(2) assms(3) close_loop_kept [of "\<lparr>edb = sdb w, emosCh = jobs w, analytics_keys = []\<rparr>" ft clk 0]
      close_loop_jobs [of "\<lparr>edb = sdb w, emosCh = jobs w, analytics_keys = []\<rparr>" ft clk 0]
    by (auto simp: Stale.RunOnce_def split: if_splits) (metis snd_conv)+
  then show ?thesis using stale_pass(1) assms(2) by (simp add: entities_kept_dash_ok sdb_def)
next
  case (retention_pass ft clk err' d')
  then show ?thesis using assms retention_kept [of "sdb w" ft clk] by (simp add: entities_kept_dash_ok sdb_def)
qed


definition start_system :: "(Data kv_store, jval kv_store) system" where
  "start_system = \<lparr>board = \<lparr>tabs = empty_tables\<lparr>ingest := empty_db\<lparr>partitions := []\<rparr>\<rparr>, store = (\<lambda>_. None), cache = (\<lambda>_. None)\<rparr>,
     flusher = New_Flusher None Map.empty, jobs = []\<rparr>"

definition register_request :: Query_API.http_request where
  "register_request = (demo_request ''POST'' ''/auth/register'' None)\<lparr>as_register := Some \<lparr>Reg_Email = ''a@x'', Reg_Password = ''secret'', Reg_Name = ''A''\<rparr>\<rparr>"


text \<open>Deleting keys.\<close>

lemma drop_keys_get:
  assumes kv: "kv_server api" and "now \<le> later"
  shows "GET api (drop_keys api now found kept c) later k = (if k \<in> set found - set kept then None else GET api c later k)"
proof -
  have "GET api (fold (\<lambda>k c. DEL api c now k) ks c) later k = (if k \<in> set ks then None else GET api c later k)" for ks
  proof (induction ks arbitrary: c)
    case (Cons x ks)
    then show ?case using kv_server.del_same [OF kv assms(2)] kv_server.del_other [OF kv assms(2)] by auto
  qed simp
  then show ?thesis by (simp add: drop_keys_def)
qed


definition demo_end :: "unit resp \<times> end_state" where
  "demo_end = HandleEndConference (\<lambda>_. False) 5 None (Some \<lparr>SAppID = 7, SOrgID = 1, APIKey = ''k''\<rparr>) (conf_external_id demo_conference)
     \<lparr>edb = demo_detail_db, emosCh = [], analytics_keys = [overview_key 7 0 1]\<rparr>"


end
