(* ===== verification/Jobs.thy ===== *)
theory Jobs
  imports Stale Retention
begin

text \<open>
  The life cycle of the two background jobs: \<open>New\<close>, \<open>Start\<close> and \<open>Shutdown\<close>
  of \<^verbatim>\<open>internal/stale/job.go\<close> and \<^verbatim>\<open>internal/retention/job.go\<close>.

  The channels \<open>done\<close> and \<open>stopped\<close> carry nothing and are only closed, so each is a
  flag; the goroutine is a step relation (a tick or timer starts a pass, the pass ends, the closed
  \<open>done\<close> channel ends the loop).  When both a tick and \<open>done\<close> are ready the
  \<open>select\<close> takes either.  What a caller may rely on is the locale \<open>stoppable\<close>; both
  jobs are instances.
\<close>

subsection \<open>Stopping a goroutine\<close>

locale stoppable =
  fixes step :: "'j \<Rightarrow> 'j \<Rightarrow> bool" and stop :: "'j \<Rightarrow> 'j" and returned :: "'j \<Rightarrow> bool" and busy :: "'j \<Rightarrow> bool" and sound :: "'j \<Rightarrow> bool"
  assumes step_sound: "sound j \<Longrightarrow> step j j' \<Longrightarrow> sound j'"
    and stop_sound: "sound j \<Longrightarrow> sound (stop j)"
    and stop_again: "stop (stop j) = stop j"
    and returned_dead: "sound j \<Longrightarrow> returned j \<Longrightarrow> \<not> busy j \<and> \<not> step j j'"
    and stop_returns: "sound j \<Longrightarrow> \<exists>j'. step\<^sup>*\<^sup>* (stop j) j' \<and> returned j'"
    and step_keeps_stop: "stop j = j \<Longrightarrow> step j j' \<Longrightarrow> stop j' = j'"
begin

lemma steps_sound: "step\<^sup>*\<^sup>* j j' \<Longrightarrow> sound j \<Longrightarrow> sound j'"
  by (induction rule: rtranclp_induct) (auto intro: step_sound)

lemma returned_final: "sound j \<Longrightarrow> returned j \<Longrightarrow> step\<^sup>*\<^sup>* j j' \<Longrightarrow> j' = j"
  by (erule converse_rtranclpE) (auto dest: returned_dead)

text \<open>A job that was told to stop can always come to rest, whatever it did meanwhile.\<close>

lemma stops_anyway:
  assumes "sound j" and "step\<^sup>*\<^sup>* (stop j) j1"
  shows "\<exists>j2. step\<^sup>*\<^sup>* j1 j2 \<and> returned j2 \<and> \<not> busy j2"
proof -
  have "stop j1 = j1 \<and> sound j1"
    using assms(2)
  proof (induction rule: rtranclp_induct)
    case base
    then show ?case using assms(1) by (simp add: stop_again stop_sound)
  next
    case (step y z)
    then show ?case using step_keeps_stop step_sound by blast
  qed
  then obtain j2 where "step\<^sup>*\<^sup>* j1 j2" "returned j2" using stop_returns [of j1] by auto
  then show ?thesis using returned_dead steps_sound \<open>stop j1 = j1 \<and> sound j1\<close> by blast
qed

end

subsection \<open>The stale-conference job\<close>

record stale_Job =
  sj_checkInterval :: int
  sj_idleThreshold :: int
  sj_started :: bool
  sj_done :: bool
  sj_stopped :: bool
  sj_running :: bool

definition stale_New :: "int \<Rightarrow> int \<Rightarrow> stale_Job" where
  "stale_New checkInterval idleThreshold = \<lparr>sj_checkInterval = checkInterval, sj_idleThreshold = idleThreshold,
     sj_started = False, sj_done = False, sj_stopped = False, sj_running = False\<rparr>"

definition stale_Start :: "stale_Job \<Rightarrow> stale_Job option" where
  "stale_Start j = (if sj_checkInterval j \<le> 0 then None else Some (j\<lparr>sj_started := True\<rparr>))"

definition stale_Shutdown :: "stale_Job \<Rightarrow> stale_Job" where
  "stale_Shutdown j = (if sj_done j then j else j\<lparr>sj_done := True\<rparr>)"

definition stale_Shutdown_returned :: "stale_Job \<Rightarrow> bool" where
  "stale_Shutdown_returned j \<longleftrightarrow> sj_done j \<and> (sj_started j \<longrightarrow> sj_stopped j)"

inductive stale_step :: "stale_Job \<Rightarrow> stale_Job \<Rightarrow> bool" where
  tick: "sj_started j \<Longrightarrow> \<not> sj_stopped j \<Longrightarrow> \<not> sj_running j \<Longrightarrow> stale_step j (j\<lparr>sj_running := True\<rparr>)"
| pass_over: "sj_running j \<Longrightarrow> stale_step j (j\<lparr>sj_running := False\<rparr>)"
| quit: "sj_started j \<Longrightarrow> \<not> sj_stopped j \<Longrightarrow> \<not> sj_running j \<Longrightarrow> sj_done j \<Longrightarrow> stale_step j (j\<lparr>sj_stopped := True\<rparr>)"

lemma stale_Shutdown_id: "stale_Shutdown j = j \<longleftrightarrow> sj_done j"
  by (cases j) (simp add: stale_Shutdown_def)

definition stale_sound :: "stale_Job \<Rightarrow> bool" where
  "stale_sound j \<longleftrightarrow> (sj_running j \<longrightarrow> sj_started j \<and> \<not> sj_stopped j)"

lemma stale_stops: "stale_sound j \<Longrightarrow> \<exists>j'. stale_step\<^sup>*\<^sup>* (stale_Shutdown j) j' \<and> stale_Shutdown_returned j'"
proof -
  assume s: "stale_sound j"
  define k where "k = stale_Shutdown j"
  have k: "sj_done k" "stale_sound k" using s by (auto simp: k_def stale_Shutdown_def stale_sound_def)
  define l where "l = k\<lparr>sj_running := False\<rparr>"
  have 1: "stale_step\<^sup>*\<^sup>* k l"
  proof (cases "sj_running k")
    case True
    then show ?thesis using stale_step.pass_over [of k] by (simp add: l_def r_into_rtranclp)
  next
    case False
    then have "l = k" by (simp add: l_def)
    then show ?thesis by simp
  qed
  show ?thesis
  proof (cases "sj_started l \<and> \<not> sj_stopped l")
    case True
    then have "stale_step l (l\<lparr>sj_stopped := True\<rparr>)" using k by (intro stale_step.quit) (auto simp: l_def)
    then show ?thesis using 1 k by (intro exI [of _ "l\<lparr>sj_stopped := True\<rparr>"]) (auto simp: k_def [symmetric] stale_Shutdown_returned_def l_def intro: rtranclp.rtrancl_into_rtrancl)
  next
    case False
    then show ?thesis using 1 k by (intro exI [of _ l]) (auto simp: k_def [symmetric] stale_Shutdown_returned_def l_def)
  qed
qed

interpretation stale_job: stoppable stale_step stale_Shutdown stale_Shutdown_returned sj_running stale_sound
proof
  fix j j'
  show "stale_sound j \<Longrightarrow> stale_step j j' \<Longrightarrow> stale_sound j'" by (auto simp: stale_sound_def elim: stale_step.cases)
  show "stale_sound j \<Longrightarrow> stale_sound (stale_Shutdown j)" by (simp add: stale_sound_def stale_Shutdown_def)
  show "stale_Shutdown (stale_Shutdown j) = stale_Shutdown j" by (simp add: stale_Shutdown_def)
  show "stale_sound j \<Longrightarrow> stale_Shutdown_returned j \<Longrightarrow> \<not> sj_running j \<and> \<not> stale_step j j'"
    by (auto simp: stale_sound_def stale_Shutdown_returned_def elim: stale_step.cases)
  show "stale_Shutdown j = j \<Longrightarrow> stale_step j j' \<Longrightarrow> stale_Shutdown j' = j'"
    unfolding stale_Shutdown_id by (auto elim: stale_step.cases)
qed (rule stale_stops)

subsection \<open>The retention job\<close>

text \<open>\<open>rj_timer\<close> is the moment the armed timer fires; \<open>Start\<close> with an invalid
  expression closes \<open>stopped\<close> at once and starts nothing.\<close>

record retention_Job =
  rj_cronStr :: string
  rj_schedule :: "(int \<times> int) option"
  rj_timer :: "instant option"
  rj_cancelled :: bool
  rj_done :: bool
  rj_stopped :: bool
  rj_running :: bool

definition retention_New :: "string \<Rightarrow> retention_Job" where
  "retention_New cronStr = \<lparr>rj_cronStr = cronStr, rj_schedule = None, rj_timer = None, rj_cancelled = False, rj_done = False,
     rj_stopped = False, rj_running = False\<rparr>"

definition retention_Start :: "retention_Job \<Rightarrow> retention_Job" where
  "retention_Start j =
     (case parseDailyCron (rj_cronStr j) of
        None \<Rightarrow> j\<lparr>rj_stopped := True\<rparr>
      | Some hm \<Rightarrow> j\<lparr>rj_schedule := Some hm\<rparr>)"

definition retention_Shutdown :: "retention_Job \<Rightarrow> retention_Job" where
  "retention_Shutdown j = (if rj_done j then j else j\<lparr>rj_cancelled := True, rj_done := True\<rparr>)"

definition retention_Shutdown_returned :: "retention_Job \<Rightarrow> bool" where
  "retention_Shutdown_returned j \<longleftrightarrow> rj_done j \<and> rj_stopped j"

inductive retention_step :: "retention_Job \<Rightarrow> retention_Job \<Rightarrow> bool" where
  arm: "rj_schedule j = Some (hour, minute) \<Longrightarrow> \<not> rj_stopped j \<Longrightarrow> \<not> rj_running j \<Longrightarrow> rj_timer j = None
    \<Longrightarrow> retention_step j (j\<lparr>rj_timer := Some (nextRunTime hour minute now)\<rparr>)"
| fire: "rj_timer j = Some t \<Longrightarrow> \<not> rj_stopped j \<Longrightarrow> \<not> rj_running j \<Longrightarrow> retention_step j (j\<lparr>rj_timer := None, rj_running := True\<rparr>)"
| pass_over: "rj_running j \<Longrightarrow> retention_step j (j\<lparr>rj_running := False\<rparr>)"
| quit: "rj_timer j = Some t \<Longrightarrow> \<not> rj_stopped j \<Longrightarrow> \<not> rj_running j \<Longrightarrow> rj_done j
    \<Longrightarrow> retention_step j (j\<lparr>rj_timer := None, rj_stopped := True\<rparr>)"

text \<open>\<open>Start\<close> was called, and the goroutine is at one place at a time.\<close>

definition retention_sound :: "retention_Job \<Rightarrow> bool" where
  "retention_sound j \<longleftrightarrow> (rj_schedule j \<noteq> None \<or> rj_stopped j) \<and> (rj_running j \<longrightarrow> rj_timer j = None \<and> \<not> rj_stopped j)
     \<and> (rj_stopped j \<longrightarrow> rj_timer j = None)"

lemma retention_Start_sound: "retention_sound (retention_Start (retention_New cron))"
  by (auto simp: retention_sound_def retention_Start_def retention_New_def split: option.splits)

text \<open>The goroutine of a job that was told to stop: finish the pass, arm the timer, quit.\<close>

lemma retention_stops:
  assumes "retention_sound j"
  shows "\<exists>j'. retention_step\<^sup>*\<^sup>* (retention_Shutdown j) j' \<and> retention_Shutdown_returned j'"
proof -
  define k where "k = retention_Shutdown j"
  have k: "rj_done k" "retention_sound k" using assms by (auto simp: k_def retention_Shutdown_def retention_sound_def)
  show ?thesis
  proof (cases "rj_stopped k")
    case True
    then show ?thesis using k by (intro exI [of _ k]) (simp add: k_def [symmetric] retention_Shutdown_returned_def)
  next
    case False
    then obtain hour minute where sched: "rj_schedule k = Some (hour, minute)" using k(2) by (auto simp: retention_sound_def)
    define l where "l = k\<lparr>rj_running := False\<rparr>"
    have 1: "retention_step\<^sup>*\<^sup>* k l"
    proof (cases "rj_running k")
      case True
      then show ?thesis using retention_step.pass_over [of k] by (simp add: l_def r_into_rtranclp)
    next
      case False
      then have "l = k" by (simp add: l_def)
      then show ?thesis by simp
    qed
    have "\<exists>m t. retention_step\<^sup>*\<^sup>* l m \<and> rj_timer m = Some t \<and> \<not> rj_stopped m \<and> \<not> rj_running m \<and> rj_done m"
    proof (cases "rj_timer l")
      case None
      have "retention_step l (l\<lparr>rj_timer := Some (nextRunTime hour minute 0)\<rparr>)"
        using None sched False by (intro retention_step.arm) (auto simp: l_def)
      then show ?thesis using False k(1)
        by (intro exI [of _ "l\<lparr>rj_timer := Some (nextRunTime hour minute 0)\<rparr>"]) (auto simp: l_def intro: r_into_rtranclp)
    next
      case (Some t)
      then show ?thesis using False k(1) by (intro exI [of _ l]) (auto simp: l_def)
    qed
    then obtain m t where m: "retention_step\<^sup>*\<^sup>* l m" "rj_timer m = Some t" "\<not> rj_stopped m" "\<not> rj_running m" "rj_done m" by blast
    have "retention_step m (m\<lparr>rj_timer := None, rj_stopped := True\<rparr>)" by (rule retention_step.quit [OF m(2-5)])
    then have "retention_step\<^sup>*\<^sup>* k (m\<lparr>rj_timer := None, rj_stopped := True\<rparr>)"
      using 1 m(1) by (meson rtranclp.rtrancl_into_rtrancl rtranclp_trans)
    then show ?thesis using m(5) by (auto simp: k_def retention_Shutdown_returned_def)
  qed
qed

lemma retention_Shutdown_done: "retention_Shutdown j = j \<Longrightarrow> rj_done j"
proof (rule ccontr)
  assume "retention_Shutdown j = j" "\<not> rj_done j"
  then have "rj_done (j\<lparr>rj_cancelled := True, rj_done := True\<rparr>) = rj_done j" by (simp add: retention_Shutdown_def)
  with \<open>\<not> rj_done j\<close> show False by simp
qed

interpretation retention_job: stoppable retention_step retention_Shutdown retention_Shutdown_returned rj_running retention_sound
proof
  fix j j'
  show "retention_sound j \<Longrightarrow> retention_step j j' \<Longrightarrow> retention_sound j'" by (auto simp: retention_sound_def elim!: retention_step.cases)
  show "retention_sound j \<Longrightarrow> retention_sound (retention_Shutdown j)" by (simp add: retention_sound_def retention_Shutdown_def)
  show "retention_Shutdown (retention_Shutdown j) = retention_Shutdown j" by (simp add: retention_Shutdown_def)
  show "retention_sound j \<Longrightarrow> retention_Shutdown_returned j \<Longrightarrow> \<not> rj_running j \<and> \<not> retention_step j j'"
    by (auto simp: retention_sound_def retention_Shutdown_returned_def elim: retention_step.cases)
  show "retention_Shutdown j' = j'" if "retention_Shutdown j = j" "retention_step j j'"
  proof -
    have "rj_done j'" using retention_Shutdown_done [OF that(1)] that(2) by (auto elim: retention_step.cases)
    then show ?thesis by (simp add: retention_Shutdown_def)
  qed
qed (rule retention_stops)

text \<open>Unlike that of the stale job, this \<open>Shutdown\<close> does not ask whether \<open>Start\<close> was
  called: without it the call never returns.\<close>

lemma retention_Shutdown_needs_Start:
  assumes "retention_step\<^sup>*\<^sup>* (retention_Shutdown (retention_New cron)) j"
  shows "\<not> retention_Shutdown_returned j"
proof -
  have "rj_schedule j = None \<and> rj_timer j = None \<and> \<not> rj_running j \<and> \<not> rj_stopped j"
    using assms
    by (induction rule: rtranclp_induct) (auto simp: retention_New_def retention_Shutdown_def elim: retention_step.cases)
  then show ?thesis by (simp add: retention_Shutdown_returned_def)
qed

end
