(* ===== verification/Serve.thy ===== *)
theory Serve
  imports Jobs Worker
begin

text \<open>
  The ingest process from start to exit, \<^verbatim>\<open>services/ingest-api/serve.go\<close>
  (\<open>serveWithShutdown\<close>) and the goroutines \<^verbatim>\<open>main.go\<close> starts beside it.

  The main goroutine is at a \<open>phase\<close>; next to it run the request handlers (each about to
  enqueue a payload or to trigger an eMOS job), the workers of the pool, the two background jobs and
  the eMOS goroutine.  One step is one action of one of them.  A send on the closed eMOS channel
  panics: in a handler the router's recovery catches it (\<open>panics\<close>), in the stale job it would
  end the process (\<open>crashed\<close>).  \<open>forced\<close> records that the HTTP server gave up waiting
  for handlers.  That the process ends with the main goroutine is the absence of steps after
  \<open>Returned\<close>.  The metrics server carries no state.
\<close>

subsection \<open>States and steps\<close>

datatype phase = Serving | DrainHTTP | DrainPool | StopStale | StopRetention | StopMetrics | Returned "string option"

datatype 'p work = Post 'p | End int

record 'p process =
  phase :: phase
  pool :: "'p Pool"
  inflight :: "'p work list"
  stale :: stale_Job
  retention :: retention_Job
  emos_ch :: "int list"
  emos_closed :: bool
  emos_busy :: "int option"
  emos_done :: "int list"
  panics :: "int list"
  forced :: bool
  crashed :: bool

definition alive :: "'p process \<Rightarrow> bool" where
  "alive p \<longleftrightarrow> (\<forall>r. phase p \<noteq> Returned r) \<and> \<not> crashed p"

definition send_emos :: "int \<Rightarrow> 'p process \<Rightarrow> 'p process option" where
  "send_emos c p = (if emos_closed p then None else Some (p\<lparr>emos_ch := emosTrigger c (emos_ch p)\<rparr>))"

inductive serve_step :: "Worker.Config \<Rightarrow> 'p process \<Rightarrow> 'p process \<Rightarrow> bool" for cfg where
  arrive: "alive p \<Longrightarrow> phase p = Serving \<Longrightarrow> serve_step cfg p (p\<lparr>inflight := inflight p @ [w]\<rparr>)"
| post: "alive p \<Longrightarrow> inflight p = ws @ Post x # ws' \<Longrightarrow> serve_step cfg p (p\<lparr>inflight := ws @ ws', pool := snd (Enqueue cfg x (pool p))\<rparr>)"
| post_handoff: "alive p \<Longrightarrow> inflight p = ws @ Post x # ws' \<Longrightarrow> ChannelCap cfg = 0 \<Longrightarrow> \<not> Pool.closed (pool p) \<Longrightarrow> i < length (workers (pool p))
    \<Longrightarrow> workers (pool p) ! i = Running b
    \<Longrightarrow> serve_step cfg p (p\<lparr>inflight := ws @ ws', pool := run_item cfg i b x ((pool p)\<lparr>accepted := accepted (pool p) @ [x]\<rparr>)\<rparr>)"
| trigger: "alive p \<Longrightarrow> inflight p = ws @ End c # ws' \<Longrightarrow> send_emos c p = Some q \<Longrightarrow> serve_step cfg p (q\<lparr>inflight := ws @ ws'\<rparr>)"
| trigger_panic: "alive p \<Longrightarrow> inflight p = ws @ End c # ws' \<Longrightarrow> send_emos c p = None
    \<Longrightarrow> serve_step cfg p (p\<lparr>inflight := ws @ ws', panics := panics p @ [c]\<rparr>)"
| worker: "alive p \<Longrightarrow> pool_step cfg (pool p) q \<Longrightarrow> accepted q = accepted (pool p) \<Longrightarrow> Pool.closed q = Pool.closed (pool p) \<Longrightarrow> serve_step cfg p (p\<lparr>pool := q\<rparr>)"
| stale_goroutine: "alive p \<Longrightarrow> stale_step (stale p) j \<Longrightarrow> serve_step cfg p (p\<lparr>stale := j\<rparr>)"
| stale_trigger: "alive p \<Longrightarrow> sj_running (stale p) \<Longrightarrow> send_emos c p = Some q \<Longrightarrow> serve_step cfg p q"
| stale_crash: "alive p \<Longrightarrow> sj_running (stale p) \<Longrightarrow> send_emos c p = None \<Longrightarrow> serve_step cfg p (p\<lparr>crashed := True\<rparr>)"
| retention_goroutine: "alive p \<Longrightarrow> retention_step (retention p) j' \<Longrightarrow> serve_step cfg p (p\<lparr>retention := j'\<rparr>)"
| emos_take: "alive p \<Longrightarrow> emos_busy p = None \<Longrightarrow> emos_ch p = c # cs \<Longrightarrow> serve_step cfg p (p\<lparr>emos_ch := cs, emos_busy := Some c\<rparr>)"
| emos_over: "alive p \<Longrightarrow> emos_busy p = Some c \<Longrightarrow> serve_step cfg p (p\<lparr>emos_busy := None, emos_done := emos_done p @ [c]\<rparr>)"
| signal: "alive p \<Longrightarrow> phase p = Serving \<Longrightarrow> serve_step cfg p (p\<lparr>phase := DrainHTTP\<rparr>)"
| server_error: "alive p \<Longrightarrow> phase p = Serving \<Longrightarrow> serve_step cfg p (p\<lparr>phase := Returned (Some (''http server: '' @ err))\<rparr>)"
| http_closed: "alive p \<Longrightarrow> phase p = DrainHTTP \<Longrightarrow> inflight p = [] \<Longrightarrow> serve_step cfg p (p\<lparr>phase := DrainPool, pool := Shutdown (pool p)\<rparr>)"
| http_timeout: "alive p \<Longrightarrow> phase p = DrainHTTP \<Longrightarrow> serve_step cfg p (p\<lparr>phase := DrainPool, pool := Shutdown (pool p), forced := True\<rparr>)"
| pool_drained: "alive p \<Longrightarrow> phase p = DrainPool \<Longrightarrow> Shutdown_returned (pool p) \<Longrightarrow> serve_step cfg p (p\<lparr>phase := StopStale, stale := stale_Shutdown (stale p)\<rparr>)"
| stale_stopped: "alive p \<Longrightarrow> phase p = StopStale \<Longrightarrow> stale_Shutdown_returned (stale p)
    \<Longrightarrow> serve_step cfg p (p\<lparr>phase := StopRetention, retention := retention_Shutdown (retention p)\<rparr>)"
| retention_stopped: "alive p \<Longrightarrow> phase p = StopRetention \<Longrightarrow> retention_Shutdown_returned (retention p)
    \<Longrightarrow> serve_step cfg p (p\<lparr>phase := StopMetrics, emos_closed := True\<rparr>)"
| metrics_closed: "alive p \<Longrightarrow> phase p = StopMetrics \<Longrightarrow> serve_step cfg p (p\<lparr>phase := Returned None\<rparr>)"

definition serveWithShutdown :: "'p Pool \<Rightarrow> stale_Job \<Rightarrow> retention_Job \<Rightarrow> 'p process" where
  "serveWithShutdown pl sj rj = \<lparr>phase = Serving, pool = pl, inflight = [], stale = sj, retention = rj, emos_ch = [], emos_closed = False,
     emos_busy = None, emos_done = [], panics = [], forced = False, crashed = False\<rparr>"

inductive serve_reach :: "Worker.Config \<Rightarrow> 'p process \<Rightarrow> bool" for cfg where
  start: "New cfg = Some pl \<Longrightarrow> stale_Start (stale_New ci it) = Some sj
    \<Longrightarrow> serve_reach cfg (serveWithShutdown pl sj (retention_Start (retention_New cron)))"
| go: "serve_reach cfg p \<Longrightarrow> serve_step cfg p q \<Longrightarrow> serve_reach cfg q"

subsection \<open>The invariant\<close>

fun rank :: "phase \<Rightarrow> nat" where
  "rank Serving = 0"
| "rank DrainHTTP = 1"
| "rank DrainPool = 2"
| "rank StopStale = 3"
| "rank StopRetention = 4"
| "rank StopMetrics = 5"
| "rank (Returned None) = 6"
| "rank (Returned (Some e)) = 0"

definition serve_inv :: "Worker.Config \<Rightarrow> 'p process \<Rightarrow> bool" where
  "serve_inv cfg p \<longleftrightarrow>
     pool_reach cfg (pool p) \<and> stale_sound (stale p) \<and> retention_sound (retention p) \<and> \<not> crashed p
   \<and> (2 \<le> rank (phase p) \<longrightarrow> Pool.closed (pool p) \<and> (\<not> forced p \<longrightarrow> inflight p = []))
   \<and> (3 \<le> rank (phase p) \<longrightarrow> Shutdown_returned (pool p) \<and> stale_Shutdown (stale p) = stale p)
   \<and> (4 \<le> rank (phase p) \<longrightarrow> stale_Shutdown_returned (stale p) \<and> retention_Shutdown (retention p) = retention p)
   \<and> (5 \<le> rank (phase p) \<longrightarrow> retention_Shutdown_returned (retention p))
   \<and> (emos_closed p \<longleftrightarrow> 5 \<le> rank (phase p))
   \<and> (\<not> forced p \<longrightarrow> panics p = [])"

lemma returned_pool_step: "Shutdown_returned p \<Longrightarrow> pool_step cfg p q \<Longrightarrow> q = p"
  by (auto simp: Shutdown_returned_def Enqueue_def Shutdown_def elim!: pool_step.cases dest!: nth_mem)

lemma Enqueue_closed: "Pool.closed p \<Longrightarrow> snd (Enqueue cfg x p) = p"
  by (simp add: Enqueue_def)

lemma send_emosD: "send_emos c p = Some q \<Longrightarrow> \<not> emos_closed p \<and> q = p\<lparr>emos_ch := emosTrigger c (emos_ch p)\<rparr>"
  by (simp add: send_emos_def split: if_splits)

lemma send_emos_None: "send_emos c p = None \<longleftrightarrow> emos_closed p"
  by (simp add: send_emos_def)

lemma serve_inv_step:
  assumes "serve_step cfg p q" and inv: "serve_inv cfg p"
  shows "serve_inv cfg q"
proof -
  have pr: "pool_reach cfg (pool p)" and ss: "stale_sound (stale p)" and rs: "retention_sound (retention p)"
    and r3: "3 \<le> rank (phase p) \<Longrightarrow> Shutdown_returned (pool p) \<and> stale_Shutdown (stale p) = stale p"
    and r4: "4 \<le> rank (phase p) \<Longrightarrow> stale_Shutdown_returned (stale p) \<and> retention_Shutdown (retention p) = retention p"
    and r5: "5 \<le> rank (phase p) \<Longrightarrow> retention_Shutdown_returned (retention p)"
    and ec: "emos_closed p \<longleftrightarrow> 5 \<le> rank (phase p)"
    using inv by (simp_all add: serve_inv_def)
  show ?thesis using assms(1)
proof cases
  case (post ws x ws')
  have "pool_reach cfg (snd (Enqueue cfg x (pool p)))" by (rule reach_step [OF pr pool_step.enqueue])
  then show ?thesis using inv post Enqueue_closed [of "pool p" cfg x] by (auto simp: serve_inv_def)
next
  case (post_handoff ws x ws' i b)
  have "pool_reach cfg (run_item cfg i b x ((pool p)\<lparr>accepted := accepted (pool p) @ [x]\<rparr>))"
    by (rule reach_step [OF pr pool_step.handoff [OF post_handoff(4-7)]])
  then show ?thesis using inv post_handoff by (auto simp: serve_inv_def)
next
  case (trigger ws c ws' q')
  then show ?thesis using inv send_emosD [OF trigger(4)] by (auto simp: serve_inv_def)
next
  case (trigger_panic ws c ws')
  then show ?thesis using inv by (auto simp: serve_inv_def send_emos_None)
next
  case (worker pl)
  have "pool_reach cfg pl" by (rule reach_step [OF pr worker(3)])
  then show ?thesis using inv worker returned_pool_step [OF _ worker(3)] by (auto simp: serve_inv_def)
next
  case (stale_goroutine j)
  have "stale_sound j" by (rule stale_job.step_sound [OF ss stale_goroutine(3)])
  moreover have "stale_Shutdown j = j" if "3 \<le> rank (phase p)" using stale_job.step_keeps_stop [OF _ stale_goroutine(3)] r3 [OF that] by blast
  moreover have False if "4 \<le> rank (phase p)" using stale_job.returned_dead [OF ss] stale_goroutine(3) r4 [OF that] by blast
  ultimately show ?thesis using inv stale_goroutine(1) by (auto simp: serve_inv_def)
next
  case (stale_trigger c)
  then show ?thesis using inv send_emosD [OF stale_trigger(3)] by (auto simp: serve_inv_def)
next
  case (stale_crash c)
  then have "4 \<le> rank (phase p)" using ec by (simp add: send_emos_None)
  then show ?thesis using stale_crash(3) stale_job.returned_dead [OF ss] r4 by blast
next
  case (retention_goroutine j')
  have "retention_sound j'" by (rule retention_job.step_sound [OF rs retention_goroutine(3)])
  moreover have "retention_Shutdown j' = j'" if "4 \<le> rank (phase p)"
    using retention_job.step_keeps_stop [OF _ retention_goroutine(3)] r4 [OF that] by blast
  moreover have False if "5 \<le> rank (phase p)" using retention_job.returned_dead [OF rs] retention_goroutine(3) r5 [OF that] by blast
  ultimately show ?thesis using inv retention_goroutine(1) by (auto simp: serve_inv_def)
next
  case http_closed
  have "pool_reach cfg (Shutdown (pool p))" by (rule reach_step [OF pr pool_step.shutdown])
  then show ?thesis using inv http_closed by (auto simp: serve_inv_def Shutdown_def)
next
  case http_timeout
  have "pool_reach cfg (Shutdown (pool p))" by (rule reach_step [OF pr pool_step.shutdown])
  then show ?thesis using inv http_timeout by (auto simp: serve_inv_def Shutdown_def)
next
  case pool_drained
  then show ?thesis using inv stale_job.stop_sound stale_job.stop_again by (auto simp: serve_inv_def)
next
  case stale_stopped
  then show ?thesis using inv retention_job.stop_sound retention_job.stop_again by (auto simp: serve_inv_def)
qed (use inv in \<open>auto simp: serve_inv_def alive_def\<close>)
qed

lemma serve_reach_inv: "serve_reach cfg p \<Longrightarrow> serve_inv cfg p"
proof (induction rule: serve_reach.induct)
  case (start pl ci it sj cron)
  then show ?case
    using reach_new [OF start(1)] retention_Start_sound [of cron]
    by (auto simp: serve_inv_def serveWithShutdown_def stale_sound_def stale_Start_def stale_New_def split: if_splits)
qed (rule serve_inv_step)

subsection \<open>Shutdown comes to an end\<close>

definition backlog :: "'p process \<Rightarrow> int list \<times> int option \<times> int list \<times> 'p list" where
  "backlog p = (emos_ch p, emos_busy p, emos_done p, accepted (pool p))"

lemma serve_steps_inv: "(serve_step cfg)\<^sup>*\<^sup>* p q \<Longrightarrow> serve_inv cfg p \<Longrightarrow> serve_inv cfg q"
  by (induction rule: rtranclp_induct) (auto intro: serve_inv_step)

lemma lift_pool:
  assumes "(pool_step cfg)\<^sup>*\<^sup>* (pool p) b" and "alive p" and "Pool.closed (pool p)"
  shows "(serve_step cfg)\<^sup>*\<^sup>* p (p\<lparr>pool := b\<rparr>) \<and> Pool.closed b \<and> accepted b = accepted (pool p)"
  using assms(1)
proof (induction rule: rtranclp_induct)
  case (step y z)
  have c: "Pool.closed z" "accepted z = accepted y" using closed_step [OF step(2)] step(3) by auto
  have "serve_step cfg (p\<lparr>pool := y\<rparr>) (p\<lparr>pool := y\<rparr>\<lparr>pool := z\<rparr>)"
    by (rule serve_step.worker) (use step c assms(2) in \<open>auto simp: alive_def\<close>)
  then show ?case using step(3) c by (auto intro: rtranclp.rtrancl_into_rtrancl)
qed (use assms in simp)

lemma lift_stale:
  assumes "stale_step\<^sup>*\<^sup>* (stale p) j" and "alive p"
  shows "(serve_step cfg)\<^sup>*\<^sup>* p (p\<lparr>stale := j\<rparr>)"
  using assms(1)
proof (induction rule: rtranclp_induct)
  case (step y z)
  have "serve_step cfg (p\<lparr>stale := y\<rparr>) (p\<lparr>stale := y\<rparr>\<lparr>stale := z\<rparr>)"
    by (rule serve_step.stale_goroutine) (use step assms(2) in \<open>auto simp: alive_def\<close>)
  then show ?case using step(3) by (auto intro: rtranclp.rtrancl_into_rtrancl)
qed simp

lemma lift_retention:
  assumes "retention_step\<^sup>*\<^sup>* (retention p) j" and "alive p"
  shows "(serve_step cfg)\<^sup>*\<^sup>* p (p\<lparr>retention := j\<rparr>)"
  using assms(1)
proof (induction rule: rtranclp_induct)
  case (step y z)
  have "serve_step cfg (p\<lparr>retention := y\<rparr>) (p\<lparr>retention := y\<rparr>\<lparr>retention := z\<rparr>)"
    by (rule serve_step.retention_goroutine) (use step assms(2) in \<open>auto simp: alive_def\<close>)
  then show ?case using step(3) by (auto intro: rtranclp.rtrancl_into_rtrancl)
qed simp

text \<open>From each phase the next one is reached.\<close>

definition gets :: "Worker.Config \<Rightarrow> 'p process \<Rightarrow> phase \<Rightarrow> bool" where
  "gets cfg p b \<longleftrightarrow> (\<exists>q. (serve_step cfg)\<^sup>*\<^sup>* p q \<and> phase q = b \<and> \<not> crashed q \<and> backlog q = backlog p)"

lemma gets_step: "serve_step cfg p q \<Longrightarrow> phase q = b \<Longrightarrow> \<not> crashed q \<Longrightarrow> backlog q = backlog p \<Longrightarrow> gets cfg p b"
  unfolding gets_def by blast

lemma gets_steps: "(serve_step cfg)\<^sup>*\<^sup>* p q \<Longrightarrow> backlog q = backlog p \<Longrightarrow> gets cfg q b \<Longrightarrow> gets cfg p b"
  unfolding gets_def by (metis rtranclp_trans)

lemma gets_trans:
  fixes p :: "'p process"
  assumes "gets cfg p a" and "serve_inv cfg p" and "\<And>q :: 'p process. serve_inv cfg q \<Longrightarrow> phase q = a \<Longrightarrow> gets cfg q b"
  shows "gets cfg p b"
proof -
  obtain q where q: "(serve_step cfg)\<^sup>*\<^sup>* p q" "phase q = a" "backlog q = backlog p" using assms(1) by (auto simp: gets_def)
  show ?thesis by (rule gets_steps [OF q(1,3) assms(3) [OF serve_steps_inv [OF q(1) assms(2)] q(2)]])
qed

lemma serve_inv_safe: "serve_inv cfg p \<Longrightarrow> \<not> crashed p"
  by (simp add: serve_inv_def)

lemma gets_DrainHTTP: "serve_inv cfg p \<Longrightarrow> phase p = Serving \<Longrightarrow> gets cfg p DrainHTTP"
  by (rule gets_step [OF serve_step.signal]) (simp_all add: alive_def backlog_def serve_inv_safe)

lemma gets_DrainPool: "serve_inv cfg p \<Longrightarrow> phase p = DrainHTTP \<Longrightarrow> gets cfg p DrainPool"
  by (rule gets_step [OF serve_step.http_timeout]) (simp_all add: alive_def backlog_def serve_inv_safe Shutdown_def)

lemma gets_StopStale:
  assumes "serve_inv cfg p" and "phase p = DrainPool"
  shows "gets cfg p StopStale"
proof -
  have c: "Pool.closed (pool p)" "alive p" using assms serve_inv_safe by (auto simp: serve_inv_def alive_def)
  obtain b where b: "(pool_step cfg)\<^sup>*\<^sup>* (pool p) b" "Shutdown_returned b" using closed_drains [OF c(1)] by blast
  have "gets cfg (p\<lparr>pool := b\<rparr>) StopStale"
    by (rule gets_step [OF serve_step.pool_drained]) (use b c assms in \<open>simp_all add: alive_def backlog_def serve_inv_safe\<close>)
  moreover have "(serve_step cfg)\<^sup>*\<^sup>* p (p\<lparr>pool := b\<rparr>)" "accepted b = accepted (pool p)" using lift_pool [OF b(1) c(2,1)] by auto
  ultimately show ?thesis using gets_steps [of cfg p "p\<lparr>pool := b\<rparr>"] by (simp add: backlog_def)
qed

lemma gets_StopRetention:
  assumes "serve_inv cfg p" and "phase p = StopStale"
  shows "gets cfg p StopRetention"
proof -
  have c: "stale_sound (stale p)" "stale_Shutdown (stale p) = stale p" "alive p" using assms serve_inv_safe by (auto simp: serve_inv_def alive_def)
  obtain j where j: "stale_step\<^sup>*\<^sup>* (stale p) j" "stale_Shutdown_returned j" using stale_job.stop_returns [OF c(1)] c(2) by auto
  have "gets cfg (p\<lparr>stale := j\<rparr>) StopRetention"
    by (rule gets_step [OF serve_step.stale_stopped]) (use j c assms in \<open>simp_all add: alive_def backlog_def serve_inv_safe\<close>)
  moreover have "(serve_step cfg)\<^sup>*\<^sup>* p (p\<lparr>stale := j\<rparr>)" by (rule lift_stale [OF j(1) c(3)])
  ultimately show ?thesis by (rule gets_steps [rotated 2]) (simp add: backlog_def)
qed

lemma gets_StopMetrics:
  assumes "serve_inv cfg p" and "phase p = StopRetention"
  shows "gets cfg p StopMetrics"
proof -
  have c: "retention_sound (retention p)" "retention_Shutdown (retention p) = retention p" "alive p"
    using assms serve_inv_safe by (auto simp: serve_inv_def alive_def)
  obtain j where j: "retention_step\<^sup>*\<^sup>* (retention p) j" "retention_Shutdown_returned j" using retention_job.stop_returns [OF c(1)] c(2) by auto
  have "gets cfg (p\<lparr>retention := j\<rparr>) StopMetrics"
    by (rule gets_step [OF serve_step.retention_stopped]) (use j c assms in \<open>simp_all add: alive_def backlog_def serve_inv_safe\<close>)
  moreover have "(serve_step cfg)\<^sup>*\<^sup>* p (p\<lparr>retention := j\<rparr>)" by (rule lift_retention [OF j(1) c(3)])
  ultimately show ?thesis by (rule gets_steps [rotated 2]) (simp add: backlog_def)
qed

lemma gets_Returned: "serve_inv cfg p \<Longrightarrow> phase p = StopMetrics \<Longrightarrow> gets cfg p (Returned None)"
  by (rule gets_step [OF serve_step.metrics_closed]) (simp_all add: alive_def backlog_def serve_inv_safe)

lemma completes:
  assumes "serve_inv cfg p" and "alive p"
  shows "gets cfg p (Returned None)"
proof -
  have 5: "gets cfg q (Returned None)" if "serve_inv cfg q" "phase q = StopMetrics" for q :: "'a process" by (rule gets_Returned [OF that])
  have 4: "gets cfg q (Returned None)" if "serve_inv cfg q" "phase q = StopRetention" for q :: "'a process"
    by (rule gets_trans [OF gets_StopMetrics [OF that] that(1) 5])
  have 3: "gets cfg q (Returned None)" if "serve_inv cfg q" "phase q = StopStale" for q :: "'a process"
    by (rule gets_trans [OF gets_StopRetention [OF that] that(1) 4])
  have 2: "gets cfg q (Returned None)" if "serve_inv cfg q" "phase q = DrainPool" for q :: "'a process"
    by (rule gets_trans [OF gets_StopStale [OF that] that(1) 3])
  have 1: "gets cfg q (Returned None)" if "serve_inv cfg q" "phase q = DrainHTTP" for q :: "'a process"
    by (rule gets_trans [OF gets_DrainPool [OF that] that(1) 2])
  have 0: "gets cfg q (Returned None)" if "serve_inv cfg q" "phase q = Serving" for q :: "'a process"
    by (rule gets_trans [OF gets_DrainHTTP [OF that] that(1) 1])
  show ?thesis using assms 0 1 2 3 4 5 by (cases "phase p") (auto simp: alive_def)
qed

subsection \<open>Properties\<close>


text \<open>(C12) Shutdown can always complete, and does not wait for the eMOS jobs.  From every live state of
  the process there is a run to the error-free return of \<open>serveWithShutdown\<close>; and there is one
  in which the eMOS goroutine does nothing at all, so that every conference queued before is still
  queued when the process ends and its quality is not computed.\<close>
theorem shutdown_completes:
  assumes "serve_reach cfg p" and "alive p"
  shows "\<exists>q. (serve_step cfg)\<^sup>*\<^sup>* p q \<and> phase q = Returned None
       \<and> emos_ch q = emos_ch p \<and> emos_busy q = emos_busy p \<and> emos_done q = emos_done p"
  using completes [OF serve_reach_inv [OF assms(1)] assms(2)] by (auto simp: gets_def backlog_def)

text \<open>A process with one worker that has accepted a payload and queued conference 7.\<close>

definition fresh_process :: "'p process" where
  "fresh_process = serveWithShutdown (the (New sample_cfg)) (the (stale_Start (stale_New 1 1))) (retention_Start (retention_New ''0 3 * * *''))"

definition queued_process :: "'p \<Rightarrow> 'p process" where
  "queued_process x = fresh_process\<lparr>pool := snd (Enqueue sample_cfg x (pool fresh_process)), emos_ch := [7]\<rparr>"

lemma fresh_process_reach: "serve_reach sample_cfg fresh_process"
  unfolding fresh_process_def
  by (rule serve_reach.start [where ci = 1 and it = 1]) (simp_all add: New_def sample_cfg_def i64_def stale_Start_def stale_New_def)

lemma fresh_process_simps [simp]:
  "alive fresh_process" "phase fresh_process = Serving" "inflight fresh_process = []" "emos_ch fresh_process = []"
  "emos_done fresh_process = []" "\<not> emos_closed fresh_process" "\<not> crashed fresh_process"
  by (simp_all add: fresh_process_def serveWithShutdown_def alive_def)

lemma alive_fresh: "phase p = phase fresh_process \<Longrightarrow> crashed p = crashed fresh_process \<Longrightarrow> alive p"
  by (simp add: alive_def)

lemma queued_process_reach: "serve_reach sample_cfg (queued_process x)" "alive (queued_process x)"
proof -
  let ?p = "fresh_process :: 'a process"
  let ?q = "?p\<lparr>pool := snd (Enqueue sample_cfg x (pool ?p))\<rparr>"
  have "serve_step sample_cfg ?p (?p\<lparr>inflight := inflight ?p @ [Post x]\<rparr>)" by (rule serve_step.arrive) simp_all
  then have 1: "serve_reach sample_cfg (?p\<lparr>inflight := [Post x]\<rparr>)" using serve_reach.go [OF fresh_process_reach] by simp
  have "serve_step sample_cfg (?p\<lparr>inflight := [Post x]\<rparr>)
      ((?p\<lparr>inflight := [Post x]\<rparr>)\<lparr>inflight := [] @ [], pool := snd (Enqueue sample_cfg x (pool (?p\<lparr>inflight := [Post x]\<rparr>)))\<rparr>)"
    by (rule serve_step.post) (simp_all add: alive_fresh)
  moreover have "?p\<lparr>inflight := []\<rparr> = ?p" by (simp add: fresh_process_def serveWithShutdown_def)
  ultimately have 2: "serve_reach sample_cfg ?q" using serve_reach.go [OF 1] by simp
  have "serve_step sample_cfg ?q (?q\<lparr>inflight := inflight ?q @ [End 7]\<rparr>)" by (rule serve_step.arrive) (simp_all add: alive_fresh)
  then have 3: "serve_reach sample_cfg (?q\<lparr>inflight := [End 7]\<rparr>)" using serve_reach.go [OF 2] by simp
  have "serve_step sample_cfg (?q\<lparr>inflight := [End 7]\<rparr>)
      ((?q\<lparr>inflight := [End 7]\<rparr>)\<lparr>emos_ch := emosTrigger 7 (emos_ch (?q\<lparr>inflight := [End 7]\<rparr>))\<rparr>\<lparr>inflight := [] @ []\<rparr>)"
    by (rule serve_step.trigger [where c = 7]) (simp_all add: alive_fresh send_emos_def)
  then show "serve_reach sample_cfg (queued_process x)"
    using serve_reach.go [OF 3] by (simp add: queued_process_def emosTrigger_def fresh_process_def serveWithShutdown_def)
  show "alive (queued_process x)" by (simp add: queued_process_def alive_fresh)
qed

lemma queued_process_accepted: "accepted (pool (queued_process x)) = [x]"
  by (simp add: queued_process_def fresh_process_def serveWithShutdown_def New_def sample_cfg_def i64_def Enqueue_def)

lemma serve_reach_steps: "(serve_step cfg)\<^sup>*\<^sup>* p q \<Longrightarrow> serve_reach cfg p \<Longrightarrow> serve_reach cfg q"
  by (induction rule: rtranclp_induct) (auto intro: serve_reach.go)

lemma queued_process_returns: "\<exists>q. serve_reach sample_cfg q \<and> phase q = Returned None \<and> accepted (pool q) = [x]"
proof -
  obtain q where q: "(serve_step sample_cfg)\<^sup>*\<^sup>* (queued_process x) q" "phase q = Returned None" "backlog q = backlog (queued_process x)"
    using completes [OF serve_reach_inv [OF queued_process_reach(1)] queued_process_reach(2), of x] unfolding gets_def by blast
  show ?thesis using serve_reach_steps [OF q(1) queued_process_reach(1)] q(2,3) queued_process_accepted [of x] by (auto simp: backlog_def)
qed


theorem shutdown_completes_witness:
  "\<exists>q. (serve_step sample_cfg)\<^sup>*\<^sup>* (queued_process (3 :: nat)) q \<and> phase q = Returned None \<and> emos_ch q = [7] \<and> emos_done q = []"
  using shutdown_completes [OF queued_process_reach, of "3 :: nat"] by (auto simp: queued_process_def)

end
