(* ===== verification/Startup.thy ===== *)
theory Startup
  imports Configuration Serve Session
begin

text \<open>
  The commands of the two services: \<open>newServeCmd\<close> of \<^verbatim>\<open>services/ingest-api/main.go\<close> and
  \<^verbatim>\<open>services/query-api/main.go\<close>, the migrate commands, and the constructors they call,
  \<^verbatim>\<open>internal/db/pool.go\<close>, \<^verbatim>\<open>internal/cache/cache.go\<close>,
  \<^verbatim>\<open>internal/migrate/migrate.go\<close> and \<^verbatim>\<open>internal/logger/logger.go\<close>.

  The database driver, the Redis client and golang-migrate are the parameter records \<open>drivers\<close>
  and \<open>migrator\<close>; what \<open>serveWithShutdown\<close> returns is a function of the process it is
  started with, whose runs theory \<open>Serve\<close> describes.  The connections a process holds are the
  list of its open handles, to which a constructor adds and from which \<open>Close\<close> removes.
  Error texts are constructors that name the wrapping message; what the commands print is left out.
\<close>

subsection \<open>Connections\<close>

datatype handle = PgPool | RedisClient

definition Close :: "handle \<Rightarrow> handle list \<Rightarrow> handle list" where
  "Close h hs = remove1 h hs"

record 'c pgx_config =
  pgx_MaxConns :: int
  pgx_MinConns :: int
  MaxConnLifetime :: int
  MaxConnIdleTime :: int
  pgx_rest :: 'c

record 'r redis_options =
  opt_PoolSize :: int
  opt_rest :: 'r

record ('c, 'r) drivers =
  ParseConfig :: "string \<Rightarrow> string + 'c pgx_config"
  NewWithConfig :: "'c pgx_config \<Rightarrow> string option"
  pgx_Ping :: "'c pgx_config \<Rightarrow> string option"
  ParseURL :: "string \<Rightarrow> string + 'r redis_options"
  redis_Ping :: "'r redis_options \<Rightarrow> string option"

datatype client_error = ErrMissingURL | ParseErr string | ConnLifetimeErr string | CreatePoolErr string | PingErr string

definition conn_settings :: "DBConfig \<Rightarrow> 'c pgx_config \<Rightarrow> 'c pgx_config" where
  "conn_settings cfg pc =
     (let pc1 = (if 0 < MaxConns cfg then pc\<lparr>pgx_MaxConns := i32 (MaxConns cfg)\<rparr> else pc) in
      if 0 < MinConns cfg then pc1\<lparr>pgx_MinConns := i32 (MinConns cfg)\<rparr> else pc1)"

definition lifetime_settings :: "(string \<Rightarrow> int option) \<Rightarrow> DBConfig \<Rightarrow> 'c pgx_config \<Rightarrow> client_error + 'c pgx_config" where
  "lifetime_settings parse_duration cfg pc =
     (if ConnLifetime cfg \<noteq> [] then
        (case parse_duration (ConnLifetime cfg) of
           None \<Rightarrow> Inl (ConnLifetimeErr (ConnLifetime cfg))
         | Some lifetime \<Rightarrow> Inr (if 0 < lifetime then pc\<lparr>MaxConnLifetime := lifetime, MaxConnIdleTime := lifetime\<rparr> else pc))
      else Inr pc)"

definition NewPool ::
  "('c, 'r) drivers \<Rightarrow> (string \<Rightarrow> int option) \<Rightarrow> DBConfig \<Rightarrow> handle list \<Rightarrow> (client_error + 'c pgx_config) \<times> handle list" where
  "NewPool K parse_duration cfg hs =
     (if DB_URL cfg = [] then (Inl ErrMissingURL, hs)
      else case ParseConfig K (DB_URL cfg) of
        Inl e \<Rightarrow> (Inl (ParseErr e), hs)
      | Inr pc \<Rightarrow>
          case lifetime_settings parse_duration cfg (conn_settings cfg pc) of
            Inl e \<Rightarrow> (Inl e, hs)
          | Inr poolCfg \<Rightarrow>
              case NewWithConfig K poolCfg of
                Some e \<Rightarrow> (Inl (CreatePoolErr e), hs)
              | None \<Rightarrow>
                  case pgx_Ping K poolCfg of
                    Some e \<Rightarrow> (Inl (PingErr e), Close PgPool (PgPool # hs))
                  | None \<Rightarrow> (Inr poolCfg, PgPool # hs))"

definition NewClient :: "('c, 'r) drivers \<Rightarrow> RedisConfig \<Rightarrow> handle list \<Rightarrow> (client_error + 'r redis_options) \<times> handle list" where
  "NewClient K cfg hs =
     (if Redis_URL cfg = [] then (Inl ErrMissingURL, hs)
      else case ParseURL K (Redis_URL cfg) of
        Inl e \<Rightarrow> (Inl (ParseErr e), hs)
      | Inr opts0 \<Rightarrow>
          let opts = (if 0 < PoolSize cfg then opts0\<lparr>opt_PoolSize := PoolSize cfg\<rparr> else opts0) in
          case redis_Ping K opts of
            Some e \<Rightarrow> (Inl (PingErr e), Close RedisClient (RedisClient # hs))
          | None \<Rightarrow> (Inr opts, RedisClient # hs))"

definition logger_New :: "(string \<Rightarrow> 'l option) \<Rightarrow> 'l \<Rightarrow> string \<Rightarrow> 'l" where
  "logger_New parse_level infoLevel level = (case parse_level level of None \<Rightarrow> infoLevel | Some parsed \<Rightarrow> parsed)"

subsection \<open>The serve commands\<close>

datatype command_error =
  LoadConfig string | JWTSecretRequired | DBInit client_error | RedisInit client_error | Serve_err string

datatype outcome = Done | Failed command_error | Panicked

text \<open>Worker pool, stale job and retention job are started in this order.\<close>

definition start_service :: "service_setup \<Rightarrow> IngestPayload process option" where
  "start_service st =
     (case New (worker_config st) of
        None \<Rightarrow> None
      | Some wp \<Rightarrow>
          case stale_Start (stale_New (checkInterval st) (idleThreshold st)) of
            None \<Rightarrow> None
          | Some staleJob \<Rightarrow> Some (serveWithShutdown wp staleJob (retention_Start (retention_New (retentionCron st)))))"

definition newServeCmd ::
  "('c, 'r) drivers \<Rightarrow> (string \<Rightarrow> rat option) \<Rightarrow> (string \<Rightarrow> int option) \<Rightarrow> (string \<Rightarrow> string)
    \<Rightarrow> (IngestPayload process \<Rightarrow> string option) \<Rightarrow> string + Configuration.Config \<Rightarrow> handle list \<Rightarrow> outcome \<times> handle list" where
  "newServeCmd K parse_float parse_duration env served loaded hs =
     (case loaded of
        Inl e \<Rightarrow> (Failed (LoadConfig e), hs)
      | Inr cfg \<Rightarrow>
          if JWTSecret (Auth_cfg cfg) = [] then (Failed JWTSecretRequired, hs)
          else case NewPool K parse_duration (DB_cfg cfg) hs of
            (Inl e, hs1) \<Rightarrow> (Failed (DBInit e), hs1)
          | (Inr pl, hs1) \<Rightarrow>
              case NewClient K (Redis_cfg cfg) hs1 of
                (Inl e, hs2) \<Rightarrow> (Failed (RedisInit e), Close PgPool hs2)
              | (Inr client, hs2) \<Rightarrow>
                  case start_service (serve_setup parse_float parse_duration env cfg) of
                    None \<Rightarrow> (Panicked, hs2)
                  | Some p \<Rightarrow> (case served p of None \<Rightarrow> Done | Some e \<Rightarrow> Failed (Serve_err e), Close PgPool (Close RedisClient hs2)))"

text \<open>The query service has no shutdown: \<open>http.ListenAndServe\<close> returns only with an error.\<close>

definition newServeCmd_query ::
  "('c, 'r) drivers \<Rightarrow> (string \<Rightarrow> int option) \<Rightarrow> (int \<Rightarrow> Store \<Rightarrow> string \<Rightarrow> string) \<Rightarrow> string + Configuration.Config \<Rightarrow> handle list
    \<Rightarrow> outcome \<times> handle list" where
  "newServeCmd_query K parse_duration listen loaded hs =
     (case loaded of
        Inl e \<Rightarrow> (Failed (LoadConfig e), hs)
      | Inr cfg \<Rightarrow>
          case NewPool K parse_duration (DB_cfg cfg) hs of
            (Inl e, hs1) \<Rightarrow> (Failed (DBInit e), hs1)
          | (Inr pl, hs1) \<Rightarrow>
              case NewClient K (Redis_cfg cfg) hs1 of
                (Inl e, hs2) \<Rightarrow> (Failed (RedisInit e), Close PgPool hs2)
              | (Inr rdb, hs2) \<Rightarrow>
                  (Failed (Serve_err (listen (Port (Server_cfg cfg)) (NewStore (TTLSeconds (Session_cfg cfg))) (master_key cfg))),
                   Close PgPool (Close RedisClient hs2)))"

subsection \<open>Migrations\<close>

datatype migrate_error = ErrNoChange | MigrateErr string

record 's migrator =
  mig_source :: "string option"
  mig_connect :: "string \<Rightarrow> string option"
  mig_Up :: "'s \<Rightarrow> migrate_error option \<times> 's"
  mig_Down :: "'s \<Rightarrow> migrate_error option \<times> 's"
  mig_Steps :: "int \<Rightarrow> 's \<Rightarrow> migrate_error option \<times> 's"

datatype migrate_failure = LoadSource string | ConnectErr string | UpErr string | DownErr string | URLRequired

definition migURL :: "string \<Rightarrow> string" where
  "migURL dbURL =
     (if 11 < length dbURL \<and> take 11 dbURL = ''postgres://'' then ''pgx5://'' @ List.drop 11 dbURL
      else if 13 < length dbURL \<and> take 13 dbURL = ''postgresql://'' then ''pgx5://'' @ List.drop 13 dbURL
      else dbURL)"

definition newMigrator :: "'s migrator \<Rightarrow> string \<Rightarrow> migrate_failure option" where
  "newMigrator M dbURL =
     (case mig_source M of
        Some e \<Rightarrow> Some (LoadSource e)
      | None \<Rightarrow> (case mig_connect M (migURL dbURL) of Some e \<Rightarrow> Some (ConnectErr e) | None \<Rightarrow> None))"

fun swallow :: "(string \<Rightarrow> migrate_failure) \<Rightarrow> migrate_error option \<times> 's \<Rightarrow> migrate_failure option \<times> 's" where
  "swallow wrap (Some (MigrateErr e), s) = (Some (wrap e), s)"
| "swallow wrap (Some ErrNoChange, s) = (None, s)"
| "swallow wrap (None, s) = (None, s)"

definition Up :: "'s migrator \<Rightarrow> string \<Rightarrow> 's \<Rightarrow> migrate_failure option \<times> 's" where
  "Up M dbURL s = (case newMigrator M dbURL of Some e \<Rightarrow> (Some e, s) | None \<Rightarrow> swallow UpErr (mig_Up M s))"

definition Down :: "'s migrator \<Rightarrow> string \<Rightarrow> int \<Rightarrow> 's \<Rightarrow> migrate_failure option \<times> 's" where
  "Down M dbURL steps s =
     (case newMigrator M dbURL of
        Some e \<Rightarrow> (Some e, s)
      | None \<Rightarrow> swallow DownErr (if steps = 0 then mig_Down M s else mig_Steps M (i64 (- steps)) s))"

definition db_url :: "(string \<Rightarrow> string) \<Rightarrow> string \<Rightarrow> string" where
  "db_url env flag = (if flag = [] then env ''DB_URL'' else flag)"

definition newMigrateUpCmd :: "'s migrator \<Rightarrow> (string \<Rightarrow> string) \<Rightarrow> string \<Rightarrow> 's \<Rightarrow> migrate_failure option \<times> 's" where
  "newMigrateUpCmd M env flag s =
     (if db_url env flag = [] then (Some URLRequired, s) else Up M (db_url env flag) s)"

definition newMigrateDownCmd :: "'s migrator \<Rightarrow> (string \<Rightarrow> string) \<Rightarrow> string \<Rightarrow> int \<Rightarrow> 's \<Rightarrow> migrate_failure option \<times> 's" where
  "newMigrateDownCmd M env flag steps s =
     (if db_url env flag = [] then (Some URLRequired, s) else Down M (db_url env flag) steps s)"

subsection \<open>Facts about the constructors\<close>

lemma NewPool_cases:
  obtains (failed) e where "NewPool K parse_duration cfg hs = (Inl e, hs)"
  | (connected) pc where "NewPool K parse_duration cfg hs = (Inr pc, PgPool # hs)"
proof (cases "fst (NewPool K parse_duration cfg hs)")
  case (Inl e)
  then have "NewPool K parse_duration cfg hs = (Inl e, hs)"
    by (auto simp: NewPool_def Close_def split: if_splits sum.splits option.splits)
  then show ?thesis by (rule failed)
next
  case (Inr pc)
  then have "NewPool K parse_duration cfg hs = (Inr pc, PgPool # hs)"
    by (auto simp: NewPool_def split: if_splits sum.splits option.splits)
  then show ?thesis by (rule connected)
qed

lemma NewClient_cases:
  obtains (failed) e where "NewClient K cfg hs = (Inl e, hs)"
  | (connected) ro where "NewClient K cfg hs = (Inr ro, RedisClient # hs)"
proof (cases "fst (NewClient K cfg hs)")
  case (Inl e)
  then have "NewClient K cfg hs = (Inl e, hs)"
    by (auto simp: NewClient_def Close_def Let_def split: if_splits sum.splits option.splits)
  then show ?thesis by (rule failed)
next
  case (Inr ro)
  then have "NewClient K cfg hs = (Inr ro, RedisClient # hs)"
    by (auto simp: NewClient_def Let_def split: if_splits sum.splits option.splits)
  then show ?thesis by (rule connected)
qed

lemma Close_simps [simp]: "Close h (h # hs) = hs" "Close PgPool (Close RedisClient (RedisClient # hs)) = Close PgPool hs"
  by (simp_all add: Close_def)

text \<open>The connection bounds are cut to 32 bits: a limit that is a multiple of \<open>2\<^sup>3\<^sup>2\<close> becomes 0.\<close>

lemma conn_settings_wraps: "0 < k \<Longrightarrow> MaxConns cfg = k * 2 ^ 32 \<Longrightarrow> pgx_MaxConns (conn_settings cfg pc) = 0"
  by (simp add: conn_settings_def i32_def Let_def)

lemma conn_settings_exact:
  "0 < MaxConns cfg \<Longrightarrow> MaxConns cfg < 2 ^ 31 \<Longrightarrow> pgx_MaxConns (conn_settings cfg pc) = MaxConns cfg"
  by (simp add: conn_settings_def i32_def Let_def)

text \<open>Both spellings of the scheme reach the same driver; a normalised URL is left as it is.\<close>

lemma migURL_schemes: "x \<noteq> [] \<Longrightarrow> migURL (''postgres://'' @ x) = ''pgx5://'' @ x \<and> migURL (''postgresql://'' @ x) = ''pgx5://'' @ x"
  by (simp add: migURL_def)

lemma migURL_pgx5: "migURL (''pgx5://'' @ x) = ''pgx5://'' @ x"
  by (simp add: migURL_def numeral_eq_Suc)

lemma migURL_idem: "migURL (migURL u) = migURL u"
  using migURL_pgx5 by (simp add: migURL_def)

subsection \<open>Properties\<close>

text \<open>(C28) Start-up from an accepted configuration.  When \<open>Load\<close> succeeds, the master key is
  empty or exactly 32 bytes long, so the server routes are registered exactly when a key is
  configured; the eMOS coefficient, the check interval and the idle threshold are positive whatever
  the environment holds.  The worker settings are not validated: the service comes up exactly when
  the channel capacity is not negative and, with at least one worker, the batch size is not negative
  and the flush interval in nanoseconds is positive in 64 bits; otherwise start-up panics.  A service
  that comes up is in an initial state of the process model, so its shutdown properties apply.\<close>
theorem startup_accepted:
  assumes "Load unmarshal numCPU = Inr cfg" and "st = serve_setup parse_float parse_duration env cfg"
  shows "length (masterKey st) \<in> {0, 32}
   \<and> (length (masterKey st) = 32 \<longleftrightarrow> ServerMasterKey (Auth_cfg cfg) \<noteq> [])
   \<and> 0 < lossCoeff st \<and> 0 < checkInterval st \<and> 0 < idleThreshold st
   \<and> (start_service st \<noteq> None \<longleftrightarrow>
        0 \<le> WChannelCap (Worker_cfg cfg)
      \<and> (0 < Count (Worker_cfg cfg) \<longrightarrow>
           0 \<le> WBatchSize (Worker_cfg cfg) \<and> 0 < i64 (WFlushIntervalMs (Worker_cfg cfg) * 1000000)))
   \<and> (\<forall>p. start_service st = Some p \<longrightarrow> serve_reach (worker_config st) p)"
proof -
  have key: "length (masterKey st) = (if ServerMasterKey (Auth_cfg cfg) \<noteq> [] then 32 else 0)"
    using master_key_length [OF assms(1)] by (simp add: assms(2) serve_setup_def)
  have pos: "0 < lossCoeff st" "0 < checkInterval st" "0 < idleThreshold st" using serve_setup_positive assms(2) by simp_all
  have sj: "stale_Start (stale_New (checkInterval st) i) \<noteq> None" for i using pos(2) by (simp add: stale_Start_def stale_New_def)
  have "start_service st \<noteq> None \<longleftrightarrow> New (worker_config st) \<noteq> (None :: IngestPayload Pool option)"
    using sj [of "idleThreshold st"] by (auto simp: start_service_def split: option.splits)
  moreover have "New (worker_config st) \<noteq> (None :: IngestPayload Pool option) \<longleftrightarrow>
        0 \<le> WChannelCap (Worker_cfg cfg)
      \<and> (0 < Count (Worker_cfg cfg) \<longrightarrow>
           0 \<le> WBatchSize (Worker_cfg cfg) \<and> 0 < i64 (WFlushIntervalMs (Worker_cfg cfg) * 1000000))"
    by (auto simp: Worker.New_def assms(2) serve_setup_def)
  moreover have "serve_reach (worker_config st) p" if "start_service st = Some p" for p
    using that by (auto simp: start_service_def split: option.splits intro: serve_reach.start)
  ultimately show ?thesis using key pos by simp
qed

theorem startup_accepted_witness:
  "\<exists>cfg p. Load (\<lambda>_. Inr default_config) 4 = Inr cfg \<and> start_service (serve_setup (\<lambda>_. None) (\<lambda>_. None) (\<lambda>_. []) cfg) = Some p
     \<and> serve_reach (worker_config (serve_setup (\<lambda>_. None) (\<lambda>_. None) (\<lambda>_. []) cfg)) p"
proof -
  let ?cfg = "applyComputedDefaults 4 default_config"
  have "ServerMasterKey (Auth_cfg ?cfg) = []" "0 \<le> WChannelCap (Worker_cfg ?cfg)" "0 \<le> WBatchSize (Worker_cfg ?cfg)"
    "0 < i64 (WFlushIntervalMs (Worker_cfg ?cfg) * 1000000)" by code_simp+
  then show ?thesis using startup_accepted [OF default_config_loads refl, of "\<lambda>_. None" "\<lambda>_. None" "\<lambda>_. []"] default_config_loads
    by (intro exI [of _ ?cfg]) auto
qed

lemma newServeCmd_query_result:
  "\<exists>e. newServeCmd_query K parse_duration listen loaded hs = (Failed e, hs)"
proof (cases loaded)
  case (Inr cfg)
  show ?thesis
  proof (cases rule: NewPool_cases [of K parse_duration "DB_cfg cfg" hs])
    case (connected pc)
    then show ?thesis
      by (cases rule: NewClient_cases [of K "Redis_cfg cfg" "PgPool # hs"]) (simp_all add: newServeCmd_query_def Inr)
  qed (simp add: newServeCmd_query_def Inr)
qed (simp add: newServeCmd_query_def)

text \<open>The serve commands.  Whatever step of start-up fails, an ingest service that does not panic
  has closed every connection it opened when the command returns, and the command succeeds exactly
  when the configuration loads with a JWT secret, PostgreSQL and Redis answer, the service starts and
  \<open>serveWithShutdown\<close> returns without an error.  The query service closes its connections
  too and never returns without an error, as it has no orderly shutdown.\<close>
theorem serve_commands:
  "(case newServeCmd K parse_float parse_duration env served loaded hs of (out, hs') \<Rightarrow>
     (out \<noteq> Panicked \<longrightarrow> hs' = hs)
   \<and> (out = Done \<longleftrightarrow> (\<exists>cfg pc ro p. loaded = Inr cfg \<and> JWTSecret (Auth_cfg cfg) \<noteq> []
        \<and> NewPool K parse_duration (DB_cfg cfg) hs = (Inr pc, PgPool # hs)
        \<and> NewClient K (Redis_cfg cfg) (PgPool # hs) = (Inr ro, RedisClient # PgPool # hs)
        \<and> start_service (serve_setup parse_float parse_duration env cfg) = Some p \<and> served p = None)))
   \<and> (\<exists>e. newServeCmd_query K parse_duration listen loaded hs = (Failed e, hs))"
proof -
  have "case newServeCmd K parse_float parse_duration env served loaded hs of (out, hs') \<Rightarrow>
     (out \<noteq> Panicked \<longrightarrow> hs' = hs)
   \<and> (out = Done \<longleftrightarrow> (\<exists>cfg pc ro p. loaded = Inr cfg \<and> JWTSecret (Auth_cfg cfg) \<noteq> []
        \<and> NewPool K parse_duration (DB_cfg cfg) hs = (Inr pc, PgPool # hs)
        \<and> NewClient K (Redis_cfg cfg) (PgPool # hs) = (Inr ro, RedisClient # PgPool # hs)
        \<and> start_service (serve_setup parse_float parse_duration env cfg) = Some p \<and> served p = None))"
  proof (cases loaded)
    case (Inr cfg)
    show ?thesis
    proof (cases rule: NewPool_cases [of K parse_duration "DB_cfg cfg" hs])
      case (connected pc)
      then show ?thesis
        by (cases rule: NewClient_cases [of K "Redis_cfg cfg" "PgPool # hs"]) (auto simp: newServeCmd_def Inr split: option.splits)
    qed (auto simp: newServeCmd_def Inr)
  qed (simp add: newServeCmd_def)
  then show ?thesis using newServeCmd_query_result by blast
qed

definition sample_drivers :: "(unit, unit) drivers" where
  "sample_drivers = \<lparr>ParseConfig = (\<lambda>_. Inr \<lparr>pgx_MaxConns = 4, pgx_MinConns = 0, MaxConnLifetime = 3600, MaxConnIdleTime = 1800, pgx_rest = ()\<rparr>),
     NewWithConfig = (\<lambda>_. None), pgx_Ping = (\<lambda>_. None), ParseURL = (\<lambda>_. Inr \<lparr>opt_PoolSize = 0, opt_rest = ()\<rparr>),
     redis_Ping = (\<lambda>_. Some ''connection refused'')\<rparr>"

definition sample_config :: Configuration.Config where
  "sample_config = (applyComputedDefaults 4 default_config)\<lparr>DB_cfg := \<lparr>DB_URL = ''postgres://h/d'', MaxConns = 20, MinConns = 5, ConnLifetime = []\<rparr>,
     Redis_cfg := \<lparr>Redis_URL = ''redis://h'', PoolSize = 10\<rparr>\<rparr>"

text \<open>Redis does not answer: the pool that was already open is closed.\<close>
theorem serve_commands_witness:
  "newServeCmd sample_drivers (\<lambda>_. None) (\<lambda>_. None) (\<lambda>_. []) (\<lambda>_. None) (Inr sample_config) []
     = (Failed (RedisInit (PingErr ''connection refused'')), [])"
proof -
  have "fst (newServeCmd sample_drivers (\<lambda>_. None) (\<lambda>_. None) (\<lambda>_. []) (\<lambda>_. None) (Inr sample_config) [])
      = Failed (RedisInit (PingErr ''connection refused''))" by code_simp
  then show ?thesis
    using serve_commands [where K = sample_drivers and parse_float = "\<lambda>_. None" and parse_duration = "\<lambda>_. None" and env = "\<lambda>_. []"
        and served = "\<lambda>_. None" and loaded = "Inr sample_config" and hs = "[]" and listen = "\<lambda>_ _ _. []"]
    by (simp add: prod_eq_iff case_prod_unfold)
qed

text \<open>What golang-migrate documents: \<open>Up\<close> goes to the last version, \<open>Down\<close> to none,
  \<open>Steps n\<close> moves by \<open>n\<close>, and \<open>ErrNoChange\<close> means that there was nothing to do.\<close>

definition documented :: "'s migrator \<Rightarrow> ('s \<Rightarrow> int) \<Rightarrow> int \<Rightarrow> bool" where
  "documented M version latest \<longleftrightarrow>
     (\<forall>s s'. (mig_Up M s = (None, s') \<longrightarrow> version s' = latest) \<and> (mig_Up M s = (Some ErrNoChange, s') \<longrightarrow> s' = s \<and> version s = latest)
         \<and> (version s = latest \<longrightarrow> mig_Up M s = (Some ErrNoChange, s))
         \<and> (mig_Down M s = (None, s') \<longrightarrow> version s' = 0) \<and> (mig_Down M s = (Some ErrNoChange, s') \<longrightarrow> s' = s \<and> version s = 0)
         \<and> (\<forall>n. mig_Steps M n s = (None, s') \<longrightarrow> version s' = version s + n)
         \<and> (\<forall>n. mig_Steps M n s = (Some ErrNoChange, s') \<longrightarrow> s' = s))"

lemma swallow_None: "swallow w r = (None, s') \<longleftrightarrow> r = (None, s') \<or> r = (Some ErrNoChange, s')"
  by (cases "(w, r)" rule: swallow.cases) auto

text \<open>A successful \<open>up\<close> leaves the newest schema and can be repeated; \<open>down\<close> with
  0 steps removes everything, with \<open>n\<close> it goes back \<open>n\<close> versions (or finds no change);
  a negative number is not refused and migrates up.\<close>

theorem migrate_commands:
  assumes "documented M version latest" and "db_url env flag \<noteq> []"
  shows "newMigrateUpCmd M env flag s = (None, s') \<Longrightarrow> version s' = latest \<and> newMigrateUpCmd M env flag s' = (None, s')"
    and "newMigrateDownCmd M env flag 0 s = (None, s') \<Longrightarrow> version s' = 0"
    and "steps \<noteq> 0 \<Longrightarrow> in_i64 (- steps) \<Longrightarrow> newMigrateDownCmd M env flag steps s = (None, s') \<Longrightarrow> s' = s \<or> version s' = version s - steps"
proof -
  note docs = spec [OF spec [OF assms(1) [unfolded documented_def]]]
  have up: "newMigrator M (db_url env flag) = None" if "newMigrateUpCmd M env flag s = (None, s')"
    using that assms(2) by (auto simp: newMigrateUpCmd_def Up_def split: option.splits)
  show "version s' = latest \<and> newMigrateUpCmd M env flag s' = (None, s')" if u: "newMigrateUpCmd M env flag s = (None, s')"
  proof -
    have "mig_Up M s = (None, s') \<or> mig_Up M s = (Some ErrNoChange, s')"
      using u up [OF u] assms(2) by (simp add: newMigrateUpCmd_def Up_def swallow_None)
    then have "version s' = latest" using docs [of s s'] by blast
    moreover from this have "mig_Up M s' = (Some ErrNoChange, s')" using docs [of s' s'] by blast
    ultimately show ?thesis using up [OF u] assms(2) by (simp add: newMigrateUpCmd_def Up_def)
  qed
  show "version s' = 0" if "newMigrateDownCmd M env flag 0 s = (None, s')"
    using that assms(2) docs [of s s'] by (auto simp: newMigrateDownCmd_def Down_def swallow_None split: option.splits)
  show "s' = s \<or> version s' = version s - steps"
    if "steps \<noteq> 0" "in_i64 (- steps)" "newMigrateDownCmd M env flag steps s = (None, s')"
    using that assms(2) docs [of s s'] by (auto simp: newMigrateDownCmd_def Down_def swallow_None split: option.splits)
qed

end
