(* ===== verification/Metrics.thy ===== *)
theory Metrics
  imports Ingest_API Flush Observations
begin

text \<open>
  The Prometheus metrics of \<^verbatim>\<open>internal/metrics/metrics.go\<close> and the places that move them: the
  logging middleware of the ingest service, \<open>Enqueue\<close> and \<open>doFlush\<close> of the worker pool,
  \<open>upsertConferences\<close> and \<open>insertObservationIfNew\<close>.

  A counter vector is a function from label values to counts, a gauge a number, a histogram the list
  of the values it observed, from which the cumulative buckets are computed.  The instrumented
  operations are written beside the plain ones of the other theories, which they refine: dropping
  the registry from an instrumented run gives a plain run.
\<close>

subsection \<open>The registry\<close>

record Registry =
  IngestRequestsTotal :: "string \<Rightarrow> nat"
  IngestChannelDepth :: nat
  WorkerFlushDuration :: "rat list"
  WorkerFlushBatchSize :: "rat list"
  ConferencesTotal :: "string \<Rightarrow> nat"
  ObservationsTriggeredTotal :: "string \<Rightarrow> nat"

definition new_registry :: Registry where
  "new_registry = \<lparr>IngestRequestsTotal = (\<lambda>_. 0), IngestChannelDepth = 0, WorkerFlushDuration = [], WorkerFlushBatchSize = [],
     ConferencesTotal = (\<lambda>_. 0), ObservationsTriggeredTotal = (\<lambda>_. 0)\<rparr>"

definition WorkerFlushDuration_buckets :: "rat list" where
  "WorkerFlushDuration_buckets = [5 / 1000, 1 / 100, 25 / 1000, 5 / 100, 1 / 10, 25 / 100, 1 / 2, 1, 2]"

definition WorkerFlushBatchSize_buckets :: "rat list" where
  "WorkerFlushBatchSize_buckets = [1, 10, 50, 100, 250, 500]"

definition bucket_counts :: "rat list \<Rightarrow> rat list \<Rightarrow> nat list" where
  "bucket_counts buckets observed = map (\<lambda>b. length (filter (\<lambda>x. x \<le> b) observed)) buckets"

definition Inc :: "string \<Rightarrow> (string \<Rightarrow> nat) \<Rightarrow> string \<Rightarrow> nat" where
  "Inc label c = c(label := Suc (c label))"

lemma bucket_counts_mono:
  assumes "sorted buckets" and "i \<le> j" and "j < length buckets"
  shows "bucket_counts buckets xs ! i \<le> bucket_counts buckets xs ! j"
proof -
  have "buckets ! i \<le> buckets ! j" using assms by (simp add: sorted_nth_mono)
  then have "length (filter (\<lambda>x. x \<le> buckets ! i) xs) \<le> length (filter (\<lambda>x. x \<le> buckets ! j) xs)"
    by (induction xs) auto
  then show ?thesis using assms(2,3) by (simp add: bucket_counts_def)
qed

subsection \<open>Requests\<close>

definition statusClass :: "nat \<Rightarrow> string" where
  "statusClass st = (if 500 \<le> st then ''5xx'' else if 400 \<le> st then ''4xx'' else ''2xx'')"

definition loggingMiddleware :: "('q \<Rightarrow> 's \<Rightarrow> 'a resp \<times> 's) \<Rightarrow> 'q \<Rightarrow> 's \<times> Registry \<Rightarrow> 'a resp \<times> 's \<times> Registry" where
  "loggingMiddleware handler r sm =
     (case handler r (fst sm) of (rep, s') \<Rightarrow>
        (rep, s', (snd sm)\<lparr>IngestRequestsTotal := Inc (statusClass (status rep)) (IngestRequestsTotal (snd sm))\<rparr>))"

fun requests :: "('q \<Rightarrow> 's \<Rightarrow> 'a resp \<times> 's) \<Rightarrow> 'q list \<Rightarrow> 's \<times> Registry \<Rightarrow> 'a resp list \<times> 's \<times> Registry" where
  "requests handler [] sm = ([], sm)"
| "requests handler (r # rs) sm =
     (case loggingMiddleware handler r sm of (rep, sm') \<Rightarrow> case requests handler rs sm' of (reps, sm'') \<Rightarrow> (rep # reps, sm''))"

text \<open>Each answer is counted under its class, and under no other label.\<close>

lemma requests_counted:
  "requests handler rs (s, m) = (reps, s', m')
    \<Longrightarrow> IngestRequestsTotal m' l = IngestRequestsTotal m l + length (filter (\<lambda>rep. statusClass (status rep) = l) reps)"
proof (induction rs arbitrary: s m reps)
  case (Cons r rs)
  obtain rep s1 where h: "handler r s = (rep, s1)" by fastforce
  obtain reps1 where q: "requests handler rs (s1, m\<lparr>IngestRequestsTotal := Inc (statusClass (status rep)) (IngestRequestsTotal m)\<rparr>) = (reps1, s', m')"
      "reps = rep # reps1"
    using Cons.prems h by (auto simp: loggingMiddleware_def split: prod.splits)
  show ?case using Cons.IH [OF q(1)] by (auto simp: q(2) Inc_def)
qed simp

lemma class_lengths:
  "length (filter (\<lambda>rep. statusClass (status rep) = ''2xx'') reps) + length (filter (\<lambda>rep. statusClass (status rep) = ''4xx'') reps)
     + length (filter (\<lambda>rep. statusClass (status rep) = ''5xx'') reps) = length reps"
  by (induction reps) (auto simp: statusClass_def)

lemma requests_length: "requests handler rs sm = (reps, sm') \<Longrightarrow> length reps = length rs"
  by (induction rs arbitrary: sm reps) (auto split: prod.splits)

text \<open>The three classes of the ingest service add up to the number of requests served.\<close>

theorem request_count:
  assumes "requests (\<lambda>(ft, now, r). ServeHTTP srv ft now r) rs (s, m) = (reps, s', m')"
  shows "IngestRequestsTotal m' ''2xx'' + IngestRequestsTotal m' ''4xx'' + IngestRequestsTotal m' ''5xx''
       = IngestRequestsTotal m ''2xx'' + IngestRequestsTotal m ''4xx'' + IngestRequestsTotal m ''5xx'' + length rs"
  using requests_counted [OF assms, of "''2xx''"] requests_counted [OF assms, of "''4xx''"] requests_counted [OF assms, of "''5xx''"]
    class_lengths [of reps] requests_length [OF assms]
  by linarith

subsection \<open>The worker pool\<close>

definition set_depth :: "'p Pool \<Rightarrow> Registry \<Rightarrow> Registry" where
  "set_depth p m = m\<lparr>IngestChannelDepth := length (ch p)\<rparr>"

definition observe_flush :: "rat \<Rightarrow> 'p list \<Rightarrow> Registry \<Rightarrow> Registry" where
  "observe_flush dur batch m =
     m\<lparr>WorkerFlushDuration := WorkerFlushDuration m @ [dur], WorkerFlushBatchSize := WorkerFlushBatchSize m @ [of_nat (length batch)]\<rparr>"

text \<open>The steps of the pool with what they record.  \<open>len(p.ch)\<close> is read after the send, or after the
  flush, so workers may have taken items in between: reading the depth is a step of its own.  A
  step that called \<open>flushFn\<close> has appended one batch to \<open>flushes\<close>.\<close>

inductive metered_step :: "Worker.Config \<Rightarrow> 'p Pool \<times> Registry \<Rightarrow> 'p Pool \<times> Registry \<Rightarrow> bool" for cfg where
  quiet: "pool_step cfg p q \<Longrightarrow> flushes q = flushes p \<Longrightarrow> metered_step cfg (p, m) (q, m)"
| flushed: "pool_step cfg p q \<Longrightarrow> flushes q = flushes p @ [batch] \<Longrightarrow> metered_step cfg (p, m) (q, observe_flush dur batch m)"
| depth: "metered_step cfg (p, m) (p, set_depth p m)"

inductive metered_reach :: "Worker.Config \<Rightarrow> 'p Pool \<times> Registry \<Rightarrow> bool" for cfg where
  start: "New cfg = Some p \<Longrightarrow> metered_reach cfg (p, new_registry)"
| go: "metered_reach cfg x \<Longrightarrow> metered_step cfg x y \<Longrightarrow> metered_reach cfg y"

lemma pool_step_flushes: "pool_step cfg p q \<Longrightarrow> flushes q = flushes p \<or> (\<exists>b. flushes q = flushes p @ [b])"
  by (erule pool_step.cases) (auto simp: Enqueue_def Shutdown_def worker_ops)

text \<open>Every step of the pool has a metered counterpart, and a metered run is a run of the pool.\<close>

lemma metered_total: "pool_step cfg p q \<Longrightarrow> \<exists>m'. metered_step cfg (p, m) (q, m')"
  using pool_step_flushes metered_step.quiet metered_step.flushed by blast

lemma metered_pool: "metered_reach cfg x \<Longrightarrow> pool_reach cfg (fst x)"
  by (induction rule: metered_reach.induct) (auto elim!: metered_step.cases intro: reach_new reach_step)

lemma New_empty: "New cfg = Some p \<Longrightarrow> flushes p = [] \<and> ch p = [] \<and> 0 \<le> ChannelCap cfg"
  by (auto simp: New_def split: if_splits)

lemma metered_inv:
  "metered_reach cfg x \<Longrightarrow> WorkerFlushBatchSize (snd x) = map (of_nat \<circ> length) (flushes (fst x))
     \<and> length (WorkerFlushDuration (snd x)) = length (flushes (fst x)) \<and> int (IngestChannelDepth (snd x)) \<le> ChannelCap cfg"
proof (induction rule: metered_reach.induct)
  case (start p)
  then show ?case using New_empty [OF start] by (simp add: new_registry_def)
next
  case (go x y)
  have "int (length (ch (fst x))) \<le> ChannelCap cfg" using pool_reach_inv [OF metered_pool [OF go(1)]] by (simp add: pool_inv_def)
  with go(2) go.IH show ?case by (cases rule: metered_step.cases) (auto simp: observe_flush_def set_depth_def)
qed

text \<open>(C40) The metrics of the worker pool tell the truth.  In every run the depth gauge stays within the
  channel's capacity, each flush is observed once by both histograms, every observed batch size lies
  between 1 and the batch size, and once \<open>Shutdown\<close> has returned the observed sizes add up to the
  number of payloads ever accepted.\<close>
theorem worker_metrics:
  assumes "metered_reach cfg (p, m)"
  shows "int (IngestChannelDepth m) \<le> ChannelCap cfg
   \<and> length (WorkerFlushDuration m) = length (flushes p) \<and> WorkerFlushBatchSize m = map (of_nat \<circ> length) (flushes p)
   \<and> (\<forall>x \<in> set (WorkerFlushBatchSize m). 1 \<le> x \<and> x \<le> of_int (max 1 (BatchSize cfg)))
   \<and> (Shutdown_returned p \<and> 0 < WorkerCount cfg \<longrightarrow> sum_list (WorkerFlushBatchSize m) = of_nat (length (accepted p)))"
proof -
  have inv: "WorkerFlushBatchSize m = map (of_nat \<circ> length) (flushes p)" "length (WorkerFlushDuration m) = length (flushes p)"
    "int (IngestChannelDepth m) \<le> ChannelCap cfg" using metered_inv [OF assms] by simp_all
  have pi: "pool_inv cfg p" using pool_reach_inv [OF metered_pool [OF assms]] by simp
  have sum: "sum_list (map (of_nat \<circ> length) bs) = (of_nat (length (concat bs)) :: rat)" for bs :: "'a list list" by (induction bs) auto
  have "sum_list (WorkerFlushBatchSize m) = of_nat (length (accepted p))" if "Shutdown_returned p" "0 < WorkerCount cfg"
    using arg_cong [OF returned_flushed [OF pi that(2,1)], of size] by (simp add: inv(1) sum)
  moreover have "1 \<le> x \<and> x \<le> of_int (max 1 (BatchSize cfg))" if "x \<in> set (WorkerFlushBatchSize m)" for x
  proof -
    from that inv(1) obtain b where b: "b \<in> set (flushes p)" "x = of_nat (length b)" by auto
    then have "1 \<le> length b" "int (length b) \<le> max 1 (BatchSize cfg)"
      using pi by (auto simp: pool_inv_def max_batch_def Suc_le_eq)
    then have "of_int 1 \<le> (of_int (int (length b)) :: rat)" "(of_int (int (length b)) :: rat) \<le> of_int (max 1 (BatchSize cfg))"
      by (simp_all only: of_int_le_iff)
    then show ?thesis using b(2) by simp
  qed
  ultimately show ?thesis using inv by blast
qed

lemma metered_exists: "pool_reach cfg p \<Longrightarrow> \<exists>m. metered_reach cfg (p, m)"
proof (induction rule: pool_reach.induct)
  case (reach_step p q)
  then show ?case using metered_total metered_reach.go by blast
qed (blast intro: metered_reach.start)

theorem worker_metrics_witness:
  "\<exists>(p :: nat Pool) m. metered_reach sample_cfg (p, m) \<and> Shutdown_returned p \<and> sum_list (WorkerFlushBatchSize m) = 1"
proof -
  have "Pool.closed (Shutdown sample_pool)" by (simp add: Shutdown_def)
  then obtain q where q: "(pool_step sample_cfg)\<^sup>*\<^sup>* (Shutdown sample_pool) q" "Shutdown_returned q" "accepted q = accepted (Shutdown sample_pool)"
    using closed_drains by blast
  have "pool_reach sample_cfg q" by (rule pool_reach_steps [OF q(1) reach_step [OF sample_pool_reach pool_step.shutdown]])
  then obtain m where m: "metered_reach sample_cfg (q, m)" using metered_exists by blast
  have "length (accepted q) = 1" using q(3) by (simp add: Shutdown_def sample_pool_def)
  moreover have "0 < WorkerCount sample_cfg" by (simp add: sample_cfg_def)
  ultimately have "sum_list (WorkerFlushBatchSize m) = of_nat 1" using worker_metrics [OF m] q(2) by metis
  then have "sum_list (WorkerFlushBatchSize m) = 1" by simp
  then show ?thesis using m q(2) by blast
qed

subsection \<open>Conferences\<close>

text \<open>\<open>upsertConferences\<close> with its counter; \<open>isNew\<close> is whether the statement inserted a row.
  The counter is not part of the transaction and keeps its value when the flush fails.\<close>

fun metered_upsertConferences ::
  "faults \<Rightarrow> instant \<Rightarrow> (int \<times> string) list \<Rightarrow> (string \<rightharpoonup> int) \<Rightarrow> database \<Rightarrow> IngestPayload list \<Rightarrow> (string \<Rightarrow> nat)
     \<Rightarrow> (flush_error + (database \<times> (string \<rightharpoonup> int))) \<times> (string \<Rightarrow> nat)" where
  "metered_upsertConferences ft now seen result d [] c = (Inr (d, result), c)"
| "metered_upsertConferences ft now seen result d (p # ps) c =
     (case ParseInt (AppID p) of
        None \<Rightarrow> (Inl (InvalidAppID (AppID p)), c)
      | Some appID \<Rightarrow>
          if (appID, ConferenceID p) \<in> set seen then metered_upsertConferences ft now seen result d ps c
          else case conferenceStmt ft now appID (ConferenceID p) d of
            Inl e \<Rightarrow> (Inl e, c)
          | Inr (d', dbID) \<Rightarrow>
              metered_upsertConferences ft now ((appID, ConferenceID p) # seen) (result(ConferenceID p \<mapsto> dbID)) d' ps
                (if length (conferences d') \<noteq> length (conferences d) then Inc (AppID p) c else c))"

definition metered_flush ::
  "faults \<Rightarrow> instant \<Rightarrow> IngestPayload list \<Rightarrow> Flusher \<Rightarrow> database \<Rightarrow> (string \<Rightarrow> nat) \<Rightarrow> (flush_error option \<times> Flusher \<times> database) \<times> (string \<Rightarrow> nat)" where
  "metered_flush ft now batch f d c =
     (flush ft now batch f d, if ft ''begin tx'' then c else snd (metered_upsertConferences ft now [] Map.empty d batch c))"

text \<open>Without the counter it is \<open>upsertConferences\<close>.\<close>

lemma metered_upsertConferences_plain:
  "fst (metered_upsertConferences ft now seen result d ps c)
     = upsert_all conf_seen ConferenceID (\<lambda>p. conferenceStmt ft now (app_of p) (ConferenceID p)) seen result d ps"
  by (induction ps arbitrary: seen result d c)
     (auto simp: conf_seen_def parse_app_def app_of_def split: option.splits sum.splits)

lemma conferenceStmt_length:
  "conferenceStmt ft now app ext d = Inr (d', i) \<Longrightarrow> length (conferences d') = length (conferences d) \<or> length (conferences d') = Suc (length (conferences d))"
  by (auto simp: conferenceStmt_def insert_or_select_def upsert_def split: option.splits if_splits prod.splits)

lemma sum_Inc: "finite A \<Longrightarrow> l \<in> A \<Longrightarrow> (\<Sum>x\<in>A. Inc l c x) = Suc (\<Sum>x\<in>A. c x)"
proof -
  assume A: "finite A" "l \<in> A"
  have "(\<Sum>x\<in>A. Inc l c x) = Inc l c l + (\<Sum>x\<in>A - {l}. Inc l c x)" using A by (rule sum.remove)
  also have "(\<Sum>x\<in>A - {l}. Inc l c x) = (\<Sum>x\<in>A - {l}. c x)" by (rule sum.cong) (auto simp: Inc_def)
  also have "Inc l c l + \<dots> = Suc (c l + (\<Sum>x\<in>A - {l}. c x))" by (simp add: Inc_def)
  also have "c l + (\<Sum>x\<in>A - {l}. c x) = (\<Sum>x\<in>A. c x)" using A by (simp add: sum.remove)
  finally show ?thesis .
qed

lemma metered_count:
  assumes "finite A" and "metered_upsertConferences ft now seen result d ps c = (Inr (d', r), c')" and "AppID ` set ps \<subseteq> A"
  shows "(\<Sum>l\<in>A. c' l) + length (conferences d) = (\<Sum>l\<in>A. c l) + length (conferences d')"
  using assms(2,3)
proof (induction ps arbitrary: seen result d c)
  case (Cons p ps)
  obtain a where a: "ParseInt (AppID p) = Some a" using Cons.prems(1) by (auto split: option.splits)
  show ?case
  proof (cases "(a, ConferenceID p) \<in> set seen")
    case True
    then show ?thesis using Cons a by simp
  next
    case False
    then obtain d1 i where s: "conferenceStmt ft now a (ConferenceID p) d = Inr (d1, i)" using Cons.prems(1) a by (auto split: sum.splits)
    let ?c = "if length (conferences d1) \<noteq> length (conferences d) then Inc (AppID p) c else c"
    have "metered_upsertConferences ft now ((a, ConferenceID p) # seen) (result(ConferenceID p \<mapsto> i)) d1 ps ?c = (Inr (d', r), c')"
      using Cons.prems(1) a False s by simp
    from Cons.IH [OF this] Cons.prems(2) have "(\<Sum>l\<in>A. c' l) + length (conferences d1) = (\<Sum>l\<in>A. ?c l) + length (conferences d')" by simp
    moreover have "(\<Sum>l\<in>A. ?c l) + length (conferences d) = (\<Sum>l\<in>A. c l) + length (conferences d1)"
      using conferenceStmt_length [OF s] sum_Inc [OF assms(1), of "AppID p" c] Cons.prems(2) by auto
    ultimately show ?thesis by linarith
  qed
qed simp

lemma upsert_all_keeps:
  assumes "\<And>p d d' i. stmt p d = Inr (d', i) \<Longrightarrow> g d' = g d"
  shows "upsert_all seen_key rkey stmt seen result d ps = Inr (d', r) \<Longrightarrow> g d' = g d"
proof (induction ps arbitrary: seen result d)
  case (Cons p ps)
  then show ?case using assms by (auto split: sum.splits if_splits)
qed simp

lemma later_upserts_keep:
  "upsertParticipants ft now batch confIDs d = Inr (d', m) \<Longrightarrow> conferences d' = conferences d"
  "upsertSessions ft batch partIDs confIDs d = Inr (d', m) \<Longrightarrow> conferences d' = conferences d"
  "upsertConnections ft batch sessIDs d = Inr (d', m) \<Longrightarrow> conferences d' = conferences d"
  unfolding upsertParticipants_def upsertSessions_def upsertConnections_def Let_def
  by (erule upsert_all_keeps [rotated],
      auto simp: participantStmt_def sessionStmt_def connectionStmt_def split: option.splits)+

text \<open>A flush that commits has counted exactly the conferences it created; one that is rolled back at
  the commit has counted them too, although the database does not have them.\<close>

theorem conferences_total:
  assumes "metered_flush ft now batch f d c = ((None, f', d'), c')" and "db_ok d"
  shows "(\<Sum>l\<in>AppID ` set batch. c' l) + length (conferences d) = (\<Sum>l\<in>AppID ` set batch. c l) + length (conferences d')"
proof -
  have fl: "flush ft now batch f d = (None, f', d')" using assms(1) by (simp add: metered_flush_def)
  then obtain d4 connIDs where 4: "flush_entities ft now batch d = Inr (d4, connIDs)" by (auto simp: flush_def split: sum.splits)
  have d': "conferences d' = conferences d4"
    using fl unfolding flush_built [OF 4 assms(2)] case_prod_unfold Let_def by (auto split: if_splits)
  from 4 have nb: "\<not> ft ''begin tx''" by (auto simp: flush_entities_def)
  from 4 nb obtain d1 confIDs d2 partIDs d3 sessIDs where
    u: "upsertConferences ft now batch d = Inr (d1, confIDs)" "upsertParticipants ft now batch confIDs d1 = Inr (d2, partIDs)"
       "upsertSessions ft batch partIDs confIDs d2 = Inr (d3, sessIDs)" "upsertConnections ft batch sessIDs d3 = Inr (d4, connIDs)"
    by (auto simp: flush_entities_def split: sum.splits)
  have "metered_upsertConferences ft now [] Map.empty d batch c = (Inr (d1, confIDs), c')"
    using u(1) metered_upsertConferences_plain [of ft now "[]" Map.empty d batch c] assms(1) nb
    by (simp add: upsertConferences_def metered_flush_def prod_eq_iff)
  from metered_count [OF _ this] show ?thesis using later_upserts_keep(1) [OF u(2)] later_upserts_keep(2) [OF u(3)] later_upserts_keep(3) [OF u(4)] d' by simp
qed

lemma conferences_total_rolled_back:
  "case metered_flush (\<lambda>l. l = ''commit'') 5 [sample_payload ''7'' ''u'' 1000] (New_Flusher None Map.empty) sample_db (\<lambda>_. 0) of
     ((e, f, d), c) \<Rightarrow> e = Some CommitErr \<and> conferences d = [] \<and> c ''7'' = 1"
  by code_simp

subsection \<open>Observations\<close>

definition metered_insertObservation ::
  "faults \<Rightarrow> database \<Rightarrow> int \<Rightarrow> Observation \<Rightarrow> (string \<Rightarrow> nat) \<Rightarrow> (job_error option \<times> database) \<times> (string \<Rightarrow> nat)" where
  "metered_insertObservation ft d connectionID obs c =
     (insertObservationIfNew ft d connectionID obs,
      if ft ''emos: check duplicate'' \<or> observation_exists d connectionID obs \<or> ft ''emos: insert observation'' then c
      else Inc (RuleName obs) c)"

text \<open>For a connection that exists, the counter of the rule moves exactly with the events.\<close>

lemma observations_counted:
  assumes "metered_insertObservation ft d connectionID obs c = ((e, d'), c')" and "connectionID \<in> conn_id ` set (connections d)"
  shows "c' (RuleName obs) + length (events d) = c (RuleName obs) + length (events d') \<and> (\<forall>l. l \<noteq> RuleName obs \<longrightarrow> c' l = c l)"
proof -
  have "List.find (\<lambda>c. conn_id c = connectionID) (connections d) \<noteq> None" using assms(2) by (auto simp: find_None_iff)
  then show ?thesis using assms(1)
    by (auto simp: metered_insertObservation_def insertObservationIfNew_def Inc_def split: if_splits option.splits)
qed

end
