(* ===== verification/Spec2Isabelle.thy ===== *)
theory Spec2Isabelle
  imports Worker Flush Emos_Compute Emos_Rules Observations Session Ingest_API Stale Retention Configuration System Serve Startup Metrics
begin

text \<open>
  RTCMon collects WebRTC statistics from browsers and servers, stores them in PostgreSQL, rates the
  quality of every conference and shows the result on a dashboard.  This development models the Go
  code of its two services and proves what makes it correct.

  \<^bold>\<open>The program.\<close>  The ingest service (\<^verbatim>\<open>services/ingest-api\<close>) authenticates a request
  (JWT or signed API key), limits its rate, validates the payload and puts it on the channel of a
  worker pool; the workers gather batches and flush each in one transaction, or write it to a
  dead-letter file.  Ending a conference, by request or by the stale-conference job, queues it for
  the eMOS job, which computes quality scores and observations.  A nightly job removes old data.
  The query service (\<^verbatim>\<open>services/query-api\<close>) answers the dashboard: log-in and sessions,
  organizations, members and invitations, applications and keys, conference lists and details,
  cached analytics, share links.  Both share the database and Redis.

  \<^bold>\<open>The theories.\<close>
    \<^item> Language and library: \<open>Prelude\<close> (integers of fixed width, replies, faults, lemmas on
      lists and maps), \<open>GoStd\<close> (formatting, parsing, base64, hex), \<open>GoFloat\<close>
      (\<open>float64\<close> and \<open>float32\<close> as rounded rationals), \<open>GoTime\<close>, \<open>GoRFC3339\<close>.
    \<^item> Data: \<open>Model\<close> (\<^verbatim>\<open>internal/model\<close>), \<open>Database\<close> (the tables with the keys and
      references the migrations declare, as a record of lists, and the invariant \<open>db_ok\<close>),
      \<open>Dashboard\<close> (the tables of users and organizations), \<open>Redis_KV\<close> (keys with expiry).
    \<^item> Ingest: \<open>Worker\<close> (\<^verbatim>\<open>internal/worker\<close>), \<open>Upsert\<close> and \<open>Flush\<close>
      (\<^verbatim>\<open>internal/ingest\<close>), \<open>Auth\<close> (\<^verbatim>\<open>internal/auth\<close>), \<open>RateLimit\<close>
      (\<^verbatim>\<open>internal/ratelimit\<close>), \<open>Ingest_API\<close> (handlers and router), \<open>Metrics\<close>
      (\<^verbatim>\<open>internal/metrics\<close> and the statements that move the six metrics).
    \<^item> Quality: \<open>Emos_Compute\<close>, \<open>Emos_Rules\<close>, \<open>Observations\<close>
      (\<^verbatim>\<open>internal/emos\<close>).
    \<^item> Background jobs: \<open>Stale\<close>, \<open>Retention\<close> (one pass each), \<open>Jobs\<close> (their
      goroutines), \<open>Serve\<close> (the ingest process until it exits).
    \<^item> Start-up: \<open>Configuration\<close> (\<^verbatim>\<open>internal/config\<close>), \<open>Startup\<close> (the commands
      of both services, migrations, connections).
    \<^item> Query: \<open>Session\<close> (\<^verbatim>\<open>internal/session\<close>), \<open>Accounts\<close>, \<open>Team\<close>,
      \<open>Apps\<close>, \<open>Detail\<close>, \<open>Share\<close>, \<open>Reports\<close>, \<open>Analytics\<close> (one per group of
      \<^verbatim>\<open>handler/*.go\<close>), \<open>Query_API\<close> (routes, middlewares, dispatch).
    \<^item> Whole system: \<open>System\<close> (all writers on one database) and this theory (the way of a
      payload from acceptance to the database, and from there to the dashboard).

  \<^bold>\<open>How code becomes definitions.\<close>  A struct is a record, a handler a function from request and
  state to reply and state, with one branch for every early return.  A database statement is a
  function on the tables; a call that can fail does so when the fault predicate \<open>ft\<close> names it,
  so theorems quantify over all failures.  A transaction returns the old tables when it is rolled
  back.  Concurrency is a step relation: \<open>pool_step\<close> (workers, enqueuers, shutdown),
  \<open>stale_step\<close>, \<open>retention_step\<close>, \<open>serve_step\<close> (all goroutines of the ingest process),
  \<open>System.step\<close> (transactions of all writers).  Third-party code (bcrypt, AES-GCM, JWT parsing,
  chi's matching, pgx, go-redis, golang-migrate, viper) is a parameter with its documented behaviour
  as hypothesis where a theorem needs it.

  \<^bold>\<open>The interfaces.\<close>  Locales \<open>upsert_contract\<close> (what the four upsert loops need of their
  statement), \<open>enqueue_fn\<close> and \<open>ingest_queue\<close> (the pool as the handlers see it),
  \<open>zset_server\<close> and \<open>kv_server\<close> (Redis as the rate limiter and the session, nonce and cache
  code use it), \<open>rounding\<close> (of floats) and \<open>stoppable\<close> (a background job that can be told to
  stop); each is interpreted on the definitions of the model.

  \<^bold>\<open>What is shown.\<close> No accepted payload is lost or duplicated, from \<open>Enqueue\<close> through the workers
  and shutdown to the database or a dead-letter file; every event of a committed batch is shown by
  the statistics endpoint to the sessions of its owner and, while the cache holds no answer, to no
  others; a flush is atomic and its success is characterised; the tables keep their keys and
  references under every writer; the rules report exactly the maximal runs; eMOS values and outcomes
  keep their ranges; the rate limiter lets through exactly what a sliding window allows;
  authentication accepts exactly the requests its conditions name; a session of one organization
  leaves the data of every other alone; the conference detail built with pointers into growing
  slices is the intended tree; the metrics of the workers agree with what they did; shutdown
  completes. Several theorems state where the code falls short: the cache that is read before the
  ownership check, the invitation that opens the account of an existing user, the share view that
  always redirects, the last administrator lost to a race, the replay with changed letter case.

  \<^bold>\<open>Bounds.\<close>  No definition uses fuel: every loop is structural or has a termination proof, and
  what may run forever is a step relation with a theorem that it can reach its end.  Integers wrap at
  their width where the code computes with them.

  \<^bold>\<open>Not modelled.\<close>  Logging, the swagger pages (generated), the exposition of the metrics, the test
  utilities, the embedded migration texts and cobra's command tree: they carry no state of the
  program.  Infinite floats and NaN do not occur in the inputs the model admits (JSON cannot carry
  them).  PostgreSQL's isolation is serial except where a theorem interleaves statements explicitly.
\<close>

subsection \<open>What reaches the flush function\<close>

lemma valid_payload_stamp [simp]:
  "valid_payload (p\<lparr>AppID := a, UserID := u\<rparr>) = valid_payload p" "valid_payload (p\<lparr>AppID := a, Source := src\<rparr>) = valid_payload p"
  by (simp_all add: valid_payload_def)

lemma HandleEvents_effect:
  "snd (HandleEvents enq claims body w) = w \<or> (\<exists>q. valid_payload q \<and> snd (HandleEvents enq claims body w) = snd (enq q w))"
proof (cases "\<exists>p. body = Some p \<and> valid_payload p")
  case True
  then obtain p where p: "body = Some p" "valid_payload p" by blast
  let ?q = "p\<lparr>AppID := CAppID claims, UserID := CUserID claims\<rparr>"
  have "snd (HandleEvents enq claims body w) = snd (enq ?q w)"
    using p by (auto simp: HandleEvents_def validatePayload_None [THEN iffD2] split: prod.splits option.splits worker_error.splits)
  then show ?thesis using p by (intro disjI2 exI [of _ ?q]) simp
qed (auto simp: HandleEvents_def validatePayload_None split: option.splits)

lemma HandleServerEvents_effect:
  "snd (HandleServerEvents enq (Some sc) body w) = w \<or> (\<exists>q. valid_payload q \<and> snd (HandleServerEvents enq (Some sc) body w) = snd (enq q w))"
proof (cases "\<exists>p. body = Some p \<and> valid_payload p")
  case True
  then obtain p where p: "body = Some p" "valid_payload p" by blast
  let ?q = "p\<lparr>AppID := FormatInt (SAppID sc), Source := ''server''\<rparr>"
  have "snd (HandleServerEvents enq (Some sc) body w) = snd (enq ?q w)"
    using p by (auto simp: HandleServerEvents_def validatePayload_None [THEN iffD2] split: prod.splits option.splits worker_error.splits)
  then show ?thesis using p by (intro disjI2 exI [of _ ?q]) simp
qed (auto simp: HandleServerEvents_def validatePayload_None split: option.splits)

text \<open>A request leaves the queue as it is or makes one call of the enqueue function.\<close>

definition one_call :: "(IngestPayload \<Rightarrow> 'w \<Rightarrow> worker_error option \<times> 'w) \<Rightarrow> 'w \<Rightarrow> 'w \<Rightarrow> bool" where
  "one_call enq w w' \<longleftrightarrow> w' = w \<or> (\<exists>q. valid_payload q \<and> w' = snd (enq q w))"

lemma jwt_group_queue: "one_call (srv_enqueue srv) (queue s) (queue (snd (jwt_group srv ft now ep r s)))"
proof (cases ep)
  case Events_ep
  then show ?thesis using HandleEvents_effect [of "srv_enqueue srv" _ "decoded r" "queue s"]
    by (simp add: jwt_group_def one_call_def split: sum.split prod.split option.split) (metis snd_conv)
next
  case (End_ep ext)
  then show ?thesis by (simp add: jwt_group_def one_call_def split: sum.split prod.split option.split)
qed

lemma server_group_queue: "one_call (srv_enqueue srv) (queue s) (queue (snd (server_group srv ft now ep r s)))"
proof (cases ep)
  case Events_ep
  then show ?thesis using HandleServerEvents_effect [of "srv_enqueue srv" _ "decoded r" "queue s"]
    by (simp add: server_group_def one_call_def split: sum.split prod.split option.split) (metis snd_conv)
next
  case (End_ep ext)
  then show ?thesis by (simp add: server_group_def one_call_def split: sum.split prod.split option.split)
qed

lemma ServeHTTP_queue: "one_call (srv_enqueue srv) (queue s) (queue (snd (Ingest_API.ServeHTTP srv ft now r s)))"
  using jwt_group_queue [of srv s ft now _ r] server_group_queue [of srv s ft now _ r]
  by (simp add: Ingest_API.ServeHTTP_def split: route.split) (simp add: one_call_def)

text \<open>Requests in any order, interleaved with the workers of a pool with a buffered channel (with an
  unbuffered one a send succeeds only while a worker waits, which \<open>Enqueue\<close> of one call cannot see).\<close>

inductive ingest_run ::
  "(IngestPayload Pool, 'z, 'k) Ingest_API.Server \<Rightarrow> Worker.Config \<Rightarrow> (IngestPayload Pool, 'z, 'k) service \<Rightarrow> bool" for srv cfg where
  start: "0 < ChannelCap cfg \<Longrightarrow> New cfg = Some (queue s) \<Longrightarrow> ingest_run srv cfg s"
| request: "ingest_run srv cfg s \<Longrightarrow> ingest_run srv cfg (snd (Ingest_API.ServeHTTP srv ft now r s))"
| worker: "ingest_run srv cfg s \<Longrightarrow> pool_step cfg (queue s) q \<Longrightarrow> accepted q = accepted (queue s) \<Longrightarrow> ingest_run srv cfg (s\<lparr>queue := q\<rparr>)"

lemma ingest_run_inv:
  assumes "ingest_run srv cfg s" and "srv_enqueue srv = Enqueue cfg"
  shows "pool_reach cfg (queue s) \<and> (\<forall>x \<in> set (accepted (queue s)). valid_payload x)"
  using assms(1)
proof induction
  case (start s)
  have "accepted (queue s) = []" using start by (auto simp: New_def split: if_splits dest!: sym [of _ "queue s"])
  then show ?case using reach_new [OF start(2)] by simp
next
  case (request s ft now r)
  from ServeHTTP_queue [of srv s ft now r] show ?case
    unfolding one_call_def assms(2)
  proof
    assume "\<exists>q. valid_payload q \<and> queue (snd (Ingest_API.ServeHTTP srv ft now r s)) = snd (Enqueue cfg q (queue s))"
    then obtain q where q: "valid_payload q" "queue (snd (Ingest_API.ServeHTTP srv ft now r s)) = snd (Enqueue cfg q (queue s))" by blast
    have "set (accepted (snd (Enqueue cfg q (queue s)))) \<subseteq> insert q (set (accepted (queue s)))" by (auto simp: Enqueue_def)
    then show ?thesis using request.IH q(1) reach_step [OF _ pool_step.enqueue, of cfg "queue s" q] unfolding q(2) by blast
  qed (use request.IH in simp)
next
  case (worker s q)
  then show ?case using reach_step by (metis service.select_convs(1) service.surjective service.update_convs(1))
qed


text \<open>One browser request, taken by the worker and flushed at the next tick.\<close>

definition sample_taken :: "(IngestPayload Pool, zstore, string kv_store) service" where
  "sample_taken = snd (Ingest_API.ServeHTTP sample_server (\<lambda>_. False) 5 sample_http sample_service)"


subsection \<open>From acceptance to the database\<close>

text \<open>The flush function \<^verbatim>\<open>main.go\<close> gives the pool is \<open>flusher.Flush\<close>: the recorded
  calls, each with the faults and the time it meets.\<close>

fun flush_all :: "(faults \<times> instant) list \<Rightarrow> IngestPayload list list \<Rightarrow> Flusher \<Rightarrow> database \<Rightarrow> Flusher \<times> database" where
  "flush_all ((ft, now) # envs) (batch # batches) f d = (case Flush ft now batch f d of (f', d') \<Rightarrow> flush_all envs batches f' d')"
| "flush_all _ _ f d = (f, d)"

text \<open>Every batch is stored or is the content of a dead-letter file.\<close>

definition accounted :: "instant set \<Rightarrow> IngestPayload list list \<Rightarrow> Flusher \<Rightarrow> database \<Rightarrow> database
    \<Rightarrow> IngestPayload list list \<Rightarrow> IngestPayload list list \<Rightarrow> bool" where
  "accounted T batches f' d d' stored dead \<longleftrightarrow>
     mset stored + mset dead = mset batches
   \<and> (\<forall>b \<in> set stored. \<forall>x \<in> set b. payload_stored b d' x)
   \<and> length (connection_stats d') = length (connection_stats d) + length (concat (map Events (concat stored)))
   \<and> (\<forall>b \<in> set dead. \<exists>t \<in> T. dead_letters f' (dead_letter_name t) = Some b)"

lemma accounted_stored:
  assumes "accounted T batches f' d1 d' stored dead" and "\<forall>x \<in> set b. payload_stored b d' x"
    and "length (connection_stats d1) = length (connection_stats d) + length (concat (map Events b))"
  shows "accounted (insert t T) (b # batches) f' d d' (b # stored) dead"
  using assms by (auto simp: accounted_def)

lemma accounted_dead:
  assumes "accounted T batches f' d d' stored dead" and "dead_letters f' (dead_letter_name t) = Some b"
  shows "accounted (insert t T) (b # batches) f' d d' stored (b # dead)"
  using assms by (auto simp: accounted_def)

lemma accounted_none: "accounted {} [] f' d d [] []"
  by (simp add: accounted_def)

lemma flush_all_fate:
  assumes "db_ok d" and "[] \<notin> set batches" and "length envs = length batches" and "\<forall>ft \<in> fst ` set envs. dead_letter_works ft"
    and "distinct (map snd envs)" and "flush_all envs batches f d = (f', d')"
  shows "covers d d' \<and> (\<forall>n. (\<forall>t \<in> snd ` set envs. n \<noteq> dead_letter_name t) \<longrightarrow> dead_letters f' n = dead_letters f n)
    \<and> (\<exists>stored dead. accounted (snd ` set envs) batches f' d d' stored dead)"
  using assms
proof (induction envs batches f d arbitrary: f' d' rule: flush_all.induct)
  case (1 ft now envs batch batches f d)
  obtain f1 d1 where F: "Flush ft now batch f d = (f1, d1)" by fastforce
  have works: "dead_letter_works ft" and ne: "batch \<noteq> []" and dist: "now \<notin> snd ` set envs" using 1 by auto
  have ok1: "db_ok d1 \<and> covers d d1" by (cases rule: Flush_cases [OF 1(2) ne works F]) (use 1(2) in auto)
  have prem: "db_ok d1" "[] \<notin> set batches" "length envs = length batches" "\<forall>ft \<in> fst ` set envs. dead_letter_works ft" "distinct (map snd envs)"
    and rest: "flush_all envs batches f1 d1 = (f', d')" using 1 ok1 F by auto
  note IH = 1(1) [OF F [symmetric] prem rest]
  obtain stored dead where acc: "accounted (snd ` set envs) batches f' d1 d' stored dead" using IH by blast
  have keep: "dead_letters f' (dead_letter_name now) = dead_letters f1 (dead_letter_name now)"
    using IH dist by (metis dead_letter_name_inject)
  have cov: "covers d d'" using IH ok1 covers_trans by blast
  from 1(2) ne works F show ?case
  proof (cases rule: Flush_cases)
    case stored
    have "\<forall>p \<in> set batch. payload_stored batch d' p" using stored(3) IH payload_stored_covers by blast
    from accounted_stored [OF acc this stored(4), of now] show ?thesis using IH cov stored(5) by auto
  next
    case dead
    from accounted_dead [of _ batches f' d d', OF acc [unfolded dead(1)], of now batch] keep dead(3)
    show ?thesis using IH cov dead by auto
  qed
qed (auto intro: accounted_none)

lemma mset_concat_parts: "mset stored + mset dead = mset bs \<Longrightarrow> mset (concat stored) + mset (concat dead) = mset (concat bs)"
  by (metis concat_append mset_append mset_concat mset_map sum_mset_sum_list)



subsection \<open>From the database to the dashboard\<close>

lemma event_rows_mem: "ev \<in> set evs \<Longrightarrow> \<exists>st. stat_row conn src ev st \<in> set (fst (event_rows now conn src key m evs))"
proof (induction evs arbitrary: m)
  case (Cons e evs)
  then show ?case by (cases "ev = e") (auto simp: Let_def case_prod_unfold)
qed simp

lemma payload_rows_mem:
  "p \<in> set ps \<Longrightarrow> ev \<in> set (Events p)
    \<Longrightarrow> \<exists>st. stat_row (getd connIDs (ConnectionID p)) (source_of p) ev st \<in> set (fst (payload_rows now connIDs m ps))"
proof (induction ps arbitrary: m)
  case (Cons q ps)
  show ?case
  proof (cases "p = q")
    case True
    then show ?thesis
      using event_rows_mem [OF Cons.prems(2), of "getd connIDs (ConnectionID p)" "source_of p" now "ewmaKey p" m]
      by (auto simp: Let_def case_prod_unfold)
  next
    case False
    then show ?thesis using Cons by (auto simp: Let_def case_prod_unfold)
  qed
qed simp

lemma flush_stores_event:
  assumes "db_ok d" and "flush ft now batch f d = (None, f', d')" and "p \<in> set batch" and "ev \<in> set (Events p)"
  obtains i st where "conn_in (ConnectionID p) i d'" "stat_row i (source_of p) ev st \<in> set (connection_stats d')"
proof -
  from assms(2) obtain d4 connIDs where 4: "flush_entities ft now batch d = Inr (d4, connIDs)"
    by (auto simp: flush_def split: sum.splits)
  have c: "conn_in (ConnectionID p) (getd connIDs (ConnectionID p)) d4" using flush_entities_ok [OF 4 assms(1)] assms(3) by blast
  have "d' = d4\<lparr>connection_stats := connection_stats d @ fst (buildStatRows now batch connIDs (ewma_states f))\<rparr>"
    using assms(2) unfolding flush_built [OF 4 assms(1)] case_prod_unfold Let_def by (auto split: if_splits)
  then show ?thesis
    using that [of "getd connIDs (ConnectionID p)"] c payload_rows_mem [OF assms(3,4), of connIDs now "evict now (ewma_states f)"]
    by (auto simp: conn_in_def buildStatRows_def)
qed

lemma find_id: "k \<in> f ` set xs \<Longrightarrow> \<exists>x. List.find (\<lambda>x. f x = k) xs = Some x \<and> x \<in> set xs \<and> f x = k"
  by (induction xs) auto

text \<open>Every connection of a sound database has an owner.\<close>

lemma connection_owner_exists:
  assumes "db_ok d" and "i \<in> conn_id ` set (connections d)"
  shows "\<exists>c org. connection_owner d i = Some (c, org)"
proof -
  obtain c where c: "List.find (\<lambda>c. conn_id c = i) (connections d) = Some c" "c \<in> set (connections d)" using find_id [OF assms(2)] by blast
  then have "conn_session_id c \<in> sess_id ` set (sessions d)" using assms(1) by (auto simp: db_ok_def)
  from find_id [OF this] obtain x where x: "List.find (\<lambda>x. sess_id x = conn_session_id c) (sessions d) = Some x" "x \<in> set (sessions d)" by blast
  then have "sess_participant_id x \<in> part_id ` set (participants d)" using assms(1) by (auto simp: db_ok_def)
  from find_id [OF this] obtain p where p: "List.find (\<lambda>p. part_id p = sess_participant_id x) (participants d) = Some p" "p \<in> set (participants d)" by blast
  then have "part_conference_id p \<in> conf_id ` set (conferences d)" using assms(1) by (auto simp: db_ok_def)
  from find_id [OF this] obtain cf where cf: "List.find (\<lambda>c. conf_id c = part_conference_id p) (conferences d) = Some cf" "cf \<in> set (conferences d)" by blast
  then have "conf_app_id cf \<in> app_id ` set (apps d)" using assms(1) by (auto simp: db_ok_def)
  from find_id [OF this] obtain a where a: "List.find (\<lambda>a. app_id a = conf_app_id cf) (apps d) = Some a" by blast
  show ?thesis by (simp add: connection_owner_def conference_row_of_def c x p cf a)
qed

text \<open>The parameters of a request for the statistics between two times.\<close>

definition range_params :: "params \<Rightarrow> instant \<Rightarrow> instant \<Rightarrow> bool" where
  "range_params q t1 t2 \<longleftrightarrow> q ''from'' \<noteq> [] \<and> ParseRFC3339 (q ''from'') = Some t1 \<and> q ''to'' \<noteq> [] \<and> ParseRFC3339 (q ''to'') = Some t2
     \<and> t1 \<noteq> zero_time \<and> t2 \<noteq> zero_time \<and> q ''source'' = []"

lemma stats_answer:
  assumes "connection_owner (ingest (tabs s)) i = Some (c, org)" and "in_i64 i" and "range_params q t1 t2"
    and "cache_get api ft now (stats_key i t1 t2 []) s = None"
    and "\<not> ft ''connection stats: ownership check''" and "\<not> ft ''connection stats: query''"
  shows "HandleGetConnectionStats api ft now (Some dt) (FormatInt i) q s =
     (if org \<noteq> SessOrgID dt then fail 403 ''forbidden'' s
      else answer api ft now (stats_key i t1 t2 [])
             (JObj [(''data'', JArr (map stat_item (queryStats (ingest (tabs s)) i t1 t2 [])))]) statsCacheTTL s)"
  using assms by (simp add: HandleGetConnectionStats_def range_params_def Let_def)


definition first_day :: params where
  "first_day = no_params(''from'' := ''1970-01-01T00:00:00Z'', ''to'' := ''1970-01-02T00:00:00Z'')"

definition flushed_dash :: "(unit, jval kv_store) dash" where
  "flushed_dash = \<lparr>tabs = (tabs demo_detail_dash)\<lparr>ingest := snd (snd sample_flush)\<rparr>, store = (), cache = (\<lambda>_. None)\<rparr>"


end
